(* ===== verification/Prelude.thy ===== *)
theory Prelude
  imports Main "HOL-Library.Word" "HOL-Library.Multiset"
begin

text \<open>
  Types, shared definitions and shared lemmas of the development: the machine integers the
  C++ code uses, addresses, the result type of code that can fail, reading and
  writing an \<^verbatim>\<open>int\<close> in a byte buffer, and the facts on maps, lists and words that the component
  theories use. A C++ \<^verbatim>\<open>char\<close> is Isabelle's 8-bit \<open>char\<close>, and a byte buffer is a
  \<open>string\<close>.
\<close>

unbundle bit_operations_syntax

named_theorems mem_simps \<open>how the heap operations read and write\<close>
named_theorems res_simps \<open>how a failing step propagates\<close>

section \<open>Machine integers and addresses\<close>

type_synonym u32 = "32 word"
type_synonym u64 = "64 word"

text \<open>Addresses are opaque numbers, \<open>0\<close> is the null pointer.\<close>

type_synonym addr = nat

abbreviation (input) NULL :: addr where
  "NULL \<equiv> 0"

section \<open>Results that can fail, and loops that may not return\<close>

text \<open>
  What goes wrong when the C++ code breaks a rule of the language: these are the cases that are
  undefined behaviour or that raise an exception.
\<close>

datatype fault =
    Null_deref
  | Bad_address addr
  | Bad_free addr
  | Out_of_bounds
  | Div_by_zero
  | Out_of_range
  | Signed_overflow
  | Bad_alloc

text \<open>
  \<open>'a res\<close>: \<open>None\<close> is a loop that does not return, \<open>Some (Inl f)\<close> a fault and
  \<open>Some (Inr x)\<close> a result. \<open>rbind\<close> runs the rest of the code on a result.
\<close>

type_synonym 'a res = "(fault + 'a) option"

definition rbind :: "'a res \<Rightarrow> ('a \<Rightarrow> 'b res) \<Rightarrow> 'b res" where
  "rbind m f = (case m of None \<Rightarrow> None | Some r \<Rightarrow> (case r of Inl e \<Rightarrow> Some (Inl e) | Inr x \<Rightarrow> f x))"

definition rok :: "'a \<Rightarrow> 'a res" where
  "rok x = Some (Inr x)"

definition rfail :: "fault \<Rightarrow> 'a res" where
  "rfail e = Some (Inl e)"

lemma rbind_simps [simp, res_simps]:
  "rbind None f = None"
  "rbind (rok x) f = f x"
  "rbind (rfail e) f = rfail e"
  by (simp_all add: rbind_def rok_def rfail_def)

lemma rok_inject [simp]: "rok x = rok y \<longleftrightarrow> x = y"
  by (simp add: rok_def)

lemma rok_rfail [simp]: "rok x \<noteq> rfail e" "rfail e \<noteq> rok x"
  by (simp_all add: rok_def rfail_def)

lemma rbind_rokE:
  assumes "rbind m f = rok y"
  obtains x where "m = rok x" and "f x = rok y"
  using assms by (auto simp: rbind_def rok_def split: option.splits sum.splits)

lemma rbind_pair_rokE:
  assumes "rbind m (\<lambda>(a, b). f a b) = rok y"
  obtains a b where "m = rok (a, b)" and "f a b = rok y"
  using assms by (auto elim!: rbind_rokE)

lemma rbind_rok_iff: "rbind m f = rok y \<longleftrightarrow> (\<exists>x. m = rok x \<and> f x = rok y)"
  by (auto simp: rbind_def rok_def split: option.splits sum.splits)

section \<open>An \<^verbatim>\<open>int\<close> at the start of a byte buffer\<close>

text \<open>
  \<open>int_bytes w\<close> is what \<^verbatim>\<open>*(int*)p = w\<close> stores (four bytes, least significant first, as on
  the x86 machines the code runs on), \<open>read_int bs\<close> is what \<^verbatim>\<open>*(int*)p\<close> reads.
\<close>

definition int_bytes :: "u32 \<Rightarrow> string" where
  "int_bytes w = map (\<lambda>i. char_of (unat w div 256 ^ i)) [0, 1, 2, 3]"

definition read_int :: "string \<Rightarrow> u32 option" where
  "read_int bs =
     (case bs of
        a # b # c # d # _ \<Rightarrow>
          Some (of_nat (of_char a + 256 * of_char b + 256 ^ 2 * of_char c + 256 ^ 3 * of_char d))
      | _ \<Rightarrow> None)"

lemma length_int_bytes [simp]: "length (int_bytes w) = 4"
  by (simp add: int_bytes_def)

lemma base256_digits:
  fixes n :: nat
  assumes "n < 256 ^ 4"
  shows "n mod 256 + 256 * (n div 256 mod 256) + 256 ^ 2 * (n div 256 ^ 2 mod 256)
           + 256 ^ 3 * (n div 256 ^ 3 mod 256) = n"
proof -
  have "n = n mod 256 + 256 * (n div 256)"
    by simp
  moreover have "n div 256 = n div 256 mod 256 + 256 * (n div 256 ^ 2)"
    using mod_mult_div_eq [of "n div 256" 256] by (simp add: div_mult2_eq [symmetric])
  moreover have "n div 256 ^ 2 = n div 256 ^ 2 mod 256 + 256 * (n div 256 ^ 3)"
    using mod_mult_div_eq [of "n div 256 ^ 2" 256] by (simp add: div_mult2_eq [symmetric])
  moreover have "n div 256 ^ 3 mod 256 = n div 256 ^ 3"
    using assms by (simp add: less_mult_imp_div_less)
  ultimately show ?thesis
    unfolding power2_eq_square power3_eq_cube by linarith
qed

lemma read_int_bytes [simp]: "read_int (int_bytes w @ bs) = Some w"
proof -
  have "unat w < 256 ^ 4"
    using unsigned_less [of w] by simp
  from arg_cong [OF base256_digits [OF this], of "of_nat :: nat \<Rightarrow> u32"] show ?thesis
    by (simp add: int_bytes_def read_int_def)
qed

lemma read_int_take:
  assumes "4 \<le> n"
  shows "read_int (take n bs) = read_int bs"
proof -
  from assms obtain m where n: "n = m + 4"
    by (metis add.commute le_Suc_ex)
  have "n = Suc (Suc (Suc (Suc m)))"
    by (simp add: n)
  then show ?thesis
    by (auto simp: read_int_def split: list.splits)
qed

lemma read_int_None_iff: "read_int bs = None \<longleftrightarrow> length bs < 4"
  by (auto simp: read_int_def split: list.splits)

section \<open>Lists\<close>

lemma nth_concat_disjoint:
  assumes "distinct (concat xss)" "i < length xss" "j < length xss" "i \<noteq> j"
  shows "set (xss ! i) \<inter> set (xss ! j) = {}"
  using assms
proof (induction xss arbitrary: i j)
  case Nil
  then show ?case by simp
next
  case (Cons xs xss)
  have head: "set xs \<inter> set (xss ! k) = {}" if "k < length xss" for k
    using Cons.prems(1) that nth_mem [OF that] by (fastforce simp: distinct_append)
  show ?case
    using Cons.IH Cons.prems head by (cases i; cases j) (auto simp: distinct_append)
qed


lemma mset_concat_snoc:
  "i < length xss \<Longrightarrow> mset (concat (xss[i := xss ! i @ [x]])) = add_mset x (mset (concat xss))"
proof (induction xss arbitrary: i)
  case Nil
  then show ?case by simp
next
  case (Cons xs xss)
  then show ?case by (cases i) auto
qed

lemma set_concat_snoc:
  assumes "i < length xss"
  shows "set (concat (xss[i := xss ! i @ [x]])) = insert x (set (concat xss))"
  using arg_cong [OF mset_concat_snoc [OF assms], of set_mset] by (simp del: set_concat)

lemma distinct_map_concat_snoc:
  assumes "i < length xss"
  shows "distinct (map f (concat (xss[i := xss ! i @ [x]])))
         \<longleftrightarrow> distinct (map f (concat xss)) \<and> f x \<notin> f ` set (concat xss)"
proof -
  have "mset (map f (concat (xss[i := xss ! i @ [x]]))) = mset (f x # map f (concat xss))"
    using mset_concat_snoc [OF assms, of x] by (simp add: mset_map del: mset_concat)
  then have "distinct (map f (concat (xss[i := xss ! i @ [x]]))) = distinct (f x # map f (concat xss))"
    by (rule mset_eq_imp_distinct_iff)
  then show ?thesis by auto
qed


lemma sub_insert_disjoint: "A' \<subseteq> insert x A \<Longrightarrow> A \<inter> B = {} \<Longrightarrow> x \<notin> B \<Longrightarrow> A' \<inter> B = {}"
  by blast


section \<open>Words\<close>

lemma unat_ucast_widen [simp]: "unat (ucast (w :: u32) :: u64) = unat w"
proof -
  have "unat w < 2 ^ 32"
    using unsigned_less [of w, where 'a = nat] by simp
  then have "unat w < 2 ^ 64"
    by simp
  then show ?thesis
    by (simp add: unsigned_ucast_eq take_bit_nat_eq_self)
qed

end
