(* ===== verification/Hash_Table.thy ===== *)
theory Hash_Table
  imports Prelude
begin

text \<open>
  The hash table of \<^verbatim>\<open>include/db.hh\<close> and \<^verbatim>\<open>db.cc\<close>: Wang's integer hash, the chained table of
  \<^verbatim>\<open>db_val\<close> nodes and its operations \<^verbatim>\<open>hashtable_init\<close>, \<^verbatim>\<open>ht_set\<close>, \<^verbatim>\<open>ht_get\<close> and
  \<^verbatim>\<open>get_table_direct\<close>, over an explicit heap in which a wrong pointer is a fault. The invariant
  \<open>ht_rep\<close> says that every bucket is a finite acyclic chain of nodes whose keys hash to that
  bucket, each node owning its data block. Under it the operations never fault, always return,
  and implement a map from keys to byte strings with a version check (\<open>spec_put\<close>).
\<close>

section \<open>The integer hash\<close>

definition get_hash :: "u32 \<Rightarrow> u32 \<Rightarrow> u32" where
  "get_hash key seed =
     (let hash = key;
          hash = hash XOR seed;
          hash = NOT hash + push_bit 15 hash;
          hash = hash XOR drop_bit 12 hash;
          hash = hash + push_bit 2 hash;
          hash = hash XOR drop_bit 4 hash;
          hash = hash * 2057;
          hash = hash XOR drop_bit 16 hash
      in hash AND 0x3fffffff)"

section \<open>The heap\<close>

text \<open>
  \<^verbatim>\<open>struct db_val\<close>. The heap holds the nodes (\<open>vals\<close>) and the data blocks (\<open>blobs\<close>), \<open>brk\<close> is
  the next address that \<^verbatim>\<open>malloc\<close> returns: addresses are not reused, so that a pointer that
  outlives its block stays invalid.
\<close>

record db_val =
  v_key :: u32
  v_next :: addr
  v_data :: addr
  v_length :: u32

record heap =
  vals :: "addr \<rightharpoonup> db_val"
  blobs :: "addr \<rightharpoonup> string"
  brk :: addr

definition malloc_val :: "db_val \<Rightarrow> heap \<Rightarrow> addr \<times> heap" where
  "malloc_val g h = (brk h, h\<lparr>vals := (vals h)(brk h \<mapsto> g), brk := brk h + 1\<rparr>)"

definition malloc_blob :: "string \<Rightarrow> heap \<Rightarrow> addr \<times> heap" where
  "malloc_blob bs h = (brk h, h\<lparr>blobs := (blobs h)(brk h \<mapsto> bs), brk := brk h + 1\<rparr>)"

definition load_val :: "heap \<Rightarrow> addr \<Rightarrow> db_val res" where
  "load_val h a =
     (if a = NULL then rfail Null_deref
      else case vals h a of None \<Rightarrow> rfail (Bad_address a) | Some v \<Rightarrow> rok v)"

definition update_val :: "addr \<Rightarrow> (db_val \<Rightarrow> db_val) \<Rightarrow> heap \<Rightarrow> heap res" where
  "update_val a f h = rbind (load_val h a) (\<lambda>v. rok (h\<lparr>vals := (vals h)(a \<mapsto> f v)\<rparr>))"

definition load_blob :: "heap \<Rightarrow> addr \<Rightarrow> string res" where
  "load_blob h a =
     (if a = NULL then rfail Null_deref
      else case blobs h a of None \<Rightarrow> rfail (Bad_address a) | Some bs \<Rightarrow> rok bs)"

definition load_int :: "heap \<Rightarrow> addr \<Rightarrow> u32 res" where
  "load_int h a =
     rbind (load_blob h a)
       (\<lambda>bs. case read_int bs of None \<Rightarrow> rfail Out_of_bounds | Some w \<Rightarrow> rok w)"

text \<open>\<^verbatim>\<open>memcpy(dst, a, n)\<close> into a fresh block of \<open>n\<close> bytes reads \<open>n\<close> bytes at \<open>a\<close>.\<close>

definition read_bytes :: "heap \<Rightarrow> addr \<Rightarrow> nat \<Rightarrow> string res" where
  "read_bytes h a n =
     (if n = 0 then rok []
      else rbind (load_blob h a)
        (\<lambda>bs. if n \<le> length bs then rok (take n bs) else rfail Out_of_bounds))"

text \<open>\<^verbatim>\<open>free(NULL)\<close> does nothing; freeing anything that is not a live block is a fault.\<close>

definition free_val :: "addr \<Rightarrow> heap \<Rightarrow> heap res" where
  "free_val a h =
     (if a = NULL then rok h
      else if vals h a = None then rfail (Bad_free a)
      else rok (h\<lparr>vals := (vals h)(a := None)\<rparr>))"

definition free_blob :: "addr \<Rightarrow> heap \<Rightarrow> heap res" where
  "free_blob a h =
     (if a = NULL then rok h
      else if blobs h a = None then rfail (Bad_free a)
      else rok (h\<lparr>blobs := (blobs h)(a := None)\<rparr>))"

section \<open>The table and its operations\<close>

record hashtable =
  ht_size :: u32
  ht_table :: "addr list"

text \<open>\<^verbatim>\<open>database::hashtable_init\<close>: \<^verbatim>\<open>calloc\<close> gives \<open>sz\<close> null pointers.\<close>

definition hashtable_init :: "u32 \<Rightarrow> hashtable" where
  "hashtable_init sz = \<lparr>ht_size = sz, ht_table = replicate (unat sz) NULL\<rparr>"

text \<open>The constructor \<^verbatim>\<open>database()\<close> makes a table of a million buckets.\<close>

definition new_database :: hashtable where
  "new_database = hashtable_init (1000 * 1000)"

definition bucket_index :: "hashtable \<Rightarrow> u32 \<Rightarrow> nat res" where
  "bucket_index t k =
     (if ht_size t = 0 then rfail Div_by_zero
      else rok (unat (get_hash k 0 mod ht_size t)))"

definition load_slot :: "hashtable \<Rightarrow> nat \<Rightarrow> addr res" where
  "load_slot t i = (if i < length (ht_table t) then rok (ht_table t ! i) else rfail Out_of_bounds)"

text \<open>
  The loop of \<^verbatim>\<open>ht_set\<close>: it keeps the node \<open>before\<close> the current one and stops at the end of the
  chain or at a node with the key. On a cyclic chain it may not return.
\<close>

partial_function (option) chase :: "heap \<Rightarrow> u32 \<Rightarrow> addr \<Rightarrow> addr \<Rightarrow> (addr \<times> addr) res" where
  "chase h k before next =
     (if next = NULL then rok (before, next)
      else case vals h next of
        None \<Rightarrow> rfail (Bad_address next)
      | Some n \<Rightarrow> if v_key n = k then rok (before, next) else chase h k next (v_next n))"

text \<open>
  \<^verbatim>\<open>database::ht_set\<close>, run under the table's lock. It takes over the node \<open>val\<close> the caller
  allocated: links it at the end of its bucket when the key is new, or moves its data into the
  present node and frees it when the version matches. On a version mismatch it returns false and
  leaves \<open>val\<close> to the caller.
\<close>

definition ht_set :: "addr \<Rightarrow> u32 \<Rightarrow> heap \<Rightarrow> hashtable \<Rightarrow> (heap \<times> hashtable \<times> bool) res" where
  "ht_set val version h t =
     rbind (update_val val (\<lambda>v. v\<lparr>v_next := NULL\<rparr>) h) (\<lambda>h.
     rbind (load_val h val) (\<lambda>v.
     rbind (bucket_index t (v_key v)) (\<lambda>hash.
     rbind (load_slot t hash) (\<lambda>first.
     rbind (chase h (v_key v) NULL first) (\<lambda>(before, next).
       if next \<noteq> NULL then
         rbind (load_val h next) (\<lambda>n.
         rbind (load_int h (v_data n)) (\<lambda>ver.
           if ver = version then
             rbind (free_blob (v_data n) h) (\<lambda>h.
             rbind (update_val next (\<lambda>n. n\<lparr>v_data := v_data v, v_length := v_length v\<rparr>) h) (\<lambda>h.
             rbind (free_val val h) (\<lambda>h. rok (h, t, True))))
           else rok (h, t, False)))
       else if before \<noteq> NULL then
         rbind (update_val before (\<lambda>b. b\<lparr>v_next := val\<rparr>) h) (\<lambda>h. rok (h, t, True))
       else rok (h, t\<lparr>ht_table := (ht_table t)[hash := val]\<rparr>, True))))))"

text \<open>The loop of \<^verbatim>\<open>ht_get\<close>.\<close>

partial_function (option) seek :: "heap \<Rightarrow> u32 \<Rightarrow> addr \<Rightarrow> addr res" where
  "seek h k p =
     (if p = NULL then rok p
      else case vals h p of
        None \<Rightarrow> rfail (Bad_address p)
      | Some n \<Rightarrow> if v_key n = k then rok p else seek h k (v_next n))"

text \<open>
  \<^verbatim>\<open>database::ht_get\<close>: a copy of the entry in fresh blocks, or the null pointer. The fields of
  the copy that the code does not set hold whatever \<^verbatim>\<open>malloc\<close> left there (\<open>g\<close>).
\<close>

definition ht_get :: "db_val \<Rightarrow> u32 \<Rightarrow> heap \<Rightarrow> hashtable \<Rightarrow> (addr \<times> heap) res" where
  "ht_get g key h t =
     rbind (bucket_index t key) (\<lambda>hash.
     rbind (load_slot t hash) (\<lambda>first.
     rbind (seek h key first) (\<lambda>p.
       if p \<noteq> NULL then
         rbind (load_val h p) (\<lambda>v.
           let (ret, h) = malloc_val g h in
           rbind (update_val ret (\<lambda>r. r\<lparr>v_length := v_length v\<rparr>) h) (\<lambda>h.
           rbind (read_bytes h (v_data v) (unat (v_length v))) (\<lambda>bs.
             let (d, h) = malloc_blob bs h in
             rbind (update_val ret (\<lambda>r. r\<lparr>v_data := d\<rparr>) h) (\<lambda>h. rok (ret, h)))))
       else rok (NULL, h))))"

definition get_table_direct :: "hashtable \<Rightarrow> addr list" where
  "get_table_direct t = ht_table t"


section \<open>The representation invariant\<close>

definition key_at :: "heap \<Rightarrow> addr \<Rightarrow> u32" where
  "key_at h a = (case vals h a of None \<Rightarrow> 0 | Some v \<Rightarrow> v_key v)"

definition data_at :: "heap \<Rightarrow> addr \<Rightarrow> addr" where
  "data_at h a = (case vals h a of None \<Rightarrow> NULL | Some v \<Rightarrow> v_data v)"

text \<open>The bytes an entry holds: the first \<open>length\<close> bytes of its data block.\<close>

definition entry_at :: "heap \<Rightarrow> addr \<Rightarrow> string" where
  "entry_at h a =
     (case vals h a of None \<Rightarrow> []
      | Some v \<Rightarrow> (case blobs h (v_data v) of None \<Rightarrow> [] | Some bs \<Rightarrow> take (unat (v_length v)) bs))"

text \<open>A node owns a live data block that holds its \<open>length\<close> bytes, a version at least.\<close>

definition node_ok :: "heap \<Rightarrow> addr \<Rightarrow> bool" where
  "node_ok h a =
     (case vals h a of None \<Rightarrow> False
      | Some v \<Rightarrow> (case blobs h (v_data v) of None \<Rightarrow> False
                  | Some bs \<Rightarrow> 4 \<le> unat (v_length v) \<and> unat (v_length v) \<le> length bs))"

text \<open>The nodes on the chain from \<open>p\<close>, in order, up to the null pointer.\<close>

fun chain :: "(addr \<rightharpoonup> db_val) \<Rightarrow> addr \<Rightarrow> addr list \<Rightarrow> bool" where
  "chain m p [] = (p = NULL)"
| "chain m p (a # as) =
     (p = a \<and> a \<noteq> NULL \<and> (case m a of None \<Rightarrow> False | Some v \<Rightarrow> chain m (v_next v) as))"

definition heap_ok :: "heap \<Rightarrow> bool" where
  "heap_ok h \<longleftrightarrow>
     0 < brk h \<and> dom (vals h) \<subseteq> {0 <..< brk h} \<and> dom (blobs h) \<subseteq> {0 <..< brk h}"

definition hash_of :: "hashtable \<Rightarrow> u32 \<Rightarrow> nat" where
  "hash_of t k = unat (get_hash k 0 mod ht_size t)"

definition ht_shape :: "heap \<Rightarrow> hashtable \<Rightarrow> addr list list \<Rightarrow> bool" where
  "ht_shape h t bss \<longleftrightarrow>
     0 < ht_size t \<and> length (ht_table t) = unat (ht_size t) \<and> length bss = length (ht_table t)
     \<and> (\<forall>i < length bss. chain (vals h) (ht_table t ! i) (bss ! i)
          \<and> (\<forall>a \<in> set (bss ! i). hash_of t (key_at h a) = i))"

definition ht_rep :: "heap \<Rightarrow> hashtable \<Rightarrow> addr list list \<Rightarrow> bool" where
  "ht_rep h t bss \<longleftrightarrow>
     heap_ok h \<and> ht_shape h t bss \<and> distinct (map (key_at h) (concat bss))
     \<and> (\<forall>a \<in> set (concat bss). node_ok h a) \<and> inj_on (data_at h) (set (concat bss))"

text \<open>The map a table stands for.\<close>

definition ht_map :: "heap \<Rightarrow> addr list list \<Rightarrow> (u32 \<rightharpoonup> string)" where
  "ht_map h bss = map_of (map (\<lambda>a. (key_at h a, entry_at h a)) (concat bss))"

text \<open>What \<^verbatim>\<open>ht_set\<close> promises on that map.\<close>

definition spec_put :: "(u32 \<rightharpoonup> string) \<Rightarrow> u32 \<Rightarrow> string \<Rightarrow> u32 \<Rightarrow> (u32 \<rightharpoonup> string) \<times> bool" where
  "spec_put m k bs version =
     (case m k of
        None \<Rightarrow> (m(k \<mapsto> bs), True)
      | Some old \<Rightarrow> if read_int old = Some version then (m(k \<mapsto> bs), True) else (m, False))"

section \<open>Heap lemmas\<close>

lemma malloc_val_simps [mem_simps]:
  "fst (malloc_val g h) = brk h"
  "vals (snd (malloc_val g h)) = (vals h)(brk h \<mapsto> g)"
  "blobs (snd (malloc_val g h)) = blobs h"
  "brk (snd (malloc_val g h)) = brk h + 1"
  by (simp_all add: malloc_val_def)

lemma malloc_blob_simps [mem_simps]:
  "fst (malloc_blob bs h) = brk h"
  "vals (snd (malloc_blob bs h)) = vals h"
  "blobs (snd (malloc_blob bs h)) = (blobs h)(brk h \<mapsto> bs)"
  "brk (snd (malloc_blob bs h)) = brk h + 1"
  by (simp_all add: malloc_blob_def)

lemma load_val_ok [mem_simps]: "vals h a = Some v \<Longrightarrow> a \<noteq> NULL \<Longrightarrow> load_val h a = rok v"
  by (simp add: load_val_def)

lemma update_val_ok [mem_simps]:
  "vals h a = Some v \<Longrightarrow> a \<noteq> NULL \<Longrightarrow> update_val a f h = rok (h\<lparr>vals := (vals h)(a \<mapsto> f v)\<rparr>)"
  by (simp add: update_val_def load_val_ok)

lemma load_blob_ok [mem_simps]: "blobs h a = Some bs \<Longrightarrow> a \<noteq> NULL \<Longrightarrow> load_blob h a = rok bs"
  by (simp add: load_blob_def)

lemma load_int_ok [mem_simps]:
  "blobs h a = Some bs \<Longrightarrow> a \<noteq> NULL \<Longrightarrow> read_int bs = Some w \<Longrightarrow> load_int h a = rok w"
  by (simp add: load_int_def load_blob_ok)

lemma read_bytes_ok [mem_simps]:
  "blobs h a = Some bs \<Longrightarrow> a \<noteq> NULL \<Longrightarrow> n \<le> length bs \<Longrightarrow> read_bytes h a n = rok (take n bs)"
  by (simp add: read_bytes_def load_blob_ok)

lemma free_val_ok [mem_simps]:
  "vals h a = Some v \<Longrightarrow> a \<noteq> NULL \<Longrightarrow> free_val a h = rok (h\<lparr>vals := (vals h)(a := None)\<rparr>)"
  by (simp add: free_val_def)

lemma free_blob_ok [mem_simps]:
  "blobs h a = Some bs \<Longrightarrow> a \<noteq> NULL \<Longrightarrow> free_blob a h = rok (h\<lparr>blobs := (blobs h)(a := None)\<rparr>)"
  by (simp add: free_blob_def)

lemma heap_ok_val: "heap_ok h \<Longrightarrow> vals h a = Some v \<Longrightarrow> a \<noteq> NULL \<and> a < brk h"
  by (auto simp: heap_ok_def)

lemma heap_ok_blob: "heap_ok h \<Longrightarrow> blobs h a = Some bs \<Longrightarrow> a \<noteq> NULL \<and> a < brk h"
  by (auto simp: heap_ok_def)

lemma heap_ok_fresh:
  assumes "heap_ok h"
  shows "vals h (brk h) = None" "blobs h (brk h) = None" "brk h \<noteq> NULL"
proof -
  show "vals h (brk h) = None"
    using heap_ok_val [OF assms, of "brk h"] by (cases "vals h (brk h)") auto
  show "blobs h (brk h) = None"
    using heap_ok_blob [OF assms, of "brk h"] by (cases "blobs h (brk h)") auto
  show "brk h \<noteq> NULL"
    using assms by (simp add: heap_ok_def)
qed

lemma node_okE:
  assumes "node_ok h a"
  obtains v bs where "vals h a = Some v" "blobs h (v_data v) = Some bs"
    "4 \<le> unat (v_length v)" "unat (v_length v) \<le> length bs"
  using assms by (auto simp: node_ok_def split: option.splits)

lemma at_simps [mem_simps]:
  assumes "vals h a = Some v"
  shows "key_at h a = v_key v" "data_at h a = v_data v"
  using assms by (simp_all add: key_at_def data_at_def)

section \<open>Chains\<close>

lemma chain_cong:
  "(\<And>a. a \<in> set as \<Longrightarrow> map_option v_next (m' a) = map_option v_next (m a)) \<Longrightarrow> chain m' p as = chain m p as"
proof (induction as arbitrary: p)
  case Nil
  then show ?case by simp
next
  case (Cons a as)
  have "map_option v_next (m' a) = map_option v_next (m a)"
    by (rule Cons.prems) simp
  moreover have "\<And>p. chain m' p as = chain m p as"
    by (rule Cons.IH) (simp add: Cons.prems)
  ultimately show ?case
    by (cases "m a"; cases "m' a") auto
qed

lemma chain_upd_other [simp]: "a \<notin> set as \<Longrightarrow> chain (m(a := x)) p as = chain m p as"
  by (rule chain_cong) auto

lemma chain_alloc: "chain m p as \<Longrightarrow> a \<in> set as \<Longrightarrow> a \<noteq> NULL \<and> (\<exists>v. m a = Some v)"
  by (induction as arbitrary: p) (auto split: option.splits)

lemma chain_snoc:
  assumes "chain m p as" "as \<noteq> []" "distinct as" "b \<notin> set as" "b \<noteq> NULL"
    "m b = Some w" "v_next w = NULL" "m (last as) = Some v"
  shows "chain (m(last as \<mapsto> v\<lparr>v_next := b\<rparr>)) p (as @ [b])"
  using assms
proof (induction as arbitrary: p)
  case Nil
  then show ?case by simp
next
  case (Cons a as)
  then show ?case
    by (cases as) (auto split: option.splits)
qed

text \<open>What the two loops return on a chain: the first node with the key, and the one before.\<close>

lemma chase_chain:
  "chain (vals h) p as \<Longrightarrow>
     chase h k b p =
       rok (last (b # takeWhile (\<lambda>a. key_at h a \<noteq> k) as),
            case dropWhile (\<lambda>a. key_at h a \<noteq> k) as of [] \<Rightarrow> NULL | a # _ \<Rightarrow> a)"
proof (induction as arbitrary: b p)
  case Nil
  then show ?case by (simp add: chase.simps)
next
  case (Cons a as)
  then obtain v where v: "vals h a = Some v" "p = a" "a \<noteq> NULL" "chain (vals h) (v_next v) as"
    by (auto split: option.splits)
  show ?case
  proof (cases "v_key v = k")
    case True
    with v show ?thesis by (subst chase.simps) (simp add: mem_simps)
  next
    case False
    with v Cons.IH [OF v(4)] show ?thesis
      by (subst chase.simps) (simp add: mem_simps)
  qed
qed

lemma seek_chain:
  "chain (vals h) p as \<Longrightarrow>
     seek h k p = rok (case dropWhile (\<lambda>a. key_at h a \<noteq> k) as of [] \<Rightarrow> NULL | a # _ \<Rightarrow> a)"
proof (induction as arbitrary: p)
  case Nil
  then show ?case by (simp add: seek.simps)
next
  case (Cons a as)
  then obtain v where v: "vals h a = Some v" "p = a" "a \<noteq> NULL" "chain (vals h) (v_next v) as"
    by (auto split: option.splits)
  with Cons.IH [OF v(4)] show ?case
    by (cases "v_key v = k"; subst seek.simps; simp add: mem_simps)
qed


section \<open>The bucket of a key\<close>

lemma ht_shapeD:
  assumes "ht_shape h t bss"
  shows "bucket_index t k = rok (hash_of t k)" "hash_of t k < length bss"
    "load_slot t (hash_of t k) = rok (ht_table t ! hash_of t k)"
    "chain (vals h) (ht_table t ! hash_of t k) (bss ! hash_of t k)"
proof -
  have pos: "ht_size t \<noteq> 0" and len: "length bss = unat (ht_size t)" "length (ht_table t) = length bss"
    using assms by (auto simp: ht_shape_def)
  show "bucket_index t k = rok (hash_of t k)"
    using pos by (simp add: bucket_index_def hash_of_def)
  have "hash_of t k < unat (ht_size t)"
    using pos by (simp add: hash_of_def unat_mod unat_gt_0)
  with len show *: "hash_of t k < length bss"
    by simp
  with len show "load_slot t (hash_of t k) = rok (ht_table t ! hash_of t k)"
    by (simp add: load_slot_def)
  from assms * show "chain (vals h) (ht_table t ! hash_of t k) (bss ! hash_of t k)"
    by (simp add: ht_shape_def)
qed

lemma ht_repD:
  assumes "ht_rep h t bss"
  shows "heap_ok h" "ht_shape h t bss" "distinct (concat bss)"
    "distinct (map (key_at h) (concat bss))" "inj_on (data_at h) (set (concat bss))"
    "\<And>a. a \<in> set (concat bss) \<Longrightarrow> node_ok h a"
  using assms by (auto simp: ht_rep_def distinct_map)

lemma bucket_mem:
  assumes "ht_shape h t bss" "a \<in> set (concat bss)" "key_at h a = k"
  shows "a \<in> set (bss ! hash_of t k)"
proof -
  from assms(2) obtain as where "as \<in> set bss" "a \<in> set as"
    by auto
  then obtain i where "i < length bss" "a \<in> set (bss ! i)"
    by (metis in_set_conv_nth)
  with assms(1,3) show ?thesis
    by (auto simp: ht_shape_def)
qed

lemma ht_map_Some:
  assumes "ht_rep h t bss" "a \<in> set (concat bss)"
  shows "ht_map h bss (key_at h a) = Some (entry_at h a)"
proof -
  have "(key_at h a, entry_at h a) \<in> set (map (\<lambda>a. (key_at h a, entry_at h a)) (concat bss))"
    using assms(2) by (auto simp del: set_concat)
  then show ?thesis
    unfolding ht_map_def using ht_repD(4) [OF assms(1)]
    by (intro map_of_is_SomeI) (simp add: comp_def)
qed

lemma ht_map_None_iff: "ht_map h bss k = None \<longleftrightarrow> (\<forall>a \<in> set (concat bss). key_at h a \<noteq> k)"
  by (auto simp: ht_map_def map_of_eq_None_iff image_iff)

text \<open>What the loops find in the bucket is what the map holds.\<close>

lemma bucket_find:
  assumes rep: "ht_rep h t bss"
  shows "(case dropWhile (\<lambda>a. key_at h a \<noteq> k) (bss ! hash_of t k) of
            [] \<Rightarrow> ht_map h bss k = None
          | a # _ \<Rightarrow> a \<in> set (concat bss) \<and> key_at h a = k \<and> ht_map h bss k = Some (entry_at h a))"
proof (cases "dropWhile (\<lambda>a. key_at h a \<noteq> k) (bss ! hash_of t k)")
  case Nil
  then have "\<forall>a \<in> set (bss ! hash_of t k). key_at h a \<noteq> k"
    by (simp add: dropWhile_eq_Nil_conv)
  then have "ht_map h bss k = None"
    using bucket_mem [OF ht_repD(2) [OF rep]] by (auto simp: ht_map_None_iff)
  then show ?thesis by (simp only: Nil list.case)
next
  case (Cons a as)
  have "a \<in> set (bss ! hash_of t k)"
    using Cons by (metis list.set_intros(1) set_dropWhileD)
  then have mem: "a \<in> set (concat bss)"
    using ht_shapeD(2) [OF ht_repD(2) [OF rep], of k] by auto
  have "key_at h a = k"
    using Cons hd_dropWhile [of "\<lambda>a. key_at h a \<noteq> k" "bss ! hash_of t k"] by simp
  with Cons mem ht_map_Some [OF rep mem] show ?thesis by simp
qed

section \<open>\<^verbatim>\<open>ht_get\<close> reads the map\<close>

lemma entry_at_node:
  assumes "vals h a = Some v" "blobs h (v_data v) = Some bs"
  shows "entry_at h a = take (unat (v_length v)) bs"
  using assms by (simp add: entry_at_def)

lemma ht_get_None:
  assumes rep: "ht_rep h t bss" and none: "ht_map h bss k = None"
  shows "ht_get g k h t = rok (NULL, h)"
proof -
  note shape = ht_shapeD [OF ht_repD(2) [OF rep], of k]
  have "dropWhile (\<lambda>a. key_at h a \<noteq> k) (bss ! hash_of t k) = []"
    using bucket_find [OF rep, of k] none by (auto split: list.splits)
  with shape seek_chain [OF shape(4), of k] show ?thesis
    by (simp add: ht_get_def)
qed

definition copy_heap :: "db_val \<Rightarrow> string \<Rightarrow> u32 \<Rightarrow> heap \<Rightarrow> heap" where
  "copy_heap g bs n h =
     h\<lparr>vals := (vals h)(brk h \<mapsto> g\<lparr>v_length := n, v_data := brk h + 1\<rparr>),
       blobs := (blobs h)(brk h + 1 \<mapsto> bs), brk := brk h + 2\<rparr>"

lemma ht_get_Some:
  assumes rep: "ht_rep h t bss" and some: "ht_map h bss k = Some bs"
  shows "ht_get g k h t = rok (brk h, copy_heap g bs (of_nat (length bs)) h)"
proof -
  note shape = ht_shapeD [OF ht_repD(2) [OF rep], of k]
  from bucket_find [OF rep, of k] some obtain a as where
    a: "dropWhile (\<lambda>a. key_at h a \<noteq> k) (bss ! hash_of t k) = a # as"
    and mem: "a \<in> set (concat bss)" and key: "key_at h a = k" and bs: "bs = entry_at h a"
    by (auto split: list.splits)
  from ht_repD(6) [OF rep mem] obtain v data where
    v: "vals h a = Some v" and data: "blobs h (v_data v) = Some data"
    and len: "4 \<le> unat (v_length v)" "unat (v_length v) \<le> length data"
    by (rule node_okE)
  note ok = ht_repD(1) [OF rep]
  have a0: "a \<noteq> NULL" and d0: "v_data v \<noteq> NULL"
    using heap_ok_val [OF ok v] heap_ok_blob [OF ok data] by auto
  have bs': "bs = take (unat (v_length v)) data" "of_nat (length bs) = v_length v"
    using bs entry_at_node [OF v data] len by (simp_all add: min_def)
  show ?thesis
    using shape seek_chain [OF shape(4), of k] a a0 d0 v data len heap_ok_fresh [OF ok]
    by (simp add: ht_get_def mem_simps malloc_val_def malloc_blob_def copy_heap_def Let_def bs')
qed


section \<open>Changes of the heap that keep the table\<close>

lemma ht_rep_frame:
  assumes rep: "ht_rep h t bss" and ok: "heap_ok h'"
    and vals: "\<And>a. a \<in> set (concat bss) \<Longrightarrow> vals h' a = vals h a"
    and blobs: "\<And>a. a \<in> set (concat bss) \<Longrightarrow> blobs h' (data_at h a) = blobs h (data_at h a)"
  shows "ht_rep h' t bss" "ht_map h' bss = ht_map h bss"
proof -
  have same: "key_at h' a = key_at h a" "data_at h' a = data_at h a" "entry_at h' a = entry_at h a"
      "node_ok h' a = node_ok h a" if "a \<in> set (concat bss)" for a
    using vals [OF that] blobs [OF that]
    by (auto simp: key_at_def data_at_def entry_at_def node_ok_def split: option.splits)
  have keys: "map (key_at h') (concat bss) = map (key_at h) (concat bss)"
    by (rule map_cong [OF refl]) (rule same)
  have bucket: "a \<in> set (concat bss)" if "i < length bss" "a \<in> set (bss ! i)" for i a
    using that by auto
  have "chain (vals h') p (bss ! i) = chain (vals h) p (bss ! i)" if "i < length bss" for i p
    by (rule chain_cong) (simp add: vals [OF bucket [OF that]])
  then have "ht_shape h' t bss"
    using ht_repD(2) [OF rep] same(1) [OF bucket] by (simp add: ht_shape_def)
  moreover have "inj_on (data_at h') (set (concat bss))"
    using ht_repD(5) [OF rep] same(2) inj_on_cong by blast
  ultimately show "ht_rep h' t bss"
    unfolding ht_rep_def keys using ht_repD(4,6) [OF rep] ok same(4) by blast
  show "ht_map h' bss = ht_map h bss"
    unfolding ht_map_def by (rule arg_cong [of _ _ map_of], rule map_cong [OF refl]) (simp add: same)
qed

lemma upd_next:
  assumes "vals h a = Some v"
  shows "key_at (h\<lparr>vals := (vals h)(a \<mapsto> v\<lparr>v_next := x\<rparr>)\<rparr>) = key_at h"
    "data_at (h\<lparr>vals := (vals h)(a \<mapsto> v\<lparr>v_next := x\<rparr>)\<rparr>) = data_at h"
    "entry_at (h\<lparr>vals := (vals h)(a \<mapsto> v\<lparr>v_next := x\<rparr>)\<rparr>) = entry_at h"
    "node_ok (h\<lparr>vals := (vals h)(a \<mapsto> v\<lparr>v_next := x\<rparr>)\<rparr>) = node_ok h"
    "heap_ok (h\<lparr>vals := (vals h)(a \<mapsto> v\<lparr>v_next := x\<rparr>)\<rparr>) = heap_ok h"
  using assms
  by (auto simp: fun_eq_iff key_at_def data_at_def entry_at_def node_ok_def heap_ok_def split: option.splits)

lemma ht_map_eq_Some_iff:
  assumes "ht_rep h t bss"
  shows "ht_map h bss k = Some bs \<longleftrightarrow> (\<exists>a \<in> set (concat bss). key_at h a = k \<and> entry_at h a = bs)"
proof -
  have "distinct (map fst (map (\<lambda>a. (key_at h a, entry_at h a)) (concat bss)))"
    using ht_repD(4) [OF assms] by (simp add: comp_def)
  then show ?thesis
    unfolding ht_map_def by (subst map_of_eq_Some_iff) (auto simp: image_iff simp del: set_concat)
qed

text \<open>A map is determined by its entries: how the update of one key shows.\<close>

lemma ht_map_updI:
  assumes rep: "ht_rep h t bss" and rep': "ht_rep h' t' bss'"
    and mem: "b \<in> set (concat bss')" "key_at h' b = k" "entry_at h' b = bs"
    and same: "\<And>a. key_at h a \<noteq> k \<and> a \<in> set (concat bss) \<longleftrightarrow> key_at h' a \<noteq> k \<and> a \<in> set (concat bss')"
    and payload: "\<And>a. key_at h a \<noteq> k \<Longrightarrow> a \<in> set (concat bss) \<Longrightarrow>
      key_at h' a = key_at h a \<and> entry_at h' a = entry_at h a"
  shows "ht_map h' bss' = (ht_map h bss)(k \<mapsto> bs)"
proof
  fix k'
  show "ht_map h' bss' k' = ((ht_map h bss)(k \<mapsto> bs)) k'"
  proof (cases "k' = k")
    case True
    with mem ht_map_eq_Some_iff [OF rep', of k bs] show ?thesis by auto
  next
    case False
    then have "ht_map h' bss' k' = Some x \<longleftrightarrow> ht_map h bss k' = Some x" for x
      unfolding ht_map_eq_Some_iff [OF rep'] ht_map_eq_Some_iff [OF rep]
      using same payload by metis
    with False show ?thesis
      by (cases "ht_map h bss k'"; cases "ht_map h' bss' k'") auto
  qed
qed

section \<open>\<^verbatim>\<open>ht_set\<close> implements the checked update\<close>

text \<open>A new node that the table does not know yet.\<close>

definition fresh_node :: "heap \<Rightarrow> addr list list \<Rightarrow> addr \<Rightarrow> bool" where
  "fresh_node h bss val \<longleftrightarrow>
     val \<notin> set (concat bss) \<and> node_ok h val \<and> data_at h val \<notin> data_at h ` set (concat bss)"

text \<open>Linking a fresh node at the end of its bucket.\<close>

lemma ht_rep_link:
  assumes rep: "ht_rep h t bss" and fresh: "fresh_node h bss val"
    and absent: "ht_map h bss (key_at h val) = None"
    and i: "i = hash_of t (key_at h val)"
    and h': "heap_ok h'" "key_at h' = key_at h" "data_at h' = data_at h" "entry_at h' = entry_at h"
      "node_ok h' = node_ok h"
    and len: "length (ht_table t') = length (ht_table t)" "ht_size t' = ht_size t"
    and linked: "chain (vals h') (ht_table t' ! i) (bss ! i @ [val])"
    and rest: "\<And>j. j < length bss \<Longrightarrow> j \<noteq> i \<Longrightarrow>
      chain (vals h') (ht_table t' ! j) (bss ! j) \<and> ht_table t' ! j = ht_table t ! j"
  shows "ht_rep h' t' (bss[i := bss ! i @ [val]])"
    "ht_map h' (bss[i := bss ! i @ [val]]) = (ht_map h bss)(key_at h val \<mapsto> entry_at h val)"
proof -
  let ?bss = "bss[i := bss ! i @ [val]]"
  note shape = ht_repD(2) [OF rep]
  have lt: "i < length bss"
    using ht_shapeD(2) [OF shape, of "key_at h val"] i by simp
  have mem: "set (concat ?bss) = insert val (set (concat bss))"
    using set_concat_snoc [OF lt] .
  have keys: "key_at h val \<notin> key_at h ` set (concat bss)"
    using absent by (auto simp: ht_map_None_iff simp del: set_concat)
  have hash: "hash_of t' = hash_of t"
    using len(2) by (simp add: hash_of_def fun_eq_iff)
  have "chain (vals h') (ht_table t' ! j) (?bss ! j)
      \<and> (\<forall>a \<in> set (?bss ! j). hash_of t' (key_at h' a) = j)" if "j < length bss" for j
    using that lt linked rest [OF that] shape i hash h'(2)
    by (cases "j = i") (auto simp: ht_shape_def)
  then have "ht_shape h' t' ?bss"
    using shape len by (simp add: ht_shape_def)
  moreover have "distinct (map (key_at h') (concat ?bss))"
    unfolding h'(2) distinct_map_concat_snoc [OF lt] using keys ht_repD(4) [OF rep] by simp
  moreover have "\<forall>a \<in> set (concat ?bss). node_ok h' a"
    unfolding mem h'(5) using fresh ht_repD(6) [OF rep] by (simp add: fresh_node_def)
  moreover have "inj_on (data_at h') (set (concat ?bss))"
    unfolding mem h'(3) using fresh ht_repD(5) [OF rep] by (auto simp: fresh_node_def simp del: set_concat)
  ultimately show rep': "ht_rep h' t' ?bss"
    using h'(1) by (simp add: ht_rep_def)
  show "ht_map h' ?bss = (ht_map h bss)(key_at h val \<mapsto> entry_at h val)"
    by (rule ht_map_updI [OF rep rep', of val])
      (use keys in \<open>auto simp: mem h' simp del: set_concat\<close>)
qed


text \<open>
  What an operation on one table may touch: the nodes \<open>A\<close> and the data blocks \<open>D\<close>. Every other
  block of the heap is left as it is, and the nodes in \<open>A'\<close> own no data block outside \<open>D'\<close>.
\<close>

definition touches :: "addr set \<Rightarrow> addr set \<Rightarrow> heap \<Rightarrow> heap \<Rightarrow> bool" where
  "touches A D h h' \<longleftrightarrow>
     brk h' = brk h \<and> (\<forall>a. a \<notin> A \<longrightarrow> vals h' a = vals h a) \<and> (\<forall>d. d \<notin> D \<longrightarrow> blobs h' d = blobs h d)"

text \<open>The first statement of \<^verbatim>\<open>ht_set\<close> cuts the new node's link.\<close>

definition cut_next :: "addr \<Rightarrow> heap \<Rightarrow> heap" where
  "cut_next val h = h\<lparr>vals := (vals h)(val := map_option (\<lambda>v. v\<lparr>v_next := NULL\<rparr>) (vals h val))\<rparr>"

lemma cut_next:
  assumes rep: "ht_rep h t bss" and fresh: "fresh_node h bss val"
  shows "ht_rep (cut_next val h) t bss" "ht_map (cut_next val h) bss = ht_map h bss"
    "fresh_node (cut_next val h) bss val" "key_at (cut_next val h) = key_at h"
    "data_at (cut_next val h) = data_at h" "entry_at (cut_next val h) = entry_at h"
    "node_ok (cut_next val h) = node_ok h"
proof -
  from fresh obtain v where v: "vals h val = Some v" and out: "val \<notin> set (concat bss)"
    by (auto simp: fresh_node_def elim: node_okE)
  have cut: "cut_next val h = h\<lparr>vals := (vals h)(val \<mapsto> v\<lparr>v_next := NULL\<rparr>)\<rparr>"
    by (simp add: cut_next_def v)
  note same = upd_next [OF v, of NULL, folded cut]
  have ok: "heap_ok (cut_next val h)"
    using same(5) ht_repD(1) [OF rep] by simp
  show "ht_rep (cut_next val h) t bss" "ht_map (cut_next val h) bss = ht_map h bss"
    by (rule ht_rep_frame [OF rep ok]; use out in \<open>auto simp: cut_next_def\<close>)+
  show "fresh_node (cut_next val h) bss val"
    using fresh same by (simp add: fresh_node_def)
  show "key_at (cut_next val h) = key_at h" "data_at (cut_next val h) = data_at h"
    "entry_at (cut_next val h) = entry_at h" "node_ok (cut_next val h) = node_ok h"
    using same by auto
qed

text \<open>After it, the code looks for the key on the bucket's chain.\<close>

lemma ht_set_search:
  assumes rep: "ht_rep h t bss" and fresh: "fresh_node h bss val" and v: "vals h val = Some v"
  defines "h1 \<equiv> cut_next val h"
    and "as \<equiv> bss ! hash_of t (v_key v)"
  shows "ht_set val version h t =
    (case dropWhile (\<lambda>a. key_at h a \<noteq> v_key v) as of
       [] \<Rightarrow>
         (if as = [] then rok (h1, t\<lparr>ht_table := (ht_table t)[hash_of t (v_key v) := val]\<rparr>, True)
          else rbind (update_val (last as) (\<lambda>b. b\<lparr>v_next := val\<rparr>) h1) (\<lambda>h. rok (h, t, True)))
     | next # _ \<Rightarrow>
         rbind (load_val h1 next) (\<lambda>n. rbind (load_int h1 (v_data n)) (\<lambda>ver.
           if ver = version then
             rbind (free_blob (v_data n) h1) (\<lambda>h.
             rbind (update_val next (\<lambda>n. n\<lparr>v_data := v_data v, v_length := v_length v\<rparr>) h) (\<lambda>h.
             rbind (free_val val h) (\<lambda>h. rok (h, t, True))))
           else rok (h1, t, False))))"
proof -
  note rep1 = cut_next [OF rep fresh, folded h1_def]
  note shape = ht_shapeD [OF ht_repD(2) [OF rep1(1)], of "v_key v", folded as_def]
  have val0: "val \<noteq> NULL"
    using heap_ok_val [OF ht_repD(1) [OF rep] v] by simp
  have v1: "vals h1 val = Some (v\<lparr>v_next := NULL\<rparr>)"
    by (simp add: h1_def cut_next_def v)
  have upd: "update_val val (\<lambda>v. v\<lparr>v_next := NULL\<rparr>) h = rok h1"
    using v val0 by (simp add: update_val_ok h1_def cut_next_def)
  have chase: "chase h1 (v_key v) NULL (ht_table t ! hash_of t (v_key v)) =
      rok (last (NULL # takeWhile (\<lambda>a. key_at h a \<noteq> v_key v) as),
           case dropWhile (\<lambda>a. key_at h a \<noteq> v_key v) as of [] \<Rightarrow> NULL | a # _ \<Rightarrow> a)"
    using chase_chain [OF shape(4), of "v_key v" NULL] by (simp only: rep1(4))
  show ?thesis
  proof (cases "dropWhile (\<lambda>a. key_at h a \<noteq> v_key v) as")
    case Nil
    then have all: "takeWhile (\<lambda>a. key_at h a \<noteq> v_key v) as = as"
      by (metis append_Nil2 takeWhile_dropWhile_id)
    have chase': "chase h1 (v_key v) NULL (ht_table t ! hash_of t (v_key v)) = rok (last (NULL # as), NULL)"
      unfolding chase all Nil by simp
    have "last as \<noteq> NULL" if "as \<noteq> []"
      using chain_alloc [OF shape(4), of "last as"] that by simp
    then show ?thesis
      unfolding Nil using upd v1 val0 shape chase' by (simp add: ht_set_def load_val_ok)
  next
    case (Cons a rest)
    then have "a \<in> set as"
      by (metis list.set_intros(1) set_dropWhileD)
    then have "a \<noteq> NULL"
      using chain_alloc [OF shape(4)] by simp
    with Cons show ?thesis
      using upd v1 val0 shape chase by (simp add: ht_set_def load_val_ok cong: if_cong)
  qed
qed

lemma ht_set_absent:
  assumes rep: "ht_rep h t bss" and fresh: "fresh_node h bss val"
    and absent: "ht_map h bss (key_at h val) = None"
  shows "\<exists>h' t' bss'. ht_set val version h t = rok (h', t', True) \<and> ht_rep h' t' bss'
    \<and> ht_map h' bss' = (ht_map h bss)(key_at h val \<mapsto> entry_at h val)
    \<and> set (concat bss') = insert val (set (concat bss))
    \<and> touches (insert val (set (concat bss))) {} h h' \<and> data_at h' = data_at h"
proof -
  from fresh obtain v where v: "vals h val = Some v" and out: "val \<notin> set (concat bss)"
    by (auto simp: fresh_node_def elim: node_okE)
  define i where "i = hash_of t (v_key v)"
  define h1 where "h1 = cut_next val h"
  have key: "key_at h val = v_key v"
    using v by (simp add: mem_simps)
  note rep1 = cut_next [OF rep fresh, folded h1_def]
  note shape1 = ht_repD(2) [OF rep1(1)]
  have lt: "i < length bss" and chain_i: "chain (vals h1) (ht_table t ! i) (bss ! i)"
    using ht_shapeD(2,4) [OF shape1, of "v_key v"] by (auto simp: i_def)
  have ilen: "i < length (ht_table t)"
    using lt shape1 by (simp add: ht_shape_def)
  have val0: "val \<noteq> NULL"
    using heap_ok_val [OF ht_repD(1) [OF rep] v] by simp
  have v1: "vals h1 val = Some (v\<lparr>v_next := NULL\<rparr>)"
    by (simp add: h1_def cut_next_def v)
  have none: "dropWhile (\<lambda>a. key_at h a \<noteq> v_key v) (bss ! i) = []"
    using bucket_find [OF rep, of "v_key v"] absent key by (auto simp: i_def split: list.splits)
  have absent1: "ht_map h1 bss (key_at h1 val) = None"
    using absent rep1 by simp
  have out_i: "val \<notin> set (bss ! i)" and out_j: "j < length bss \<Longrightarrow> val \<notin> set (bss ! j)" for j
    using out lt by auto
  note search = ht_set_search [OF rep fresh v, folded h1_def i_def, of version, unfolded none]
  have mem: "set (concat (bss[i := bss ! i @ [val]])) = insert val (set (concat bss))"
    by (rule set_concat_snoc [OF lt])
  show ?thesis
  proof (cases "bss ! i = []")
    case True
    define t' where "t' = t\<lparr>ht_table := (ht_table t)[i := val]\<rparr>"
    have run: "ht_set val version h t = rok (h1, t', True)"
      using search True by (simp add: t'_def)
    have linked: "chain (vals h1) (ht_table t' ! i) (bss ! i @ [val])"
      using True v1 val0 ilen by (simp add: t'_def)
    have others: "chain (vals h1) (ht_table t' ! j) (bss ! j) \<and> ht_table t' ! j = ht_table t ! j"
      if "j < length bss" "j \<noteq> i" for j
      using shape1 that by (simp add: t'_def ht_shape_def)
    note link = ht_rep_link [OF rep1(1) rep1(3) absent1 _ ht_repD(1) [OF rep1(1)] refl refl refl refl
        _ _ linked others]
    have "ht_rep h1 t' (bss[i := bss ! i @ [val]])
        \<and> ht_map h1 (bss[i := bss ! i @ [val]]) = (ht_map h1 bss)(key_at h1 val \<mapsto> entry_at h1 val)"
      using link by (simp add: t'_def rep1(4) key i_def)
    moreover have "touches (insert val (set (concat bss))) {} h h1"
      by (simp add: touches_def h1_def cut_next_def)
    ultimately show ?thesis
      using run mem rep1(5) unfolding rep1(2,4,6) by blast
  next
    case False
    let ?b = "last (bss ! i)"
    from chain_alloc [OF chain_i, of ?b] False obtain w where w: "vals h1 ?b = Some w" and b0: "?b \<noteq> NULL"
      by auto
    define h2 where "h2 = h1\<lparr>vals := (vals h1)(?b \<mapsto> w\<lparr>v_next := val\<rparr>)\<rparr>"
    note same = upd_next [OF w, of val, folded h2_def]
    have run: "ht_set val version h t = rok (h2, t, True)"
      using search False w b0 by (simp add: update_val_ok h2_def)
    have dist: "distinct (bss ! i)"
      using ht_repD(3) [OF rep] lt by (auto simp: distinct_concat_iff)
    have linked: "chain (vals h2) (ht_table t ! i) (bss ! i @ [val])"
      using chain_snoc [OF chain_i False dist out_i val0 v1 _ w] by (simp add: h2_def)
    have bmem: "?b \<in> set (bss ! i)"
      using False by simp
    have others: "chain (vals h2) (ht_table t ! j) (bss ! j) \<and> ht_table t ! j = ht_table t ! j"
      if "j < length bss" "j \<noteq> i" for j
    proof -
      have "?b \<notin> set (bss ! j)"
        using nth_concat_disjoint [OF ht_repD(3) [OF rep] lt that(1)] that(2) bmem by blast
      then show ?thesis
        using shape1 that by (simp add: h2_def ht_shape_def)
    qed
    have "heap_ok h2"
      using same(5) ht_repD(1) [OF rep1(1)] by simp
    note link = ht_rep_link [OF rep1(1) rep1(3) absent1 _ this same(1-4) _ _ linked others]
    have "ht_rep h2 t (bss[i := bss ! i @ [val]])
        \<and> ht_map h2 (bss[i := bss ! i @ [val]]) = (ht_map h1 bss)(key_at h1 val \<mapsto> entry_at h1 val)"
      using link by (simp add: rep1(4) key i_def)
    moreover have "touches (insert val (set (concat bss))) {} h h2"
      using bmem lt by (auto simp: touches_def h2_def h1_def cut_next_def)
    moreover have "data_at h2 = data_at h"
      using same(2) rep1(5) by simp
    ultimately show ?thesis
      using run mem unfolding rep1(2,4,6) by blast
  qed
qed


text \<open>Moving the data of \<open>val\<close> into the node \<open>a\<close> that has its key, and freeing \<open>val\<close>.\<close>

definition move_data :: "addr \<Rightarrow> addr \<Rightarrow> heap \<Rightarrow> heap" where
  "move_data val a h =
     h\<lparr>blobs := (blobs h)(data_at h a := None),
       vals := ((vals h)(a := map_option (\<lambda>n. n\<lparr>v_data := data_at h val,
                  v_length := (case vals h val of None \<Rightarrow> 0 | Some v \<Rightarrow> v_length v)\<rparr>) (vals h a)))
               (val := None)\<rparr>"

lemma move_data:
  assumes rep: "ht_rep h t bss" and fresh: "fresh_node h bss val"
    and a: "a \<in> set (concat bss)" and key: "key_at h a = key_at h val"
  shows "ht_rep (move_data val a h) t bss"
    "ht_map (move_data val a h) bss = (ht_map h bss)(key_at h val \<mapsto> entry_at h val)"
proof -
  let ?h = "move_data val a h"
  from fresh obtain v bs where v: "vals h val = Some v" and bs: "blobs h (v_data v) = Some bs"
    and len: "4 \<le> unat (v_length v)" "unat (v_length v) \<le> length bs"
    by (auto simp: fresh_node_def elim: node_okE)
  from ht_repD(6) [OF rep a] obtain n where n: "vals h a = Some n"
    by (auto elim: node_okE)
  have aval: "a \<noteq> val"
    using a fresh by (auto simp: fresh_node_def)
  have dval: "data_at h val \<noteq> data_at h x" if "x \<in> set (concat bss)" for x
    using fresh that by (auto simp: fresh_node_def simp del: set_concat)
  have inj: "data_at h x \<noteq> data_at h a" if "x \<in> set (concat bss)" "x \<noteq> a" for x
    using ht_repD(5) [OF rep] that a by (auto dest: inj_onD simp del: set_concat)
  have xval: "x \<noteq> val" if "x \<in> set (concat bss)" for x
    using that fresh by (auto simp: fresh_node_def)
  have keys: "key_at ?h x = key_at h x" if "x \<in> set (concat bss)" for x
    using xval [OF that] n by (auto simp: key_at_def move_data_def)
  have data: "data_at ?h x = (if x = a then data_at h val else data_at h x)"
    if "x \<in> set (concat bss)" for x
    using xval [OF that] n by (auto simp: data_at_def move_data_def)
  have entry: "entry_at ?h x = (if x = a then entry_at h val else entry_at h x)"
    if "x \<in> set (concat bss)" for x
    using xval [OF that] n v bs dval [OF a] inj [OF that]
    by (auto simp: entry_at_def data_at_def move_data_def split: option.splits)
  have nodes: "node_ok ?h x" if "x \<in> set (concat bss)" for x
  proof (cases "x = a")
    case True
    then show ?thesis
      using n v bs len aval dval [OF a] by (auto simp: node_ok_def data_at_def move_data_def)
  next
    case False
    then show ?thesis
      using ht_repD(6) [OF rep that] xval [OF that] inj [OF that]
      by (auto simp: node_ok_def data_at_def move_data_def split: option.splits)
  qed
  have ok: "heap_ok ?h"
    using ht_repD(1) [OF rep] n by (auto simp: heap_ok_def move_data_def split: if_splits)
  have bucket: "x \<in> set (concat bss)" if "i < length bss" "x \<in> set (bss ! i)" for i x
    using that by auto
  have "chain (vals ?h) p (bss ! i) = chain (vals h) p (bss ! i)" if "i < length bss" for i p
    by (rule chain_cong) (use xval [OF bucket [OF that]] n in \<open>auto simp: move_data_def\<close>)
  then have "ht_shape ?h t bss"
    using ht_repD(2) [OF rep] keys [OF bucket] by (simp add: ht_shape_def)
  moreover have "distinct (map (key_at ?h) (concat bss))"
    using ht_repD(4) [OF rep] keys map_cong [OF refl, of "concat bss" "key_at ?h" "key_at h"] by metis
  moreover have "inj_on (data_at ?h) (set (concat bss))"
  proof (rule inj_onI)
    fix x y
    assume x: "x \<in> set (concat bss)" and y: "y \<in> set (concat bss)" and eq: "data_at ?h x = data_at ?h y"
    show "x = y"
      using data [OF x] data [OF y] dval [OF x] dval [OF y] eq inj_onD [OF ht_repD(5) [OF rep] _ x y]
      by (simp split: if_splits)
  qed
  ultimately show rep': "ht_rep ?h t bss"
    unfolding ht_rep_def using ok nodes by blast
  show "ht_map ?h bss = (ht_map h bss)(key_at h val \<mapsto> entry_at h val)"
    by (rule ht_map_updI [OF rep rep', of a])
      (use a key keys entry in \<open>auto simp del: set_concat\<close>)
qed

lemma ht_set_present:
  assumes rep: "ht_rep h t bss" and fresh: "fresh_node h bss val"
    and present: "ht_map h bss (key_at h val) = Some old"
  shows "\<exists>h'. ht_set val version h t = rok (h', t, read_int old = Some version) \<and> ht_rep h' t bss
    \<and> ht_map h' bss = (if read_int old = Some version
                       then (ht_map h bss)(key_at h val \<mapsto> entry_at h val) else ht_map h bss)
    \<and> touches (insert val (set (concat bss))) (data_at h ` set (concat bss)) h h'
    \<and> data_at h' ` set (concat bss) \<subseteq> insert (data_at h val) (data_at h ` set (concat bss))"
proof -
  from fresh obtain v bs where v: "vals h val = Some v" and bs: "blobs h (v_data v) = Some bs"
    and out: "val \<notin> set (concat bss)"
    by (auto simp: fresh_node_def elim: node_okE)
  have key: "key_at h val = v_key v"
    using v by (simp add: mem_simps)
  define h1 where "h1 = cut_next val h"
  note rep1 = cut_next [OF rep fresh, folded h1_def]
  note ok1 = ht_repD(1) [OF rep1(1)]
  have v1: "vals h1 val = Some (v\<lparr>v_next := NULL\<rparr>)"
    by (simp add: h1_def cut_next_def v)
  from bucket_find [OF rep, of "v_key v"] present key obtain a as where
    a: "dropWhile (\<lambda>a. key_at h a \<noteq> v_key v) (bss ! hash_of t (v_key v)) = a # as"
    and mem: "a \<in> set (concat bss)" and akey: "key_at h a = v_key v" and old: "old = entry_at h a"
    by (auto split: list.splits)
  from ht_repD(6) [OF rep1(1) mem] obtain n data where n: "vals h1 a = Some n"
    and data: "blobs h1 (v_data n) = Some data"
    and len: "4 \<le> unat (v_length n)" "unat (v_length n) \<le> length data"
    by (rule node_okE)
  have a0: "a \<noteq> NULL" and d0: "v_data n \<noteq> NULL" and aval: "a \<noteq> val" and val0: "val \<noteq> NULL"
    using heap_ok_val [OF ok1 n] heap_ok_blob [OF ok1 data] heap_ok_val [OF ok1 v1] mem out by auto
  have "read_int old = read_int data"
    using entry_at_node [OF n data] read_int_take [OF len(1)] old rep1(6) by simp
  moreover obtain w where w: "read_int data = Some w"
    using len read_int_None_iff [of data] by fastforce
  ultimately have old_w: "read_int old = Some w"
    by simp
  have load: "load_int h1 (v_data n) = rok w"
    using load_int_ok [OF data d0 w] .
  note search = ht_set_search [OF rep fresh v, folded h1_def, of version, unfolded a]
  show ?thesis
  proof (cases "w = version")
    case True
    have moved: "move_data val a h1 =
        h1\<lparr>blobs := (blobs h1)(v_data n := None),
           vals := ((vals h1)(a \<mapsto> n\<lparr>v_data := v_data v, v_length := v_length v\<rparr>))(val := None)\<rparr>"
      using n v1 by (simp add: move_data_def mem_simps)
    have run: "ht_set val version h t = rok (move_data val a h1, t, True)"
      unfolding moved using search True n data a0 d0 load v1 val0 aval
      by (simp add: load_val_ok free_blob_ok update_val_ok free_val_ok)
    have "key_at h1 a = key_at h1 val"
      using rep1(4) akey key by simp
    note move = move_data [OF rep1(1) rep1(3) mem this]
    have touch: "touches (insert val (set (concat bss))) (data_at h ` set (concat bss)) h (move_data val a h1)"
      using mem rep1(5) by (auto simp: touches_def move_data_def h1_def cut_next_def)
    have "data_at (move_data val a h1) x \<in> insert (data_at h val) (data_at h ` set (concat bss))"
      if "x \<in> set (concat bss)" for x
    proof (cases "x = a")
      case True
      then show ?thesis
        unfolding moved using aval by (simp add: data_at_def v)
    next
      case False
      have "data_at (move_data val a h1) x = data_at h1 x"
        unfolding moved using False that out by (auto simp: data_at_def)
      then show ?thesis
        using that rep1(5) by (simp del: set_concat)
    qed
    then show ?thesis
      using run move touch rep1(2,4,6) True old_w by auto
  next
    case False
    have "touches (insert val (set (concat bss))) (data_at h ` set (concat bss)) h h1"
      by (simp add: touches_def h1_def cut_next_def)
    moreover have "ht_set val version h t = rok (h1, t, False)"
      using search False n a0 load by (simp add: load_val_ok)
    ultimately show ?thesis
      using rep1(1,2,5) False old_w by auto
  qed
qed


text \<open>Both cases together, with what else of the heap changes.\<close>

lemma ht_set_spec:
  assumes rep: "ht_rep h t bss" and fresh: "fresh_node h bss val"
    and spec: "spec_put (ht_map h bss) (key_at h val) (entry_at h val) version = (m', ok)"
  shows "\<exists>h' t' bss'. ht_set val version h t = rok (h', t', ok) \<and> ht_rep h' t' bss' \<and> ht_map h' bss' = m'
    \<and> set (concat bss') \<subseteq> insert val (set (concat bss))
    \<and> touches (insert val (set (concat bss))) (data_at h ` set (concat bss)) h h'
    \<and> data_at h' ` set (concat bss') \<subseteq> insert (data_at h val) (data_at h ` set (concat bss))"
proof (cases "ht_map h bss (key_at h val)")
  case None
  from ht_set_absent [OF rep fresh None, of version] obtain h' t' bss' where
    run: "ht_set val version h t = rok (h', t', True)" "ht_rep h' t' bss'"
      "ht_map h' bss' = (ht_map h bss)(key_at h val \<mapsto> entry_at h val)"
    and mem: "set (concat bss') = insert val (set (concat bss))"
    and touch: "touches (insert val (set (concat bss))) {} h h'" and data: "data_at h' = data_at h"
    by blast
  have "touches (insert val (set (concat bss))) (data_at h ` set (concat bss)) h h'"
    using touch by (simp add: touches_def)
  moreover have "data_at h' ` set (concat bss') = insert (data_at h val) (data_at h ` set (concat bss))"
    by (simp only: data mem image_insert)
  moreover have "m' = (ht_map h bss)(key_at h val \<mapsto> entry_at h val)" "ok = True"
    using spec None by (simp_all add: spec_put_def)
  ultimately show ?thesis
    using run mem by blast
next
  case (Some old)
  then show ?thesis
    using ht_set_present [OF rep fresh Some, of version] spec
    by (auto simp: spec_put_def split: if_splits)
qed

lemma ht_get_touches:
  assumes "heap_ok h"
  shows "touches {brk h} {brk h + 1} (h\<lparr>brk := brk h + 2\<rparr>) (copy_heap g bs n h)"
    "heap_ok (copy_heap g bs n h)"
  using assms by (auto simp: touches_def copy_heap_def heap_ok_def)

lemma copy_heap_rep:
  assumes rep: "ht_rep h t bss"
  shows "ht_rep (copy_heap g bs n h) t bss" "ht_map (copy_heap g bs n h) bss = ht_map h bss"
proof -
  note ok = ht_repD(1) [OF rep]
  have old: "a \<noteq> brk h" "data_at h a \<noteq> brk h + 1" if a: "a \<in> set (concat bss)" for a
  proof -
    from ht_repD(6) [OF rep a] obtain v b where v: "vals h a = Some v" and b: "blobs h (v_data v) = Some b"
      by (rule node_okE)
    show "a \<noteq> brk h" "data_at h a \<noteq> brk h + 1"
      using heap_ok_val [OF ok v] heap_ok_blob [OF ok b] v by (auto simp: mem_simps)
  qed
  show "ht_rep (copy_heap g bs n h) t bss" "ht_map (copy_heap g bs n h) bss = ht_map h bss"
    by (rule ht_rep_frame [OF rep ht_get_touches(2) [OF ok]]; use old in \<open>simp add: copy_heap_def del: set_concat\<close>)+
qed

section \<open>The hash spreads the keys evenly\<close>

text \<open>The hash before the final mask: every step can be undone.\<close>

definition hash_mix :: "u32 \<Rightarrow> u32 \<Rightarrow> u32" where
  "hash_mix key seed =
     (let a = key XOR seed; b = NOT a + push_bit 15 a; c = b XOR drop_bit 12 b;
          d = c + push_bit 2 c; e = d XOR drop_bit 4 d; f = e * 2057
      in f XOR drop_bit 16 f)"

lemma get_hash_mix: "get_hash key seed = take_bit 30 (hash_mix key seed)"
proof -
  have "(0x3fffffff :: u32) = mask 30"
    by (simp add: mask_eq_exp_minus_1)
  then show ?thesis
    by (simp add: get_hash_def hash_mix_def Let_def take_bit_eq_mask)
qed

lemma word_xor_eq_0: "x XOR y = 0 \<longleftrightarrow> x = y" for x y :: u32
proof
  assume "x XOR y = 0"
  then have "(x XOR y) XOR y = y"
    by simp
  then show "x = y"
    by (simp add: xor.assoc)
qed simp

lemma xorshift_inj:
  fixes x y :: u32
  assumes "0 < n" "x XOR drop_bit n x = y XOR drop_bit n y"
  shows "x = y"
proof -
  have "(x XOR y) XOR drop_bit n (x XOR y) = (x XOR drop_bit n x) XOR (y XOR drop_bit n y)"
    by (simp add: drop_bit_xor ac_simps)
  also have "\<dots> = 0"
    using assms(2) by simp
  finally have shift: "x XOR y = drop_bit n (x XOR y)"
    by (simp only: word_xor_eq_0)
  have "unat (drop_bit n (x XOR y)) = unat (x XOR y) div 2 ^ n"
    unfolding unsigned_drop_bit_eq take_bit_nat_eq_self [OF unsigned_less] by (rule drop_bit_eq_div)
  then have "unat (x XOR y) div 2 ^ n = unat (x XOR y)"
    by (simp only: shift [symmetric])
  moreover have "unat (x XOR y) div 2 ^ n < unat (x XOR y)" if "0 < unat (x XOR y)"
    using that one_less_power [of "2::nat" n] assms(1) by (intro div_less_dividend) simp_all
  ultimately have "unat (x XOR y) = 0"
    by (metis gr0I less_irrefl)
  then have "x XOR y = 0"
    by (simp add: unat_eq_0)
  then show ?thesis
    by (simp only: word_xor_eq_0)
qed

lemma mult_unit_inj:
  fixes x y :: u32
  assumes "c * c' = 1" "x * c = y * c"
  shows "x = y"
proof -
  have "x = x * c * c'"
    using assms(1) by (simp add: mult.assoc)
  also have "\<dots> = y"
    using assms by (simp add: mult.assoc)
  finally show ?thesis .
qed

lemma hash_mix_inj: "hash_mix k seed = hash_mix k' seed \<Longrightarrow> k = k'"
proof -
  assume eq: "hash_mix k seed = hash_mix k' seed"
  define b where "b k = NOT (k XOR seed) + push_bit 15 (k XOR seed)" for k
  define c where "c k = b k XOR drop_bit 12 (b k)" for k
  define d where "d k = c k + push_bit 2 (c k)" for k
  define e where "e k = d k XOR drop_bit 4 (d k)" for k
  have mix: "hash_mix k seed = (e k * 2057) XOR drop_bit 16 (e k * 2057)" for k
    by (simp add: hash_mix_def e_def d_def c_def b_def Let_def)
  have "e k * 2057 = e k' * 2057"
    using eq xorshift_inj [of 16 "e k * 2057" "e k' * 2057"] by (simp add: mix)
  then have "e k = e k'"
    by (rule mult_unit_inj [of _ "0xC8DE0639", rotated]) simp
  then have "d k = d k'"
    unfolding e_def by (rule xorshift_inj [rotated]) simp
  then have "c k * 5 = c k' * 5"
    by (simp add: d_def push_bit_eq_mult algebra_simps)
  then have "c k = c k'"
    by (rule mult_unit_inj [of _ "0xCCCCCCCD", rotated]) simp
  then have "b k = b k'"
    unfolding c_def by (rule xorshift_inj [rotated]) simp
  then have "(k XOR seed) * 32767 = (k' XOR seed) * 32767"
    by (simp add: b_def push_bit_eq_mult not_eq_complement algebra_simps)
  then have "k XOR seed = k' XOR seed"
    by (rule mult_unit_inj [of _ "0xBFFF7FFF", rotated]) simp
  then show "k = k'"
    by (metis xor.assoc xor.right_neutral xor_self_eq)
qed


lemma word_bits_split:
  fixes x y :: u32
  assumes "take_bit n x = take_bit n y" "drop_bit n x = drop_bit n y"
  shows "x = y"
proof -
  have "x = push_bit n (drop_bit n x) + take_bit n x"
    by (simp only: bits_ident)
  also have "\<dots> = push_bit n (drop_bit n y) + take_bit n y"
    by (simp only: assms)
  finally show ?thesis
    by (simp only: bits_ident)
qed

section \<open>Properties\<close>

text \<open>
  C1. \<^verbatim>\<open>ht_set\<close> on a well-formed table with a freshly allocated node never faults, always
  returns, keeps the table well formed, and does to the map the table stands for what the
  versioned update does: insert when the key is new, replace when the version the caller read is
  still the stored one, and change nothing and return false otherwise. Outside the table's own
  nodes and data blocks and the new node, the heap is unchanged.
\<close>

theorem ht_set_refines:
  assumes "ht_rep h t bss" and "fresh_node h bss val"
    and "spec_put (ht_map h bss) (key_at h val) (entry_at h val) version = (m', ok)"
  shows "\<exists>h' t' bss'. ht_set val version h t = rok (h', t', ok) \<and> ht_rep h' t' bss' \<and> ht_map h' bss' = m'
    \<and> touches (insert val (set (concat bss))) (data_at h ` set (concat bss)) h h'"
  using ht_set_spec [OF assms] by blast

definition wit_heap :: heap where
  "wit_heap =
     \<lparr>vals = [1 \<mapsto> \<lparr>v_key = 7, v_next = 0, v_data = 2, v_length = 4\<rparr>,
              3 \<mapsto> \<lparr>v_key = 7, v_next = 9, v_data = 4, v_length = 5\<rparr>],
      blobs = [2 \<mapsto> int_bytes 10, 4 \<mapsto> int_bytes 11 @ ''x''], brk = 5\<rparr>"

definition wit_table :: hashtable where
  "wit_table = \<lparr>ht_size = 1, ht_table = [1]\<rparr>"

lemma wit_table_rep: "ht_rep wit_heap wit_table [[1]]"
  by (auto simp: ht_rep_def heap_ok_def ht_shape_def wit_heap_def wit_table_def hash_of_def node_ok_def
      key_at_def unsigned_eq_0_iff)

theorem ht_set_refines_witness:
  "\<exists>h' t' bss'. ht_set 3 10 wit_heap wit_table = rok (h', t', True) \<and> ht_rep h' t' bss'
     \<and> ht_map h' bss' = [7 \<mapsto> int_bytes 11 @ ''x'']"
proof -
  have fresh: "fresh_node wit_heap [[1]] 3"
    by (simp add: fresh_node_def node_ok_def data_at_def wit_heap_def)
  have old: "read_int (int_bytes 10) = Some 10"
    using read_int_bytes [of 10 "[]"] by simp
  have "spec_put (ht_map wit_heap [[1]]) (key_at wit_heap 3) (entry_at wit_heap 3) 10
      = ([7 \<mapsto> int_bytes 11 @ ''x''], True)"
    using old by (simp add: spec_put_def ht_map_def key_at_def entry_at_def wit_heap_def fun_eq_iff)
  from ht_set_refines [OF wit_table_rep fresh this] show ?thesis
    by blast
qed

text \<open>
  C28. \<^verbatim>\<open>ht_get\<close> on a well-formed table never faults and always returns: the null pointer and
  an unchanged heap when the map has no entry for the key, and otherwise a new node over a new data
  block that holds a copy of the entry's bytes, with everything the table owns unchanged.
\<close>

theorem ht_get_refines:
  assumes "ht_rep h t bss"
  shows "\<exists>a h'. ht_get g k h t = rok (a, h') \<and> ht_rep h' t bss \<and> ht_map h' bss = ht_map h bss
    \<and> (case ht_map h bss k of
         None \<Rightarrow> a = NULL \<and> h' = h
       | Some bs \<Rightarrow> a \<noteq> NULL \<and> a \<notin> dom (vals h) \<and> data_at h' a \<notin> dom (blobs h) \<and> entry_at h' a = bs)"
proof (cases "ht_map h bss k")
  case None
  then show ?thesis
    using ht_get_None [OF assms None, of g] assms by simp
next
  case (Some bs)
  then obtain a where a: "a \<in> set (concat bss)" and bs: "entry_at h a = bs"
    using ht_map_eq_Some_iff [OF assms] by blast
  note ok = ht_repD(1) [OF assms]
  let ?h = "copy_heap g bs (of_nat (length bs)) h"
  from ht_repD(6) [OF assms a] obtain v data where v: "vals h a = Some v" "blobs h (v_data v) = Some data"
    "unat (v_length v) \<le> length data"
    by (rule node_okE)
  then have "length bs = unat (v_length v)"
    using bs entry_at_node [OF v(1,2)] by auto
  then have "entry_at ?h (brk h) = bs"
    by (simp add: entry_at_def copy_heap_def)
  moreover have "brk h \<noteq> NULL" "brk h \<notin> dom (vals h)" "data_at ?h (brk h) \<notin> dom (blobs h)"
    using ok by (auto simp: heap_ok_def data_at_def copy_heap_def)
  ultimately show ?thesis
    using ht_get_Some [OF assms Some, of g] copy_heap_rep [OF assms] Some
    by (intro exI [of _ "brk h"] exI [of _ ?h]) simp
qed

theorem ht_get_refines_witness:
  "\<exists>a h'. ht_get \<lparr>v_key = 1, v_next = 2, v_data = 3, v_length = 4\<rparr> 7 wit_heap wit_table = rok (a, h')
     \<and> entry_at h' a = int_bytes 10"
proof -
  have "ht_map wit_heap [[1]] 7 = Some (int_bytes 10)"
    by (simp add: ht_map_def key_at_def entry_at_def wit_heap_def)
  then show ?thesis
    using ht_get_refines [OF wit_table_rep, of "\<lparr>v_key = 1, v_next = 2, v_data = 3, v_length = 4\<rparr>" 7]
    by auto
qed

text \<open>
  A new table is well formed and empty: with any heap in which blocks are live, every lookup in
  the table that the constructor makes returns the null pointer.
\<close>

theorem new_database_empty:
  assumes "heap_ok h"
  shows "ht_rep h new_database (replicate 1000000 []) \<and> ht_get g k h new_database = rok (NULL, h)"
proof -
  have size: "unat (1000 * 1000 :: u32) = 1000000"
    by simp
  have none: "set (concat (replicate n [])) = {}" for n
    by (induction n) auto
  have rep: "ht_rep h new_database (replicate 1000000 [])"
    using assms none [of 1000000]
    by (auto simp: ht_rep_def ht_shape_def new_database_def hashtable_init_def size simp del: set_concat)
  moreover have "ht_map h (replicate 1000000 []) k = None"
    unfolding ht_map_None_iff none by simp
  ultimately show ?thesis
    using ht_get_None by blast
qed

text \<open>
  The integer hash loses only the two bits its final mask drops: whatever the seed, at most
  four of the 2^32 keys share a hash value.
\<close>

theorem get_hash_preimage: "card {k. get_hash k seed = v} \<le> 4"
proof -
  let ?S = "{k. get_hash k seed = v}"
  let ?f = "\<lambda>k. unat (drop_bit 30 (hash_mix k seed))"
  have "inj_on ?f ?S"
  proof (rule inj_onI)
    fix x y
    assume x: "x \<in> ?S" and y: "y \<in> ?S" and eq: "?f x = ?f y"
    have "take_bit 30 (hash_mix x seed) = take_bit 30 (hash_mix y seed)"
      using x y by (simp add: get_hash_mix)
    moreover have "drop_bit 30 (hash_mix x seed) = drop_bit 30 (hash_mix y seed)"
      using eq by (rule unsigned_word_eqI)
    ultimately have "hash_mix x seed = hash_mix y seed"
      by (rule word_bits_split)
    then show "x = y"
      by (rule hash_mix_inj)
  qed
  moreover have "?f ` ?S \<subseteq> {..<4}"
  proof
    fix n
    assume "n \<in> ?f ` ?S"
    then obtain k where n: "n = ?f k" by blast
    have "unat (drop_bit 30 (hash_mix k seed)) = unat (hash_mix k seed) div 2 ^ 30"
      unfolding unsigned_drop_bit_eq take_bit_nat_eq_self [OF unsigned_less] by (rule drop_bit_eq_div)
    moreover have "unat (hash_mix k seed) < 2 ^ 32"
      using unsigned_less [of "hash_mix k seed"] by simp
    ultimately show "n \<in> {..<4}"
      using n by simp
  qed
  ultimately have "card ?S \<le> card {..<4::nat}"
    by (meson card_inj_on_le finite_lessThan)
  then show ?thesis
    by simp
qed

end
