(* ===== verification/Db_Api.thy ===== *)
theory Db_Api
  imports Hash_Table
begin

text \<open>
  The databases of \<^verbatim>\<open>include/db.hh\<close> (\<^verbatim>\<open>db_map\<close>, \<^verbatim>\<open>get_db\<close>, \<^verbatim>\<open>create_db\<close>) and the bindings through
  which the JavaScript services reach them (\<^verbatim>\<open>DBGet\<close>, \<^verbatim>\<open>DBSet\<close>, \<^verbatim>\<open>DBDel\<close>, \<^verbatim>\<open>GetHashTable\<close>, \<^verbatim>\<open>NewDB\<close>
  of \<^verbatim>\<open>req_server.cc\<close>). All databases live in one heap; \<open>dbs_rep\<close> says that each is well
  formed and that no two share a node or a data block. The interface \<open>versioned_store\<close> states
  what the services rely on, and is proved here of the bindings.
\<close>

section \<open>State and operations\<close>

text \<open>
  \<^verbatim>\<open>db_map\<close> maps a name to a \<^verbatim>\<open>database*\<close>. Every pointer comes from one \<^verbatim>\<open>new database\<close> under one
  name, so a name determines its table. A name that is not there gives the null pointer.
\<close>

record dbs =
  dheap :: heap
  db_map :: "string \<rightharpoonup> hashtable"

definition get_db :: "dbs \<Rightarrow> string \<Rightarrow> hashtable option" where
  "get_db s name = db_map s name"

definition create_db :: "string \<Rightarrow> dbs \<Rightarrow> dbs \<times> bool" where
  "create_db name s = (s\<lparr>db_map := (db_map s)(name \<mapsto> new_database)\<rparr>, True)"

text \<open>
  The key argument: a string is hashed with \<^verbatim>\<open>std::hash<std::string>\<close> (the argument
  \<open>hasher\<close>), reduced modulo the greatest \<^verbatim>\<open>uint32_t\<close>, and cast to \<^verbatim>\<open>int\<close> and back; anything
  else is what V8's \<^verbatim>\<open>Uint32Value\<close> gives.
\<close>

datatype js_key = Key_string string | Key_uint u32

definition db_key :: "(string \<Rightarrow> u64) \<Rightarrow> js_key \<Rightarrow> u32" where
  "db_key hasher k =
     (case k of
        Key_string str \<Rightarrow> (let hashed = hasher str in ucast (hashed mod 0xFFFFFFFF))
      | Key_uint n \<Rightarrow> n)"

text \<open>An \<^verbatim>\<open>ArrayBuffer\<close>: its backing store's address and length.\<close>

record js_buffer =
  buf_data :: addr
  buf_len :: u64

text \<open>
  \<^verbatim>\<open>db_get\<close>: the buffer is built over the copy that \<^verbatim>\<open>ht_get\<close> made, whose node is freed; the data
  block stays with the buffer. \<open>g\<close> is what \<^verbatim>\<open>malloc\<close> leaves in a new node.
\<close>

definition db_get ::
  "(string \<Rightarrow> u64) \<Rightarrow> db_val \<Rightarrow> string \<Rightarrow> js_key \<Rightarrow> dbs \<Rightarrow> (js_buffer \<times> dbs) res" where
  "db_get hasher g name k s =
     (case get_db s name of
        None \<Rightarrow> rfail Null_deref
      | Some db \<Rightarrow>
          rbind (ht_get g (db_key hasher k) (dheap s) db) (\<lambda>(val, h).
          let (val, h) =
            (if val = NULL then malloc_val (g\<lparr>v_data := NULL, v_length := 0\<rparr>) h else (val, h)) in
          rbind (load_val h val) (\<lambda>v.
          rbind (free_val val h) (\<lambda>h.
            rok (\<lparr>buf_data = v_data v, buf_len = ucast (v_length v)\<rparr>, s\<lparr>dheap := h\<rparr>)))))"

text \<open>
  \<^verbatim>\<open>db_set\<close>: a new node over a new data block that holds a random version \<open>r\<close> followed by the
  content; the content's own block is freed. The result is \<^verbatim>\<open>"ok"\<close> or \<^verbatim>\<open>"abort"\<close>.
\<close>

definition db_set ::
  "(string \<Rightarrow> u64) \<Rightarrow> db_val \<Rightarrow> u32 \<Rightarrow> string \<Rightarrow> js_key \<Rightarrow> js_buffer \<Rightarrow> u32 \<Rightarrow> dbs \<Rightarrow> (dbs \<times> string) res" where
  "db_set hasher g r name k content version s =
     (let key = db_key hasher k;
          (val, h) = malloc_val g (dheap s) in
      rbind (read_bytes h (buf_data content) (unat (buf_len content))) (\<lambda>bs.
      let (tmp, h) = malloc_blob (int_bytes r @ bs) h in
      rbind (update_val val (\<lambda>v. v\<lparr>v_data := tmp, v_length := ucast (buf_len content + 4), v_key := key\<rparr>) h) (\<lambda>h.
      rbind (free_blob (buf_data content) h) (\<lambda>h.
        case get_db s name of
          None \<Rightarrow> rfail Null_deref
        | Some db \<Rightarrow>
            rbind (ht_set val version h db) (\<lambda>(h, db, set_ok).
              rok (s\<lparr>dheap := h, db_map := (db_map s)(name \<mapsto> db)\<rparr>,
                   if set_ok then ''ok'' else ''abort''))))))"

text \<open>\<^verbatim>\<open>db_del\<close> has an empty body.\<close>

definition db_del :: "dbs \<Rightarrow> dbs" where
  "db_del s = s"

text \<open>
  \<^verbatim>\<open>get_hash_table\<close> hands the array of bucket pointers itself to JavaScript, with the length
  fixed to one mebibyte.
\<close>

definition get_hash_table :: "string \<Rightarrow> dbs \<Rightarrow> (addr list \<times> nat) res" where
  "get_hash_table name s =
     (case get_db s name of
        None \<Rightarrow> rfail Null_deref
      | Some db \<Rightarrow> rok (get_table_direct db, 1024 * 1024))"

definition new_database_binding :: "string \<Rightarrow> dbs \<Rightarrow> dbs \<times> bool" where
  "new_database_binding name s = create_db name s"

section \<open>The invariant over all databases\<close>

abbreviation nodes_of :: "addr list list \<Rightarrow> addr set" where
  "nodes_of bss \<equiv> set (concat bss)"

definition dbs_rep :: "dbs \<Rightarrow> (string \<Rightarrow> addr list list) \<Rightarrow> bool" where
  "dbs_rep s R \<longleftrightarrow>
     heap_ok (dheap s)
     \<and> (\<forall>n t. db_map s n = Some t \<longrightarrow> ht_rep (dheap s) t (R n))
     \<and> (\<forall>n m. n \<in> dom (db_map s) \<longrightarrow> m \<in> dom (db_map s) \<longrightarrow> n \<noteq> m \<longrightarrow>
          nodes_of (R n) \<inter> nodes_of (R m) = {}
          \<and> data_at (dheap s) ` nodes_of (R n) \<inter> data_at (dheap s) ` nodes_of (R m) = {})"

text \<open>A buffer that no database owns: where its content may be read and freed.\<close>

definition buffer_ok :: "dbs \<Rightarrow> (string \<Rightarrow> addr list list) \<Rightarrow> js_buffer \<Rightarrow> bool" where
  "buffer_ok s R c \<longleftrightarrow>
     (\<exists>bs. blobs (dheap s) (buf_data c) = Some bs \<and> length bs = unat (buf_len c))
     \<and> (\<forall>n \<in> dom (db_map s). buf_data c \<notin> data_at (dheap s) ` nodes_of (R n))
     \<and> unat (buf_len c) + 4 < 2 ^ 32"

lemma dbs_repD:
  assumes "dbs_rep s R"
  shows "heap_ok (dheap s)" "db_map s n = Some t \<Longrightarrow> ht_rep (dheap s) t (R n)"
  using assms by (auto simp: dbs_rep_def)

lemma dbs_rep_disjoint:
  assumes "dbs_rep s R" "db_map s n = Some t" "db_map s m = Some u" "n \<noteq> m"
  shows "nodes_of (R n) \<inter> nodes_of (R m) = {}"
    "data_at (dheap s) ` nodes_of (R n) \<inter> data_at (dheap s) ` nodes_of (R m) = {}"
  using assms unfolding dbs_rep_def by blast+

lemma node_live:
  assumes "ht_rep h t bss" "a \<in> nodes_of bss"
  shows "a < brk h" "data_at h a < brk h" "blobs h (data_at h a) \<noteq> None"
proof -
  from ht_repD(6) [OF assms] obtain v bs where v: "vals h a = Some v" and bs: "blobs h (v_data v) = Some bs"
    by (rule node_okE)
  show "a < brk h" "data_at h a < brk h" "blobs h (data_at h a) \<noteq> None"
    using heap_ok_val [OF ht_repD(1) [OF assms(1)] v] heap_ok_blob [OF ht_repD(1) [OF assms(1)] bs] v bs
    by (simp_all add: mem_simps)
qed

lemma fresh_not_owned:
  assumes "ht_rep h t bss" "brk h \<le> n"
  shows "n \<notin> nodes_of bss" "n \<notin> data_at h ` nodes_of bss"
proof -
  show "n \<notin> nodes_of bss"
    using node_live(1) [OF assms(1)] assms(2) not_le by blast
  show "n \<notin> data_at h ` nodes_of bss"
  proof
    assume "n \<in> data_at h ` nodes_of bss"
    then obtain a where "a \<in> nodes_of bss" "n = data_at h a"
      by (rule imageE)
    with node_live(2) [OF assms(1)] assms(2) show False
      using not_le by blast
  qed
qed

text \<open>
  The heap of \<^verbatim>\<open>db_set\<close> when it calls \<^verbatim>\<open>ht_set\<close>: a new node and a new data block, and the
  content's block gone.
\<close>

definition set_heap :: "db_val \<Rightarrow> u32 \<Rightarrow> string \<Rightarrow> js_buffer \<Rightarrow> heap \<Rightarrow> heap" where
  "set_heap g key bs c h =
     h\<lparr>brk := brk h + 2,
       vals := (vals h)(brk h \<mapsto> g\<lparr>v_data := brk h + 1, v_length := ucast (buf_len c + 4), v_key := key\<rparr>),
       blobs := ((blobs h)(brk h + 1 \<mapsto> bs))(buf_data c := None)\<rparr>"


lemma set_heap_ok:
  assumes "heap_ok h"
  shows "heap_ok (set_heap g key bs c h)"
  using assms by (fastforce simp: heap_ok_def set_heap_def split: if_splits)

lemma set_heap_table:
  assumes rep: "ht_rep h t bss" and c: "buf_data c \<notin> data_at h ` nodes_of bss"
  shows "ht_rep (set_heap g key bs c h) t bss" "ht_map (set_heap g key bs c h) bss = ht_map h bss"
    "a \<in> nodes_of bss \<Longrightarrow> data_at (set_heap g key bs c h) a = data_at h a"
proof -
  have old: "vals (set_heap g key bs c h) a = vals h a"
      "blobs (set_heap g key bs c h) (data_at h a) = blobs h (data_at h a)" if "a \<in> nodes_of bss" for a
  proof -
    have "data_at h a \<noteq> buf_data c"
      using c that by (metis imageI)
    then show "vals (set_heap g key bs c h) a = vals h a"
      "blobs (set_heap g key bs c h) (data_at h a) = blobs h (data_at h a)"
      using node_live [OF rep that] by (auto simp: set_heap_def)
  qed
  show "ht_rep (set_heap g key bs c h) t bss" "ht_map (set_heap g key bs c h) bss = ht_map h bss"
    by (rule ht_rep_frame [OF rep set_heap_ok [OF ht_repD(1) [OF rep]] old]; assumption)+
  show "a \<in> nodes_of bss \<Longrightarrow> data_at (set_heap g key bs c h) a = data_at h a"
    using old(1) by (simp add: data_at_def del: set_concat)
qed

lemma set_heap_fresh:
  assumes rep: "ht_rep h t bss" and c: "buf_data c \<notin> data_at h ` nodes_of bss" "buf_data c < brk h"
    and bs: "length bs = unat (buf_len c) + 4" "unat (buf_len c) + 4 < 2 ^ 32"
  shows "fresh_node (set_heap g key bs c h) bss (brk h)"
    "key_at (set_heap g key bs c h) (brk h) = key" "entry_at (set_heap g key bs c h) (brk h) = bs"
    "data_at (set_heap g key bs c h) (brk h) = brk h + 1"
proof -
  let ?h = "set_heap g key bs c h"
  have "unat (buf_len c + 4) = unat (buf_len c) + 4"
    using bs(2) by (simp add: unat_word_ariths)
  then have len: "unat (ucast (buf_len c + 4) :: u32) = length bs"
    using bs by (simp add: unsigned_ucast_eq take_bit_nat_eq_self)
  show data: "data_at ?h (brk h) = brk h + 1"
    by (simp add: data_at_def set_heap_def)
  show "key_at ?h (brk h) = key"
    by (simp add: key_at_def set_heap_def)
  show "entry_at ?h (brk h) = bs"
    using len c by (simp add: entry_at_def set_heap_def)
  have "node_ok ?h (brk h)"
    using len c bs by (simp add: node_ok_def set_heap_def)
  moreover have "brk h \<notin> nodes_of bss"
    using node_live(1) [OF rep] by blast
  moreover have "brk h + 1 \<notin> data_at ?h ` nodes_of bss"
    using node_live(2) [OF rep] set_heap_table(3) [OF rep c(1)] by force
  ultimately show "fresh_node ?h bss (brk h)"
    by (simp add: fresh_node_def data)
qed

text \<open>\<^verbatim>\<open>db_set\<close> reduces to \<^verbatim>\<open>ht_set\<close> on that heap.\<close>

lemma db_set_run:
  assumes ok: "heap_ok (dheap s)" and t: "db_map s name = Some t"
    and c: "blobs (dheap s) (buf_data c) = Some bs" "length bs = unat (buf_len c)"
  shows "db_set hasher g r name k c version s =
    rbind (ht_set (brk (dheap s)) version
             (set_heap g (db_key hasher k) (int_bytes r @ bs) c (dheap s)) t)
      (\<lambda>(h, db, set_ok). rok (s\<lparr>dheap := h, db_map := (db_map s)(name \<mapsto> db)\<rparr>,
                              if set_ok then ''ok'' else ''abort''))"
proof -
  let ?h = "dheap s"
  have c0: "buf_data c \<noteq> NULL" "buf_data c < brk ?h"
    using heap_ok_blob [OF ok c(1)] by auto
  have b0: "brk ?h \<noteq> NULL"
    using ok by (simp add: heap_ok_def)
  have read: "read_bytes (snd (malloc_val g ?h)) (buf_data c) (unat (buf_len c)) = rok bs"
    using c c0 by (auto simp: read_bytes_def load_blob_def malloc_val_def)
  show ?thesis
    using read c c0 b0 t
    by (simp add: db_set_def get_db_def malloc_val_def malloc_blob_def update_val_def load_val_def
        free_blob_def set_heap_def Let_def fun_upd_twist)
qed

text \<open>
  The effect of \<^verbatim>\<open>db_set\<close>: the versioned update of one key of one database; every other database
  is as before.
\<close>

lemma db_set_spec:
  assumes rep: "dbs_rep s R" and t: "db_map s name = Some t" and buf: "buffer_ok s R c"
    and bs: "blobs (dheap s) (buf_data c) = Some bs"
    and spec: "spec_put (ht_map (dheap s) (R name)) (db_key hasher k) (int_bytes r @ bs) version = (m', ok)"
  shows "\<exists>s' R'. db_set hasher g r name k c version s = rok (s', if ok then ''ok'' else ''abort'')
    \<and> dbs_rep s' R' \<and> dom (db_map s') = dom (db_map s) \<and> ht_map (dheap s') (R' name) = m'
    \<and> (\<forall>n. n \<noteq> name \<longrightarrow> n \<in> dom (db_map s) \<longrightarrow>
          db_map s' n = db_map s n \<and> ht_map (dheap s') (R' n) = ht_map (dheap s) (R n))"
proof -
  let ?h = "dheap s"
  let ?bss = "R name"
  let ?h1 = "set_heap g (db_key hasher k) (int_bytes r @ bs) c ?h"
  note ok = dbs_repD(1) [OF rep]
  note rep_t = dbs_repD(2) [OF rep t]
  have len: "length bs = unat (buf_len c)" and small: "unat (buf_len c) + 4 < 2 ^ 32"
    using buf bs by (auto simp: buffer_ok_def)
  have free_c: "buf_data c \<notin> data_at ?h ` nodes_of (R n)" if "db_map s n = Some u" for n u
    using buf that by (auto simp: buffer_ok_def simp del: set_concat)
  have c_lt: "buf_data c < brk ?h"
    using heap_ok_blob [OF ok bs] by simp
  note table = set_heap_table [where g = g and key = "db_key hasher k" and bs = "int_bytes r @ bs", OF rep_t free_c [OF t]]
  have "length (int_bytes r @ bs) = unat (buf_len c) + 4"
    using len by simp
  note fresh = set_heap_fresh [where g = g and key = "db_key hasher k" and bs = "int_bytes r @ bs", OF rep_t free_c [OF t] c_lt this small]
  obtain h' t' bss' where run: "ht_set (brk ?h) version ?h1 t = rok (h', t', ok)"
    and rep': "ht_rep h' t' bss'" and map': "ht_map h' bss' = m'"
    and nodes: "nodes_of bss' \<subseteq> insert (brk ?h) (nodes_of ?bss)"
    and touch: "touches (insert (brk ?h) (nodes_of ?bss)) (data_at ?h1 ` nodes_of ?bss) ?h1 h'"
    and data: "data_at h' ` nodes_of bss' \<subseteq> insert (data_at ?h1 (brk ?h)) (data_at ?h1 ` nodes_of ?bss)"
    using ht_set_spec [OF table(1) fresh(1), of version m' ok] spec
    unfolding table(2) fresh(2,3) by blast
  have data1: "data_at ?h1 ` nodes_of ?bss = data_at ?h ` nodes_of ?bss"
    by (rule image_cong [OF refl]) (rule table(3))
  let ?s = "s\<lparr>dheap := h', db_map := (db_map s)(name \<mapsto> t')\<rparr>"
  let ?R = "R(name := bss')"
  have other: "ht_rep h' u (R n) \<and> ht_map h' (R n) = ht_map ?h (R n)
      \<and> (\<forall>a \<in> nodes_of (R n). data_at h' a = data_at ?h a)"
    if u: "db_map s n = Some u" and n: "n \<noteq> name" for n u
  proof -
    note rep_u = dbs_repD(2) [OF rep u]
    note table_u = set_heap_table [where g = g and key = "db_key hasher k" and bs = "int_bytes r @ bs", OF rep_u free_c [OF u]]
    note disj = dbs_rep_disjoint [OF rep u t n]
    have vals: "vals h' a = vals ?h1 a" if "a \<in> nodes_of (R n)" for a
    proof -
      have "a \<notin> insert (brk ?h) (nodes_of ?bss)"
        using disj(1) node_live(1) [OF rep_u that] that by blast
      then show ?thesis
        using touch by (simp add: touches_def del: set_concat)
    qed
    have "data_at ?h1 a \<notin> data_at ?h1 ` nodes_of ?bss" if "a \<in> nodes_of (R n)" for a
      using disj(2) that table_u(3) [OF that] unfolding data1 by (auto simp del: set_concat)
    then have blobs: "blobs h' (data_at ?h1 a) = blobs ?h1 (data_at ?h1 a)" if "a \<in> nodes_of (R n)" for a
      using touch that by (simp add: touches_def del: set_concat)
    have "data_at h' a = data_at ?h a" if "a \<in> nodes_of (R n)" for a
      using vals [OF that] table_u(3) [OF that] by (simp add: data_at_def)
    moreover note ht_rep_frame [OF table_u(1) ht_repD(1) [OF rep'] vals blobs]
    ultimately show ?thesis
      using table_u(2) by simp
  qed
  have sep: "nodes_of bss' \<inter> nodes_of (R n) = {} \<and> data_at h' ` nodes_of bss' \<inter> data_at h' ` nodes_of (R n) = {}"
    if u: "db_map s n = Some u" and n: "n \<noteq> name" for n u
  proof -
    note rep_u = dbs_repD(2) [OF rep u]
    note disj = dbs_rep_disjoint [OF rep t u n [symmetric]]
    have same: "data_at h' ` nodes_of (R n) = data_at ?h ` nodes_of (R n)"
      by (rule image_cong [OF refl]) (use other [OF u n] in blast)
    have "brk ?h \<notin> nodes_of (R n)" "brk ?h + 1 \<notin> data_at ?h ` nodes_of (R n)"
      using fresh_not_owned [OF rep_u] by simp_all
    with sub_insert_disjoint [OF nodes disj(1)] sub_insert_disjoint [OF data [unfolded data1 fresh(4)] disj(2)]
    show ?thesis
      unfolding same by (intro conjI)
  qed
  have "dbs_rep ?s ?R"
    unfolding dbs_rep_def
  proof (intro conjI allI impI)
    show "heap_ok (dheap ?s)"
      using ht_repD(1) [OF rep'] by simp
    show "ht_rep (dheap ?s) u (?R n)" if "db_map ?s n = Some u" for n u
      using that rep' other [of n u] by (auto split: if_splits)
    show "nodes_of (?R n) \<inter> nodes_of (?R m) = {}"
      "data_at (dheap ?s) ` nodes_of (?R n) \<inter> data_at (dheap ?s) ` nodes_of (?R m) = {}"
      if nm: "n \<in> dom (db_map ?s)" "m \<in> dom (db_map ?s)" "n \<noteq> m" for n m
    proof -
      from nm(1,2) t obtain u w where u: "db_map s n = Some u" and w: "db_map s m = Some w"
        by (auto split: if_splits)
      consider "n = name" | "m = name" | "n \<noteq> name" "m \<noteq> name" by blast
      then have "nodes_of (?R n) \<inter> nodes_of (?R m) = {}
          \<and> data_at h' ` nodes_of (?R n) \<inter> data_at h' ` nodes_of (?R m) = {}"
      proof cases
        case 1
        with sep [OF w] nm(3) show ?thesis by (simp del: set_concat)
      next
        case 2
        with sep [OF u] nm(3) show ?thesis by (simp add: Int_commute del: set_concat)
      next
        case 3
        have "data_at h' ` nodes_of (R n) = data_at ?h ` nodes_of (R n)"
          "data_at h' ` nodes_of (R m) = data_at ?h ` nodes_of (R m)"
          by (rule image_cong [OF refl]; use other [OF u 3(1)] other [OF w 3(2)] in blast)+
        with dbs_rep_disjoint [OF rep u w nm(3)] 3 show ?thesis by (simp del: set_concat)
      qed
      then show "nodes_of (?R n) \<inter> nodes_of (?R m) = {}"
        "data_at (dheap ?s) ` nodes_of (?R n) \<inter> data_at (dheap ?s) ` nodes_of (?R m) = {}"
        by (simp_all del: set_concat)
    qed
  qed
  moreover have "db_set hasher g r name k c version s = rok (?s, if ok then ''ok'' else ''abort'')"
    unfolding db_set_run [where g = g and hasher = hasher and k = k and r = r and version = version,
        OF dbs_repD(1) [OF rep] t bs len] run by simp
  moreover have "dom (db_map ?s) = dom (db_map s)"
    using t by auto
  ultimately show ?thesis
    using map' other by (intro exI [of _ ?s] exI [of _ ?R]) auto
qed


section \<open>Operations that only add blocks\<close>

lemma dbs_frame:
  assumes rep: "dbs_rep s R" and ok: "heap_ok h'"
    and old: "\<And>a. a < brk (dheap s) \<Longrightarrow> vals h' a = vals (dheap s) a"
      "\<And>d. d < brk (dheap s) \<Longrightarrow> blobs h' d = blobs (dheap s) d"
  shows "dbs_rep (s\<lparr>dheap := h'\<rparr>) R"
    "n \<in> dom (db_map s) \<Longrightarrow> ht_map h' (R n) = ht_map (dheap s) (R n)"
    "n \<in> dom (db_map s) \<Longrightarrow> data_at h' ` nodes_of (R n) = data_at (dheap s) ` nodes_of (R n)"
proof -
  have table: "ht_rep h' t (R n)" "ht_map h' (R n) = ht_map (dheap s) (R n)"
    "data_at h' ` nodes_of (R n) = data_at (dheap s) ` nodes_of (R n)"
    if t: "db_map s n = Some t" for n t
  proof -
    note rep_t = dbs_repD(2) [OF rep t]
    note live = node_live [OF rep_t]
    show "ht_rep h' t (R n)" "ht_map h' (R n) = ht_map (dheap s) (R n)"
      by (rule ht_rep_frame [OF rep_t ok]; use old live in blast)+
    show "data_at h' ` nodes_of (R n) = data_at (dheap s) ` nodes_of (R n)"
      by (rule image_cong [OF refl]) (use old(1) live(1) in \<open>simp add: data_at_def del: set_concat\<close>)
  qed
  show "n \<in> dom (db_map s) \<Longrightarrow> ht_map h' (R n) = ht_map (dheap s) (R n)"
    "n \<in> dom (db_map s) \<Longrightarrow> data_at h' ` nodes_of (R n) = data_at (dheap s) ` nodes_of (R n)"
    using table by blast+
  show "dbs_rep (s\<lparr>dheap := h'\<rparr>) R"
    unfolding dbs_rep_def
  proof (intro conjI allI impI)
    fix n m
    assume nm: "n \<in> dom (db_map (s\<lparr>dheap := h'\<rparr>))" "m \<in> dom (db_map (s\<lparr>dheap := h'\<rparr>))" "n \<noteq> m"
    then obtain t u where t: "db_map s n = Some t" and u: "db_map s m = Some u"
      by auto
    show "nodes_of (R n) \<inter> nodes_of (R m) = {}"
      by (rule dbs_rep_disjoint(1) [OF rep t u nm(3)])
    show "data_at (dheap (s\<lparr>dheap := h'\<rparr>)) ` nodes_of (R n)
        \<inter> data_at (dheap (s\<lparr>dheap := h'\<rparr>)) ` nodes_of (R m) = {}"
      using dbs_rep_disjoint(2) [OF rep t u nm(3)] table(3) [OF t] table(3) [OF u] by simp
  qed (use ok table(1) in auto)
qed

text \<open>What \<^verbatim>\<open>db_get\<close> returns: a buffer of its own with a copy of the entry, or an empty one.\<close>

lemma db_get_spec:
  assumes rep: "dbs_rep s R" and t: "db_map s name = Some t"
  shows "\<exists>buf s'. db_get hasher g name k s = rok (buf, s') \<and> dbs_rep s' R \<and> db_map s' = db_map s
    \<and> (\<forall>n \<in> dom (db_map s). ht_map (dheap s') (R n) = ht_map (dheap s) (R n))
    \<and> (case ht_map (dheap s) (R name) (db_key hasher k) of
         None \<Rightarrow> buf = \<lparr>buf_data = NULL, buf_len = 0\<rparr> \<and> blobs (dheap s') = blobs (dheap s)
       | Some bs \<Rightarrow> blobs (dheap s') = (blobs (dheap s))(buf_data buf \<mapsto> bs)
           \<and> blobs (dheap s) (buf_data buf) = None
           \<and> unat (buf_len buf) = length bs
           \<and> (\<forall>n \<in> dom (db_map s). buf_data buf \<notin> data_at (dheap s') ` nodes_of (R n)))"
proof (cases "ht_map (dheap s) (R name) (db_key hasher k)")
  case None
  let ?h = "dheap s"
  let ?h' = "?h\<lparr>vals := (vals ?h)(brk ?h := None), brk := brk ?h + 1\<rparr>"
  note ok = dbs_repD(1) [OF rep]
  have ok': "heap_ok ?h'"
    using ok by (fastforce simp: heap_ok_def split: if_splits)
  have "db_get hasher g name k s = rok (\<lparr>buf_data = NULL, buf_len = 0\<rparr>, s\<lparr>dheap := ?h'\<rparr>)"
    using ht_get_None [OF dbs_repD(2) [OF rep t] None, of g] t heap_ok_fresh [OF ok]
    by (simp add: db_get_def get_db_def malloc_val_def load_val_def free_val_def)
  moreover have "dbs_rep (s\<lparr>dheap := ?h'\<rparr>) R"
    by (rule dbs_frame [OF rep ok']) auto
  moreover have "ht_map ?h' (R n) = ht_map ?h (R n)" if "n \<in> dom (db_map s)" for n
    by (rule dbs_frame(2) [OF rep ok' _ _ that]) auto
  ultimately show ?thesis
    using None by (intro exI [of _ "\<lparr>buf_data = NULL, buf_len = 0\<rparr>"] exI [of _ "s\<lparr>dheap := ?h'\<rparr>"]) simp
next
  case (Some bs)
  let ?h = "dheap s"
  let ?c = "copy_heap g bs (of_nat (length bs)) ?h"
  let ?h' = "?c\<lparr>vals := (vals ?c)(brk ?h := None)\<rparr>"
  let ?buf = "\<lparr>buf_data = brk ?h + 1, buf_len = ucast (of_nat (length bs) :: u32)\<rparr>"
  note ok = dbs_repD(1) [OF rep]
  note rep_t = dbs_repD(2) [OF rep t]
  obtain a where a: "a \<in> nodes_of (R name)" "entry_at ?h a = bs"
    using Some ht_map_eq_Some_iff [OF rep_t] by blast
  obtain v data where v: "vals ?h a = Some v" "blobs ?h (v_data v) = Some data" "unat (v_length v) \<le> length data"
    using ht_repD(6) [OF rep_t a(1)] by (rule node_okE)
  have len: "length bs = unat (v_length v)"
    using a(2) v entry_at_node [OF v(1,2)] by auto
  have ok': "heap_ok ?h'"
    using ht_get_touches(2) [OF ok, of g bs "of_nat (length bs)"] by (fastforce simp: heap_ok_def split: if_splits)
  have "db_get hasher g name k s = rok (?buf, s\<lparr>dheap := ?h'\<rparr>)"
    using ht_get_Some [OF rep_t Some, of g] t heap_ok_fresh [OF ok]
    by (simp add: db_get_def get_db_def load_val_def free_val_def copy_heap_def)
  moreover have rep': "dbs_rep (s\<lparr>dheap := ?h'\<rparr>) R"
    by (rule dbs_frame [OF rep ok']) (auto simp: copy_heap_def)
  moreover have "ht_map ?h' (R n) = ht_map ?h (R n)" if "n \<in> dom (db_map s)" for n
    by (rule dbs_frame(2) [OF rep ok' _ _ that]) (auto simp: copy_heap_def)
  moreover have "brk ?h + 1 \<notin> data_at ?h' ` nodes_of (R n)" if n: "n \<in> dom (db_map s)" for n
  proof -
    from n obtain u where u: "db_map s n = Some u" by auto
    have "data_at ?h' ` nodes_of (R n) = data_at ?h ` nodes_of (R n)"
      by (rule dbs_frame(3) [OF rep ok' _ _ n]) (auto simp: copy_heap_def)
    then show ?thesis
      using fresh_not_owned(2) [OF dbs_repD(2) [OF rep u] le_add1, of 1] by (simp only: not_False_eq_True)
  qed
  moreover have "blobs ?h (brk ?h + 1) = None"
    using ok by (auto simp: heap_ok_def)
  moreover have "unat (buf_len ?buf) = length bs"
    using len by simp
  ultimately show ?thesis
    using Some by (intro exI [of _ ?buf] exI [of _ "s\<lparr>dheap := ?h'\<rparr>"]) (simp add: copy_heap_def)
qed

lemma create_db_spec:
  assumes rep: "dbs_rep s R" and s': "create_db name s = (s', b)"
  shows "dbs_rep s' (R(name := replicate 1000000 []))" "b" "dheap s' = dheap s"
    "db_map s' = (db_map s)(name \<mapsto> new_database)"
proof -
  have none: "nodes_of (replicate n []) = {}" for n
    by (induction n) auto
  have s'_def: "s' = s\<lparr>db_map := (db_map s)(name \<mapsto> new_database)\<rparr>" and b: "b"
    using s' by (auto simp: create_db_def)
  show "b" "dheap s' = dheap s" "db_map s' = (db_map s)(name \<mapsto> new_database)"
    using b by (simp_all add: s'_def)
  have new: "ht_rep (dheap s) new_database (replicate 1000000 [])"
    using dbs_repD(1) [OF rep] none [of 1000000]
    by (auto simp: ht_rep_def ht_shape_def new_database_def hashtable_init_def simp del: set_concat)
  show "dbs_rep s' (R(name := replicate 1000000 []))"
    using rep new none [of 1000000] unfolding dbs_rep_def s'_def by (auto simp del: set_concat)
qed


section \<open>The versioned store the services rely on\<close>

text \<open>
  What a service assumes of the bindings: \<open>put\<close> presents the version \<open>v\<close> it read. It goes
  through when the key is new or \<open>v\<close> is still the stored version, and changes nothing otherwise.
\<close>

locale versioned_store =
  fixes inv :: "'s \<Rightarrow> bool"
    and has :: "'s \<Rightarrow> 'k \<Rightarrow> bool"
    and fits :: "'w \<Rightarrow> bool"
    and get :: "'s \<Rightarrow> 'k \<Rightarrow> 'b option"
    and put :: "'s \<Rightarrow> 'k \<Rightarrow> 'w \<Rightarrow> 'v \<Rightarrow> 's \<times> bool"
    and entry :: "'w \<Rightarrow> 'b"
    and ver :: "'b \<Rightarrow> 'v option"
  assumes put_keeps: "inv s \<Longrightarrow> has s k \<Longrightarrow> fits w \<Longrightarrow>
      inv (fst (put s k w v)) \<and> has (fst (put s k w v)) = has s"
    and put_current: "inv s \<Longrightarrow> has s k \<Longrightarrow> fits w \<Longrightarrow>
      (\<And>old. get s k = Some old \<Longrightarrow> ver old = Some v) \<Longrightarrow>
      snd (put s k w v) \<and> get (fst (put s k w v)) = (get s)(k \<mapsto> entry w)"
    and put_stale: "inv s \<Longrightarrow> has s k \<Longrightarrow> fits w \<Longrightarrow> get s k = Some old \<Longrightarrow> ver old \<noteq> Some v \<Longrightarrow>
      \<not> snd (put s k w v) \<and> get (fst (put s k w v)) = get s"
begin

lemma put_other:
  assumes "inv s" "has s k" "fits w" "k' \<noteq> k"
  shows "get (fst (put s k w v)) k' = get s k'"
proof (cases "\<forall>old. get s k = Some old \<longrightarrow> ver old = Some v")
  case True
  with put_current [OF assms(1-3), of v] assms(4) show ?thesis by auto
next
  case False
  with put_stale [OF assms(1-3), of _ v] show ?thesis by auto
qed

lemma run_keeps:
  "inv s \<Longrightarrow> \<forall>(k', w, v') \<in> set ops. has s k' \<and> fits w \<Longrightarrow>
     inv (fold (\<lambda>(k, w, v) s. fst (put s k w v)) ops s) \<and> has (fold (\<lambda>(k, w, v) s. fst (put s k w v)) ops s) = has s"
proof (induction ops arbitrary: s)
  case Nil
  then show ?case by simp
next
  case (Cons op ops)
  obtain k w v where op: "op = (k, w, v)" by (cases op)
  then have "inv (fst (put s k w v))" "has (fst (put s k w v)) = has s"
    using put_keeps [of s k w v] Cons.prems by auto
  then show ?case
    using Cons.IH [of "fst (put s k w v)"] Cons.prems(2) by (auto simp: op)
qed

text \<open>An entry changes only through a write that presents its version.\<close>

lemma run_unchanged:
  assumes "inv s" "get s k = Some b" "ver b = Some v"
    and "\<forall>(k', w, v') \<in> set ops. has s k' \<and> fits w \<and> (k' = k \<longrightarrow> v' \<noteq> v)"
  shows "get (fold (\<lambda>(k, w, v) s. fst (put s k w v)) ops s) k = Some b"
  using assms
proof (induction ops arbitrary: s)
  case Nil
  then show ?case by simp
next
  case (Cons op ops)
  obtain k' w v' where op: "op = (k', w, v')" by (cases op)
  let ?s = "fst (put s k' w v')"
  have h: "has s k'" "fits w" "k' = k \<longrightarrow> v' \<noteq> v"
    using Cons.prems(4) op by auto
  have keep: "inv ?s" "has ?s = has s"
    using put_keeps [OF Cons.prems(1) h(1,2)] by auto
  have "get ?s k = Some b"
  proof (cases "k' = k")
    case True
    with put_stale [OF Cons.prems(1) h(1,2), of b v'] Cons.prems(2,3) h(3) show ?thesis by auto
  next
    case False
    with put_other [OF Cons.prems(1) h(1,2), of k v'] Cons.prems(2) show ?thesis by simp
  qed
  then have "get (fold (\<lambda>(k, w, v) s. fst (put s k w v)) ops ?s) k = Some b"
    using Cons.prems(3,4) keep by (intro Cons.IH) auto
  then show ?case
    by (simp add: op)
qed

text \<open>Of the writers that read the same version, the first one wins.\<close>

lemma first_writer_wins:
  assumes "inv s" "get s k = Some b" "ver b = Some v" "has s k" "fits w"
    and "ver (entry w) = Some r" "r \<noteq> v"
    and "\<forall>(k', w', v') \<in> set ops. has s k' \<and> fits w' \<and> (k' = k \<longrightarrow> v' = v)"
  shows "snd (put s k w v)"
    "get (fold (\<lambda>(k, w, v) s. fst (put s k w v)) ops (fst (put s k w v))) k = Some (entry w)"
    "ops = ops1 @ (k, w', v') # ops2 \<Longrightarrow>
       \<not> snd (put (fold (\<lambda>(k, w, v) s. fst (put s k w v)) ops1 (fst (put s k w v))) k w' v')"
proof -
  let ?run = "fold (\<lambda>(k, w, v) s. fst (put s k w v))" and ?s = "fst (put s k w v)"
  have put: "snd (put s k w v)" "get ?s = (get s)(k \<mapsto> entry w)"
    using put_current [OF assms(1,4,5), of v] assms(2,3) by auto
  have keep: "inv ?s" "has ?s = has s"
    using put_keeps [OF assms(1,4,5), of v] by auto
  show "snd (put s k w v)" by (rule put)
  have entry: "get (?run os ?s) k = Some (entry w)" if "set os \<subseteq> set ops" for os
    by (rule run_unchanged [where v = r])
      (use that keep put(2) assms(6-8) in \<open>auto split: prod.splits\<close>)
  then show "get (?run ops ?s) k = Some (entry w)"
    by simp
  assume ops: "ops = ops1 @ (k, w', v') # ops2"
  have "\<forall>(k', w, v') \<in> set ops1. has ?s k' \<and> fits w"
    using assms(8) keep(2) ops by fastforce
  then have "inv (?run ops1 ?s)" "has (?run ops1 ?s) k" "fits w'" "v' = v"
    using run_keeps [OF keep(1), of ops1] keep(2) assms(8) ops by auto
  then show "\<not> snd (put (?run ops1 ?s) k w' v')"
    using put_stale [of "?run ops1 ?s" k w' "entry w" v'] entry [of ops1] assms(6,7) ops by auto
qed

end

text \<open>
  The bindings as such a store. \<open>stored\<close> is what a \<^verbatim>\<open>DBGet\<close> reads, \<open>db_write\<close> is a service that
  fills a new buffer and calls \<^verbatim>\<open>DBSet\<close>; \<open>r\<close> is the random version the binding draws.
\<close>

definition stored :: "dbs \<Rightarrow> string \<times> u32 \<Rightarrow> string option" where
  "stored s nk =
     (case db_map s (fst nk) of None \<Rightarrow> None
      | Some t \<Rightarrow>
          (case ht_get \<lparr>v_key = 0, v_next = NULL, v_data = NULL, v_length = 0\<rparr> (snd nk) (dheap s) t of
             Some (Inr (a, h)) \<Rightarrow> if a = NULL then None else Some (entry_at h a)
           | _ \<Rightarrow> None))"

definition db_write :: "dbs \<Rightarrow> string \<times> u32 \<Rightarrow> u32 \<times> string \<Rightarrow> u32 \<Rightarrow> dbs \<times> bool" where
  "db_write s nk w version =
     (let (c, h) = malloc_blob (snd w) (dheap s) in
      case db_set (\<lambda>_. 0) \<lparr>v_key = 0, v_next = NULL, v_data = NULL, v_length = 0\<rparr> (fst w) (fst nk)
             (Key_uint (snd nk)) \<lparr>buf_data = c, buf_len = of_nat (length (snd w))\<rparr> version (s\<lparr>dheap := h\<rparr>) of
        Some (Inr (s', st)) \<Rightarrow> (s', st = ''ok'')
      | _ \<Rightarrow> (s, False))"

definition store_inv :: "dbs \<Rightarrow> bool" where
  "store_inv s \<longleftrightarrow> (\<exists>R. dbs_rep s R)"

definition store_has :: "dbs \<Rightarrow> string \<times> u32 \<Rightarrow> bool" where
  "store_has s nk \<longleftrightarrow> fst nk \<in> dom (db_map s)"

definition write_fits :: "u32 \<times> string \<Rightarrow> bool" where
  "write_fits w \<longleftrightarrow> length (snd w) + 4 < 2 ^ 32"

definition write_bytes :: "u32 \<times> string \<Rightarrow> string" where
  "write_bytes w = int_bytes (fst w) @ snd w"

lemma stored_rep:
  assumes "dbs_rep s R"
  shows "stored s (n, k) = (if n \<in> dom (db_map s) then ht_map (dheap s) (R n) k else None)"
proof (cases "db_map s n")
  case None
  then show ?thesis by (auto simp: stored_def)
next
  case (Some t)
  note rep = dbs_repD(2) [OF assms Some]
  show ?thesis
  proof (cases "ht_map (dheap s) (R n) k")
    case None
    with Some ht_get_None [OF rep None] show ?thesis
      by (auto simp: stored_def rok_def)
  next
    case (Some bs)
    obtain a where a: "a \<in> nodes_of (R n)" "entry_at (dheap s) a = bs"
      using Some ht_map_eq_Some_iff [OF rep] by blast
    obtain v data where v: "vals (dheap s) a = Some v" "blobs (dheap s) (v_data v) = Some data"
      using ht_repD(6) [OF rep a(1)] by (rule node_okE)
    have "bs = take (unat (v_length v)) data"
      using a(2) entry_at_node [OF v] by simp
    then have "unat (of_nat (length bs) :: u32) = length bs"
      using unsigned_less [of "v_length v", where 'a = nat] by (simp add: unat_of_nat min_def)
    with Some \<open>db_map s n = Some t\<close> ht_get_Some [OF rep Some] heap_ok_fresh [OF ht_repD(1) [OF rep]]
    show ?thesis
      by (auto simp: stored_def rok_def entry_at_def copy_heap_def)
  qed
qed

lemma db_write_spec:
  assumes rep: "dbs_rep s R" and has: "store_has s (n, k)" and fits: "write_fits w"
    and spec: "spec_put (ht_map (dheap s) (R n)) k (write_bytes w) version = (m', ok)"
  shows "\<exists>s' R'. db_write s (n, k) w version = (s', ok) \<and> dbs_rep s' R' \<and> dom (db_map s') = dom (db_map s)
    \<and> ht_map (dheap s') (R' n) = m'
    \<and> (\<forall>x. x \<noteq> n \<longrightarrow> x \<in> dom (db_map s) \<longrightarrow> ht_map (dheap s') (R' x) = ht_map (dheap s) (R x))"
proof -
  let ?h = "dheap s"
  let ?h1 = "?h\<lparr>blobs := (blobs ?h)(brk ?h \<mapsto> snd w), brk := brk ?h + 1\<rparr>"
  let ?s1 = "s\<lparr>dheap := ?h1\<rparr>"
  let ?c = "\<lparr>buf_data = brk ?h, buf_len = of_nat (length (snd w))\<rparr> :: js_buffer"
  note ok = dbs_repD(1) [OF rep]
  have ok1: "heap_ok ?h1"
    using ok by (fastforce simp: heap_ok_def)
  have rep1: "dbs_rep ?s1 R"
    by (rule dbs_frame [OF rep ok1]) auto
  have map1: "ht_map ?h1 (R x) = ht_map ?h (R x)" if "x \<in> dom (db_map s)" for x
    by (rule dbs_frame(2) [OF rep ok1 _ _ that]) auto
  have data1: "data_at ?h1 ` nodes_of (R x) = data_at ?h ` nodes_of (R x)" if "x \<in> dom (db_map s)" for x
    by (rule dbs_frame(3) [OF rep ok1 _ _ that]) auto
  obtain t where t: "db_map s n = Some t"
    using has by (auto simp: store_has_def)
  have len: "unat (of_nat (length (snd w)) :: u64) = length (snd w)"
    using fits by (simp add: write_fits_def unat_of_nat)
  have owned: "buf_data ?c \<notin> data_at (dheap ?s1) ` nodes_of (R x)" if x: "x \<in> dom (db_map ?s1)" for x
  proof -
    from x obtain u where u: "db_map s x = Some u" by auto
    show ?thesis
      using data1 [of x] u fresh_not_owned(2) [OF dbs_repD(2) [OF rep u], of "brk ?h"] by (auto simp del: set_concat)
  qed
  have buf: "buffer_ok ?s1 R ?c"
    unfolding buffer_ok_def using owned len fits by (auto simp: write_fits_def simp del: set_concat)
  have bs: "blobs (dheap ?s1) (buf_data ?c) = Some (snd w)"
    by simp
  have spec1: "spec_put (ht_map (dheap ?s1) (R n)) (db_key (\<lambda>_. 0) (Key_uint k)) (int_bytes (fst w) @ snd w) version
      = (m', ok)"
    using spec map1 [of n] t by (simp add: db_key_def write_bytes_def domI)
  have t1: "db_map ?s1 n = Some t"
    using t by simp
  from db_set_spec [OF rep1 t1 buf bs spec1, of "\<lparr>v_key = 0, v_next = NULL, v_data = NULL, v_length = 0\<rparr>"]
  obtain s' R' where run: "db_set (\<lambda>_. 0) \<lparr>v_key = 0, v_next = NULL, v_data = NULL, v_length = 0\<rparr> (fst w) n
        (Key_uint k) ?c version ?s1 = rok (s', if ok then ''ok'' else ''abort'')"
    and rest: "dbs_rep s' R'" "dom (db_map s') = dom (db_map ?s1)" "ht_map (dheap s') (R' n) = m'"
      "\<And>x. x \<noteq> n \<Longrightarrow> x \<in> dom (db_map ?s1) \<Longrightarrow> ht_map (dheap s') (R' x) = ht_map (dheap ?s1) (R x)"
    by blast
  have "db_write s (n, k) w version = (s', ok)"
    using run by (simp add: db_write_def malloc_blob_def rok_def)
  moreover have "ht_map (dheap s') (R' x) = ht_map (dheap s) (R x)"
    if "x \<noteq> n" "x \<in> dom (db_map s)" for x
    using rest(4) [of x] map1 [of x] that by simp
  moreover have "dom (db_map s') = dom (db_map s)"
    using rest(2) by simp
  ultimately show ?thesis
    using rest(1,3) by blast
qed

interpretation dbstore: versioned_store store_inv store_has write_fits stored db_write write_bytes read_int
proof unfold_locales
  fix s nk w v
  assume inv: "store_inv s" and has: "store_has s nk" and fits: "write_fits w"
  obtain n k where nk: "nk = (n, k)" by (cases nk)
  from inv obtain R where R: "dbs_rep s R" by (auto simp: store_inv_def)
  obtain m' ok where spec: "spec_put (ht_map (dheap s) (R n)) k (write_bytes w) v = (m', ok)"
    by (cases "spec_put (ht_map (dheap s) (R n)) k (write_bytes w) v")
  from db_write_spec [OF R has [unfolded nk] fits spec] obtain s' R' where
    s': "db_write s (n, k) w v = (s', ok)" "dbs_rep s' R'" "dom (db_map s') = dom (db_map s)"
      "ht_map (dheap s') (R' n) = m'"
      "\<And>x. x \<noteq> n \<Longrightarrow> x \<in> dom (db_map s) \<Longrightarrow> ht_map (dheap s') (R' x) = ht_map (dheap s) (R x)"
    by blast
  have get: "stored s (x, y) = (if x \<in> dom (db_map s) then ht_map (dheap s) (R x) y else None)"
    "stored s' (x, y) = (if x \<in> dom (db_map s) then ht_map (dheap s') (R' x) y else None)" for x y
    using stored_rep [OF R] stored_rep [OF s'(2)] s'(3) by simp_all
  have n: "n \<in> dom (db_map s)"
    using has nk by (simp add: store_has_def)
  show "store_inv (fst (db_write s nk w v)) \<and> store_has (fst (db_write s nk w v)) = store_has s"
    using s'(1-3) nk by (auto simp: store_inv_def store_has_def fun_eq_iff)
  show "snd (db_write s nk w v) \<and> stored (fst (db_write s nk w v)) = (stored s)(nk \<mapsto> write_bytes w)"
    if cur: "\<And>old. stored s nk = Some old \<Longrightarrow> read_int old = Some v"
  proof -
    have "ok \<and> m' = (ht_map (dheap s) (R n))(k \<mapsto> write_bytes w)"
      using spec cur get(1) [of n k] n nk by (auto simp: spec_put_def split: option.splits if_splits)
    then have "stored s' (x, y) = ((stored s)(nk \<mapsto> write_bytes w)) (x, y)" for x y
      using s'(4,5) get n nk by (cases "x = n") auto
    with \<open>ok \<and> _\<close> show ?thesis
      using s'(1) nk by auto
  qed
  show "\<not> snd (db_write s nk w v) \<and> stored (fst (db_write s nk w v)) = stored s"
    if "stored s nk = Some old" "read_int old \<noteq> Some v" for old
  proof -
    have "\<not> ok \<and> m' = ht_map (dheap s) (R n)"
      using spec that get(1) [of n k] n nk by (auto simp: spec_put_def split: if_splits)
    then have "stored s' (x, y) = stored s (x, y)" for x y
      using s'(4,5) get n by (cases "x = n") auto
    with \<open>\<not> ok \<and> _\<close> show ?thesis
      using s'(1) nk by auto
  qed
qed


section \<open>Properties\<close>

text \<open>
  C2. \<^verbatim>\<open>DBSet\<close> on a database that exists, with a buffer no database owns: it never faults and
  always returns, it answers \<^verbatim>\<open>"ok"\<close> exactly when the versioned update of that key goes through and
  then stores the random version followed by the content, it keeps all databases well formed and
  every other database as it was.
\<close>

theorem db_set_refines:
  assumes "dbs_rep s R" and "db_map s name = Some t" and "buffer_ok s R c"
    and "blobs (dheap s) (buf_data c) = Some bs"
    and "spec_put (ht_map (dheap s) (R name)) (db_key hasher k) (int_bytes r @ bs) version = (m', ok)"
  shows "\<exists>s' R'. db_set hasher g r name k c version s = rok (s', if ok then ''ok'' else ''abort'')
    \<and> dbs_rep s' R' \<and> dom (db_map s') = dom (db_map s) \<and> ht_map (dheap s') (R' name) = m'
    \<and> (\<forall>n. n \<noteq> name \<longrightarrow> n \<in> dom (db_map s) \<longrightarrow>
          db_map s' n = db_map s n \<and> ht_map (dheap s') (R' n) = ht_map (dheap s) (R n))"
  by (rule db_set_spec [OF assms])

text \<open>Two databases with one bucket each: \<^verbatim>\<open>a.js\<close> holds the key 7, \<^verbatim>\<open>b.js\<close> is empty.\<close>

definition wit_dbs :: dbs where
  "wit_dbs =
     \<lparr>dheap = \<lparr>vals = [1 \<mapsto> \<lparr>v_key = 7, v_next = 0, v_data = 2, v_length = 4\<rparr>],
               blobs = [2 \<mapsto> int_bytes 10, 3 \<mapsto> ''xy''], brk = 4\<rparr>,
      db_map = [''a.js'' \<mapsto> \<lparr>ht_size = 1, ht_table = [1]\<rparr>, ''b.js'' \<mapsto> \<lparr>ht_size = 1, ht_table = [0]\<rparr>]\<rparr>"

definition wit_reps :: "string \<Rightarrow> addr list list" where
  "wit_reps n = (if n = ''a.js'' then [[1]] else [[]])"

definition wit_buffer :: js_buffer where
  "wit_buffer = \<lparr>buf_data = 3, buf_len = 2\<rparr>"

lemma wit_dbs_rep: "dbs_rep wit_dbs wit_reps"
  by (auto simp: dbs_rep_def wit_dbs_def wit_reps_def ht_rep_def heap_ok_def ht_shape_def hash_of_def
      node_ok_def key_at_def unsigned_eq_0_iff split: if_splits)

lemma wit_buffer_ok: "buffer_ok wit_dbs wit_reps wit_buffer"
  by (simp add: buffer_ok_def wit_dbs_def wit_reps_def wit_buffer_def data_at_def)

lemma wit_dbs_map: "ht_map (dheap wit_dbs) (wit_reps ''a.js'') = [7 \<mapsto> int_bytes 10]"
  by (simp add: ht_map_def key_at_def entry_at_def wit_dbs_def wit_reps_def fun_eq_iff)

lemma wit_dbs_sel:
  "db_map wit_dbs ''a.js'' = Some \<lparr>ht_size = 1, ht_table = [1]\<rparr>"
  "blobs (dheap wit_dbs) (buf_data wit_buffer) = Some ''xy''"
  "read_int (int_bytes 10) = Some 10"
  using read_int_bytes [of 10 "[]"] by (simp_all add: wit_dbs_def wit_buffer_def)

theorem db_set_refines_witness:
  "\<exists>s' R'. db_set (\<lambda>_. 0) \<lparr>v_key = 1, v_next = 2, v_data = 3, v_length = 4\<rparr> 11 ''a.js'' (Key_uint 7)
       wit_buffer 10 wit_dbs = rok (s', ''ok'')
     \<and> ht_map (dheap s') (R' ''a.js'') = [7 \<mapsto> int_bytes 11 @ ''xy'']"
proof -
  have "spec_put (ht_map (dheap wit_dbs) (wit_reps ''a.js'')) (db_key (\<lambda>_. 0) (Key_uint 7))
      (int_bytes 11 @ ''xy'') 10 = ([7 \<mapsto> int_bytes 11 @ ''xy''], True)"
    by (simp add: spec_put_def wit_dbs_map db_key_def wit_dbs_sel fun_eq_iff)
  from db_set_refines [OF wit_dbs_rep wit_dbs_sel(1) wit_buffer_ok wit_dbs_sel(2) this,
      of "\<lparr>v_key = 1, v_next = 2, v_data = 3, v_length = 4\<rparr>"]
  show ?thesis
    unfolding if_True by (elim exE conjE, intro exI conjI) assumption+
qed

text \<open>
  C29. \<^verbatim>\<open>DBGet\<close> on a database that exists never faults and always returns: an empty buffer over the
  null pointer when the key has no entry, and otherwise a buffer over a new block that no database
  owns, with a copy of the entry (its version first). The databases are as before.
\<close>

theorem db_get_refines:
  assumes "dbs_rep s R" and "db_map s name = Some t"
  shows "\<exists>buf s'. db_get hasher g name k s = rok (buf, s') \<and> dbs_rep s' R \<and> db_map s' = db_map s
    \<and> (\<forall>n \<in> dom (db_map s). ht_map (dheap s') (R n) = ht_map (dheap s) (R n))
    \<and> (case ht_map (dheap s) (R name) (db_key hasher k) of
         None \<Rightarrow> buf = \<lparr>buf_data = NULL, buf_len = 0\<rparr>
       | Some bs \<Rightarrow> blobs (dheap s') (buf_data buf) = Some bs \<and> unat (buf_len buf) = length bs
           \<and> blobs (dheap s) (buf_data buf) = None
           \<and> (\<forall>n \<in> dom (db_map s). buf_data buf \<notin> data_at (dheap s') ` nodes_of (R n)))"
proof (cases "ht_map (dheap s) (R name) (db_key hasher k)")
  case None
  then show ?thesis
    using db_get_spec [OF assms, of hasher g k] by (simp only: option.case) blast
next
  case (Some bs)
  then show ?thesis
    using db_get_spec [OF assms, of hasher g k] by (simp only: option.case) fastforce
qed

theorem db_get_refines_witness:
  "\<exists>buf s'. db_get (\<lambda>_. 0) \<lparr>v_key = 1, v_next = 2, v_data = 3, v_length = 4\<rparr> ''a.js'' (Key_uint 7) wit_dbs
       = rok (buf, s') \<and> blobs (dheap s') (buf_data buf) = Some (int_bytes 10) \<and> unat (buf_len buf) = 4"
  using db_get_refines [OF wit_dbs_rep wit_dbs_sel(1), of "\<lambda>_. 0"
      "\<lparr>v_key = 1, v_next = 2, v_data = 3, v_length = 4\<rparr>" "Key_uint 7"]
  by (auto simp: wit_dbs_map db_key_def)

text \<open>
  C30. Optimistic concurrency: of the services that read the same version of an entry, the first one
  to write it wins, when the version it draws differs from the one that was read. Its write is answered
  \<^verbatim>\<open>ok\<close>; in whatever interleaving of writes to any keys of any databases follows, as long as those to this key
  present the version that was read, every later write to the key is refused, and the entry stays the one
  the first writer stored.
\<close>

theorem first_db_writer_wins:
  assumes "store_inv s" and "stored s k = Some b" and "read_int b = Some v" and "store_has s k"
    and "write_fits w" and "fst w \<noteq> v"
    and "\<forall>(k', w', v') \<in> set ops. store_has s k' \<and> write_fits w' \<and> (k' = k \<longrightarrow> v' = v)"
  shows "snd (db_write s k w v)
    \<and> (\<forall>ops1 w' v' ops2. ops = ops1 @ (k, w', v') # ops2 \<longrightarrow>
        \<not> snd (db_write (fold (\<lambda>(k, w, v) s. fst (db_write s k w v)) ops1 (fst (db_write s k w v))) k w' v'))
    \<and> stored (fold (\<lambda>(k, w, v) s. fst (db_write s k w v)) ops (fst (db_write s k w v))) k = Some (write_bytes w)"
proof -
  have "read_int (write_bytes w) = Some (fst w)"
    by (simp add: write_bytes_def)
  note wins = dbstore.first_writer_wins [OF assms(1-5) this assms(6,7)]
  show ?thesis
    using wins(1,2) wins(3) by blast
qed

theorem first_db_writer_wins_witness:
  "snd (db_write wit_dbs (''a.js'', 7) (11, ''p'') 10)
   \<and> \<not> snd (db_write (fst (db_write (fst (db_write wit_dbs (''a.js'', 7) (11, ''p'') 10)) (''b.js'', 7) (3, ''z'') 10))
        (''a.js'', 7) (12, ''q'') 10)
   \<and> stored (fold (\<lambda>(k, w, v) s. fst (db_write s k w v))
        [((''b.js'', 7), (3, ''z''), 10), ((''a.js'', 7), (12, ''q''), 10)]
        (fst (db_write wit_dbs (''a.js'', 7) (11, ''p'') 10))) (''a.js'', 7) = Some (int_bytes 11 @ ''p'')"
proof -
  have inv: "store_inv wit_dbs"
    using wit_dbs_rep by (auto simp: store_inv_def)
  have old: "stored wit_dbs (''a.js'', 7) = Some (int_bytes 10)"
    using stored_rep [OF wit_dbs_rep, of "''a.js''" 7] wit_dbs_map wit_dbs_sel(1) by auto
  have has: "store_has wit_dbs (n, k)" if "n = ''a.js'' \<or> n = ''b.js''" for n k
    using that by (auto simp: store_has_def wit_dbs_def)
  let ?ops = "[((''b.js'', 7), (3, ''z''), 10), ((''a.js'', 7), (12, ''q''), 10)] :: ((string \<times> u32) \<times> (u32 \<times> string) \<times> u32) list"
  have "\<forall>(k', w', v') \<in> set ?ops. store_has wit_dbs k' \<and> write_fits w' \<and> (k' = (''a.js'', 7) \<longrightarrow> v' = 10)"
    using has by (simp add: write_fits_def)
  note wins = first_db_writer_wins [OF inv old wit_dbs_sel(3) has _ _ this, of "(11, ''p'')"]
  have ops: "?ops = [((''b.js'', 7), (3, ''z''), 10)] @ ((''a.js'', 7), (12, ''q''), 10) # []"
    by simp
  have w: "write_fits (11, ''p'')" "fst (11 :: u32, ''p'') \<noteq> 10"
    by (simp_all add: write_fits_def)
  from wins [OF _ w] have "\<forall>ops1 w' v' ops2. ?ops = ops1 @ ((''a.js'', 7), w', v') # ops2 \<longrightarrow>
      \<not> snd (db_write (fold (\<lambda>(k, w, v) s. fst (db_write s k w v)) ops1
        (fst (db_write wit_dbs (''a.js'', 7) (11, ''p'') 10))) (''a.js'', 7) w' v')"
    by blast
  from this [rule_format, OF ops] show ?thesis
    using wins [OF _ w] by (simp add: write_bytes_def)
qed

text \<open>
  A string key's cast through \<^verbatim>\<open>int\<close> loses nothing: the key is the string's hash modulo
  2^32 - 1, so the greatest \<^verbatim>\<open>uint32_t\<close> is never a string's key. The table compares these numbers
  and not the strings: two strings with the same number read and write one entry.
\<close>

lemma db_key_string:
  "unat (db_key hasher (Key_string str)) = unat (hasher str) mod (2 ^ 32 - 1)
   \<and> (unat (hasher str) mod (2 ^ 32 - 1) = unat (hasher str') mod (2 ^ 32 - 1) \<longrightarrow>
      db_get hasher g name (Key_string str) s = db_get hasher g name (Key_string str') s)"
proof -
  have key: "unat (db_key hasher (Key_string x)) = unat (hasher x) mod (2 ^ 32 - 1)" for x
  proof -
    have "unat (hasher x mod 0xFFFFFFFF) = unat (hasher x) mod (2 ^ 32 - 1)"
      by (simp add: unat_mod)
    moreover have "unat (hasher x) mod (2 ^ 32 - 1) < 2 ^ 32"
      by (rule order.strict_trans [OF mod_less_divisor]) auto
    ultimately show ?thesis
      by (simp add: db_key_def unsigned_ucast_eq take_bit_nat_eq_self)
  qed
  moreover
  have "db_key hasher (Key_string str) = db_key hasher (Key_string str')"
    if "unat (hasher str) mod (2 ^ 32 - 1) = unat (hasher str') mod (2 ^ 32 - 1)"
    using that by (simp only: word_unat_eq_iff key)
  then have "db_get hasher g name (Key_string str) s = db_get hasher g name (Key_string str') s"
    if "unat (hasher str) mod (2 ^ 32 - 1) = unat (hasher str') mod (2 ^ 32 - 1)"
    using that by (simp only: db_get_def)
  ultimately show ?thesis
    by blast
qed

text \<open>
  C33. \<^verbatim>\<open>DBSet\<close> frees the block of the buffer it is given, which the caller still holds: calling it a
  second time with the same (non-empty) buffer reads freed memory, whatever the key and the
  database.
\<close>

theorem db_set_buffer_once:
  assumes "dbs_rep s R" and "db_map s name = Some t" and "buffer_ok s R c" and "buf_len c \<noteq> 0"
    and "db_set hasher g r name k c version s = rok (s', st)"
  shows "db_set hasher g' r' name' k' c version' s' = rfail (Bad_address (buf_data c))"
proof -
  let ?h = "dheap s"
  obtain bs where bs: "blobs ?h (buf_data c) = Some bs" "length bs = unat (buf_len c)"
    and small: "unat (buf_len c) + 4 < 2 ^ 32"
    using assms(3) by (auto simp: buffer_ok_def)
  have free_c: "buf_data c \<notin> data_at ?h ` nodes_of (R name)"
    using assms(2,3) by (auto simp: buffer_ok_def simp del: set_concat)
  note rep_t = dbs_repD(2) [OF assms(1,2)]
  have c: "buf_data c \<noteq> NULL" "buf_data c < brk ?h"
    using heap_ok_blob [OF dbs_repD(1) [OF assms(1)] bs(1)] by auto
  let ?h1 = "set_heap g (db_key hasher k) (int_bytes r @ bs) c ?h"
  note table = set_heap_table [where g = g and key = "db_key hasher k" and bs = "int_bytes r @ bs", OF rep_t free_c]
  have "length (int_bytes r @ bs) = unat (buf_len c) + 4"
    using bs by simp
  note fresh = set_heap_fresh [where g = g and key = "db_key hasher k" and bs = "int_bytes r @ bs",
      OF rep_t free_c c(2) this small]
  obtain m' ok where spec: "spec_put (ht_map ?h1 (R name)) (key_at ?h1 (brk ?h)) (entry_at ?h1 (brk ?h)) version = (m', ok)"
    by (metis surj_pair)
  obtain h' t' where run: "ht_set (brk ?h) version ?h1 t = rok (h', t', ok)"
    and touch: "touches (insert (brk ?h) (nodes_of (R name))) (data_at ?h1 ` nodes_of (R name)) ?h1 h'"
    using ht_set_spec [OF table(1) fresh(1) spec] by blast
  have "data_at ?h1 ` nodes_of (R name) = data_at ?h ` nodes_of (R name)"
    by (rule image_cong [OF refl]) (rule table(3))
  then have "blobs h' (buf_data c) = blobs ?h1 (buf_data c)"
    using touch free_c by (simp add: touches_def)
  then have gone: "blobs h' (buf_data c) = None"
    by (simp add: set_heap_def)
  have "dheap s' = h'"
    using assms(5) run
    by (auto simp: db_set_run [OF dbs_repD(1) [OF assms(1)] assms(2) bs])
  then have "read_bytes (snd (malloc_val g' (dheap s'))) (buf_data c) (unat (buf_len c)) = rfail (Bad_address (buf_data c))"
    using gone c assms(4) by (simp add: read_bytes_def load_blob_def malloc_val_def unsigned_eq_0_iff)
  then show ?thesis
    by (simp add: db_set_def malloc_val_def Let_def)
qed

theorem db_set_buffer_once_witness:
  "\<exists>s' st. db_set (\<lambda>_. 0) \<lparr>v_key = 1, v_next = 2, v_data = 3, v_length = 4\<rparr> 11 ''a.js'' (Key_uint 7)
        wit_buffer 10 wit_dbs = rok (s', st)
     \<and> db_set (\<lambda>_. 0) \<lparr>v_key = 1, v_next = 2, v_data = 3, v_length = 4\<rparr> 12 ''b.js'' (Key_uint 8)
        wit_buffer 0 s' = rfail (Bad_address 3)"
proof -
  obtain m' ok where "spec_put (ht_map (dheap wit_dbs) (wit_reps ''a.js'')) (db_key (\<lambda>_. 0) (Key_uint 7))
      (int_bytes 11 @ ''xy'') 10 = (m', ok)"
    by (metis surj_pair)
  from db_set_spec [OF wit_dbs_rep wit_dbs_sel(1) wit_buffer_ok wit_dbs_sel(2) this,
      of "\<lparr>v_key = 1, v_next = 2, v_data = 3, v_length = 4\<rparr>"]
  obtain s' st where
    run: "db_set (\<lambda>_. 0) \<lparr>v_key = 1, v_next = 2, v_data = 3, v_length = 4\<rparr> 11 ''a.js'' (Key_uint 7)
        wit_buffer 10 wit_dbs = rok (s', st)"
    by (elim exE conjE)
  have len: "buf_len wit_buffer \<noteq> 0" and d: "buf_data wit_buffer = 3"
    by (simp_all add: wit_buffer_def)
  have "db_set (\<lambda>_. 0) \<lparr>v_key = 1, v_next = 2, v_data = 3, v_length = 4\<rparr> 12 ''b.js'' (Key_uint 8)
        wit_buffer 0 s' = rfail (Bad_address (buf_data wit_buffer))"
    by (rule db_set_buffer_once [OF wit_dbs_rep wit_dbs_sel(1) wit_buffer_ok len run])
  with run d show ?thesis
    by auto
qed

text \<open>
  \<^verbatim>\<open>create_db\<close> always succeeds and keeps every other database; under a name that is already
  taken it replaces the database by an empty one, so that every entry stored under it is lost.
\<close>

lemma create_db_replaces:
  assumes "store_inv s"
  shows "snd (create_db name s) \<and> store_inv (fst (create_db name s))
    \<and> stored (fst (create_db name s)) (name, k) = None
    \<and> (n \<noteq> name \<longrightarrow> stored (fst (create_db name s)) (n, k) = stored s (n, k))"
proof -
  obtain R where R: "dbs_rep s R"
    using assms by (auto simp: store_inv_def)
  obtain s' b where s': "create_db name s = (s', b)"
    by (cases "create_db name s")
  note spec = create_db_spec [OF R s']
  have none: "ht_map h (replicate i []) k = None" for h i
    by (simp add: ht_map_def)
  show ?thesis
    using spec stored_rep [OF spec(1)] stored_rep [OF R] none s'
    by (auto simp: store_inv_def)
qed

end
