(* ===== verification/Redis_Fsm.thy ===== *)
theory Redis_Fsm
  imports Prelude
begin

text \<open>
  The automaton of the Redis request parser, \<^verbatim>\<open>src/include/redis_protocol_parser.hh\<close>. The header is
  the output of ragel for \<^verbatim>\<open>redis_protocol_parser.rl\<close>: one big \<^verbatim>\<open>switch\<close> whose cases are the states
  and whose labels are the transitions. It is kept here as it is written, block by block and in
  the order of the file, as a list of \<open>block\<close>s:

    \<^item> \<open>State n ts\<close> is the label \<^verbatim>\<open>stn\<close> with its \<^verbatim>\<open>case n\<close>: \<^verbatim>\<open>if (++p == pe) goto _test_eofn\<close>, then
      the tests \<open>ts\<close> of \<^verbatim>\<open>*p\<close> in order, then \<^verbatim>\<open>goto st0\<close> when none applies;
    \<^item> \<open>Error_state\<close> is \<^verbatim>\<open>st0\<close>;
    \<^item> \<open>Trans n acts m\<close> is the label \<^verbatim>\<open>trn\<close>: the actions \<open>acts\<close>, then \<^verbatim>\<open>goto stm\<close>.

  Numbers are the \<^verbatim>\<open>int\<close>s of the source. What the blocks do is in theory \<open>Redis_Parser\<close>.
  \<open>fsm_part_k\<close> is a section of at most 150 lines of the file; \<open>fsm_blocks\<close> is the whole.
\<close>

section \<open>The enumerators of \<^verbatim>\<open>enum class command\<close>\<close>

text \<open>
  An enumerator is its underlying \<^verbatim>\<open>int\<close>; \<open>command_names\<close> holds the names in the order of the
  declaration, which numbers them from 0, and the abbreviations below name the values.
\<close>

datatype command = Command int

definition command_names :: "string list" where
  "command_names = [
    ''quit'', ''info'', ''js'', ''set'', ''mset'', ''get'', ''mget'', ''del'', ''echo'',
    ''ping'', ''incr'', ''decr'', ''incrby'', ''decrby'', ''command'', ''exists'', ''append'',
    ''strlen'', ''lpush'', ''lpushx'', ''lpop'', ''llen'', ''lindex'', ''linsert'', ''lrange'',
    ''lset'', ''rpush'', ''rpushx'', ''rpop'', ''lrem'', ''ltrim'', ''hset'', ''hdel'',
    ''hget'', ''hlen'', ''hexists'', ''hstrlen'', ''hincrby'', ''hincrbyfloat'', ''hkeys'',
    ''hvals'', ''hmget'', ''hmset'', ''hgetall'', ''sadd'', ''scard'', ''sismember'',
    ''smembers'', ''srem'', ''sdiff'', ''sdiffstore'', ''sinter'', ''sinterstore'', ''sunion'',
    ''sunionstore'', ''smove'', ''srandmember'', ''spop'', ''type'', ''expire'', ''pexpire'',
    ''ttl'', ''pttl'', ''persist'', ''zadd'', ''zcard'', ''zcount'', ''zincrby'', ''zrange'',
    ''zrangebyscore'', ''zrank'', ''zrem'', ''zremrangebyrank'', ''zremrangebyscore'',
    ''zrevrange'', ''zrevrangebyscore'', ''zrevrank'', ''zscore'', ''zunionstore'',
    ''zinterstore'', ''zdiffstore'', ''zunion'', ''zinter'', ''zdiff'', ''zscan'',
    ''zrangebylex'', ''zlexcount'', ''zremrangebylex'', ''select'', ''geoadd'', ''geohash'',
    ''geodist'', ''geopos'', ''georadius'', ''georadiusbymember'', ''setbit'', ''getbit'',
    ''bitcount'', ''bitop'', ''bitpos'', ''bitfield'', ''pfadd'', ''pfcount'', ''pfmerge'']"

abbreviation "Cmd_quit \<equiv> Command 0"
abbreviation "Cmd_info \<equiv> Command 1"
abbreviation "Cmd_js \<equiv> Command 2"
abbreviation "Cmd_set \<equiv> Command 3"
abbreviation "Cmd_mset \<equiv> Command 4"
abbreviation "Cmd_get \<equiv> Command 5"
abbreviation "Cmd_mget \<equiv> Command 6"
abbreviation "Cmd_del \<equiv> Command 7"
abbreviation "Cmd_echo \<equiv> Command 8"
abbreviation "Cmd_ping \<equiv> Command 9"
abbreviation "Cmd_incr \<equiv> Command 10"
abbreviation "Cmd_decr \<equiv> Command 11"
abbreviation "Cmd_incrby \<equiv> Command 12"
abbreviation "Cmd_decrby \<equiv> Command 13"
abbreviation "Cmd_command \<equiv> Command 14"
abbreviation "Cmd_exists \<equiv> Command 15"
abbreviation "Cmd_append \<equiv> Command 16"
abbreviation "Cmd_strlen \<equiv> Command 17"
abbreviation "Cmd_lpush \<equiv> Command 18"
abbreviation "Cmd_lpushx \<equiv> Command 19"
abbreviation "Cmd_lpop \<equiv> Command 20"
abbreviation "Cmd_llen \<equiv> Command 21"
abbreviation "Cmd_lindex \<equiv> Command 22"
abbreviation "Cmd_linsert \<equiv> Command 23"
abbreviation "Cmd_lrange \<equiv> Command 24"
abbreviation "Cmd_lset \<equiv> Command 25"
abbreviation "Cmd_rpush \<equiv> Command 26"
abbreviation "Cmd_rpushx \<equiv> Command 27"
abbreviation "Cmd_rpop \<equiv> Command 28"
abbreviation "Cmd_lrem \<equiv> Command 29"
abbreviation "Cmd_ltrim \<equiv> Command 30"
abbreviation "Cmd_hset \<equiv> Command 31"
abbreviation "Cmd_hdel \<equiv> Command 32"
abbreviation "Cmd_hget \<equiv> Command 33"
abbreviation "Cmd_hlen \<equiv> Command 34"
abbreviation "Cmd_hexists \<equiv> Command 35"
abbreviation "Cmd_hstrlen \<equiv> Command 36"
abbreviation "Cmd_hincrby \<equiv> Command 37"
abbreviation "Cmd_hincrbyfloat \<equiv> Command 38"
abbreviation "Cmd_hkeys \<equiv> Command 39"
abbreviation "Cmd_hvals \<equiv> Command 40"
abbreviation "Cmd_hmget \<equiv> Command 41"
abbreviation "Cmd_hmset \<equiv> Command 42"
abbreviation "Cmd_hgetall \<equiv> Command 43"
abbreviation "Cmd_sadd \<equiv> Command 44"
abbreviation "Cmd_scard \<equiv> Command 45"
abbreviation "Cmd_sismember \<equiv> Command 46"
abbreviation "Cmd_smembers \<equiv> Command 47"
abbreviation "Cmd_srem \<equiv> Command 48"
abbreviation "Cmd_sdiff \<equiv> Command 49"
abbreviation "Cmd_sdiffstore \<equiv> Command 50"
abbreviation "Cmd_sinter \<equiv> Command 51"
abbreviation "Cmd_sinterstore \<equiv> Command 52"
abbreviation "Cmd_sunion \<equiv> Command 53"
abbreviation "Cmd_sunionstore \<equiv> Command 54"
abbreviation "Cmd_smove \<equiv> Command 55"
abbreviation "Cmd_srandmember \<equiv> Command 56"
abbreviation "Cmd_spop \<equiv> Command 57"
abbreviation "Cmd_type \<equiv> Command 58"
abbreviation "Cmd_expire \<equiv> Command 59"
abbreviation "Cmd_pexpire \<equiv> Command 60"
abbreviation "Cmd_ttl \<equiv> Command 61"
abbreviation "Cmd_pttl \<equiv> Command 62"
abbreviation "Cmd_persist \<equiv> Command 63"
abbreviation "Cmd_zadd \<equiv> Command 64"
abbreviation "Cmd_zcard \<equiv> Command 65"
abbreviation "Cmd_zcount \<equiv> Command 66"
abbreviation "Cmd_zincrby \<equiv> Command 67"
abbreviation "Cmd_zrange \<equiv> Command 68"
abbreviation "Cmd_zrangebyscore \<equiv> Command 69"
abbreviation "Cmd_zrank \<equiv> Command 70"
abbreviation "Cmd_zrem \<equiv> Command 71"
abbreviation "Cmd_zremrangebyrank \<equiv> Command 72"
abbreviation "Cmd_zremrangebyscore \<equiv> Command 73"
abbreviation "Cmd_zrevrange \<equiv> Command 74"
abbreviation "Cmd_zrevrangebyscore \<equiv> Command 75"
abbreviation "Cmd_zrevrank \<equiv> Command 76"
abbreviation "Cmd_zscore \<equiv> Command 77"
abbreviation "Cmd_zunionstore \<equiv> Command 78"
abbreviation "Cmd_zinterstore \<equiv> Command 79"
abbreviation "Cmd_zdiffstore \<equiv> Command 80"
abbreviation "Cmd_zunion \<equiv> Command 81"
abbreviation "Cmd_zinter \<equiv> Command 82"
abbreviation "Cmd_zdiff \<equiv> Command 83"
abbreviation "Cmd_zscan \<equiv> Command 84"
abbreviation "Cmd_zrangebylex \<equiv> Command 85"
abbreviation "Cmd_zlexcount \<equiv> Command 86"
abbreviation "Cmd_zremrangebylex \<equiv> Command 87"
abbreviation "Cmd_select \<equiv> Command 88"
abbreviation "Cmd_geoadd \<equiv> Command 89"
abbreviation "Cmd_geohash \<equiv> Command 90"
abbreviation "Cmd_geodist \<equiv> Command 91"
abbreviation "Cmd_geopos \<equiv> Command 92"
abbreviation "Cmd_georadius \<equiv> Command 93"
abbreviation "Cmd_georadiusbymember \<equiv> Command 94"
abbreviation "Cmd_setbit \<equiv> Command 95"
abbreviation "Cmd_getbit \<equiv> Command 96"
abbreviation "Cmd_bitcount \<equiv> Command 97"
abbreviation "Cmd_bitop \<equiv> Command 98"
abbreviation "Cmd_bitpos \<equiv> Command 99"
abbreviation "Cmd_bitfield \<equiv> Command 100"
abbreviation "Cmd_pfadd \<equiv> Command 101"
abbreviation "Cmd_pfcount \<equiv> Command 102"
abbreviation "Cmd_pfmerge \<equiv> Command 103"

section \<open>Blocks\<close>

datatype fsm_test =
    Is int int            \<comment> \<open>\<^verbatim>\<open>*p == c\<close>: \<^verbatim>\<open>goto trn\<close>\<close>
  | Between int int int   \<comment> \<open>\<^verbatim>\<open>lo <= *p && *p <= hi\<close>: \<^verbatim>\<open>goto trn\<close>\<close>
  | Always int            \<comment> \<open>\<^verbatim>\<open>goto trn\<close>\<close>

datatype fsm_act =
    Set_ok                \<comment> \<open>\<^verbatim>\<open>_state = state::ok;\<close>\<close>
  | Zero_u32              \<comment> \<open>\<^verbatim>\<open>_u32 = 0;\<close>\<close>
  | Digit_u32             \<comment> \<open>\<^verbatim>\<open>_u32 *= 10; _u32 += (*p) - '0';\<close>\<close>
  | Take_args_count       \<comment> \<open>\<^verbatim>\<open>_args_count = _u32;\<close>\<close>
  | Take_arg_size         \<comment> \<open>\<^verbatim>\<open>_arg_size = _u32;\<close>\<close>
  | Set_command command   \<comment> \<open>\<^verbatim>\<open>_command = command::c;\<close>\<close>
  | Call_blob int         \<comment> \<open>\<^verbatim>\<open>prepush(); _fsm_stack[_fsm_top++] = n; goto st366;\<close>\<close>
  | Start_blob            \<comment> \<open>the action \<^verbatim>\<open>start_blob\<close>\<close>
  | Advance_blob          \<comment> \<open>the action \<^verbatim>\<open>advance_blob\<close>\<close>

datatype block =
    State int "fsm_test list"
  | Error_state
  | Trans int "fsm_act list" int

section \<open>The blocks of the file\<close>

definition fsm_part_01 :: "block list" where
  "fsm_part_01 = [
    State 1 [Is 42 0],
    Error_state,
    Trans 0 [Set_ok] 2,
    State 2 [Between 48 57 2],
    Trans 2 [Zero_u32, Digit_u32, Set_ok] 3,
    Trans 4 [Digit_u32, Set_ok] 3,
    State 3 [Is 13 3, Between 48 57 4],
    Trans 3 [Take_args_count, Set_ok] 4,
    State 4 [Is 10 5],
    Trans 5 [Take_args_count, Set_ok] 5,
    State 5 [Is 36 6],
    Trans 6 [Set_ok] 6,
    State 6 [Between 48 57 7],
    Trans 7 [Zero_u32, Digit_u32, Set_ok] 7,
    Trans 9 [Digit_u32, Set_ok] 7,
    State 7 [Is 13 8, Between 48 57 9],
    Trans 8 [Take_arg_size, Set_ok] 8,
    State 8 [Is 10 10],
    Trans 10 [Take_arg_size, Set_ok] 9]"

definition fsm_part_02 :: "block list" where
  "fsm_part_02 = [
    State 9 [Is 65 11, Is 66 12, Is 67 13, Is 68 14, Is 69 15, Is 71 16, Is 72 17, Is 73 18,
      Is 74 19, Is 76 20, Is 77 21, Is 80 22, Is 81 23, Is 82 24, Is 83 25, Is 84 26, Is 90 27,
      Is 97 11, Is 98 12, Is 99 13, Is 100 14, Is 101 15, Is 103 16, Is 104 17, Is 105 18, Is
      106 19, Is 108 20, Is 109 21, Is 112 22, Is 113 23, Is 114 24, Is 115 25, Is 116 26, Is
      122 27],
    Trans 11 [Set_command Cmd_append, Set_ok] 10,
    State 10 [Is 80 28, Is 112 28],
    Trans 28 [Set_command Cmd_append, Set_ok] 11,
    State 11 [Is 80 29, Is 112 29],
    Trans 29 [Set_command Cmd_append, Set_ok] 12,
    State 12 [Is 69 30, Is 101 30],
    Trans 30 [Set_command Cmd_append, Set_ok] 13,
    State 13 [Is 78 31, Is 110 31],
    Trans 31 [Set_command Cmd_append, Set_ok] 14,
    State 14 [Is 68 32, Is 100 32],
    Trans 32 [Set_command Cmd_append, Set_ok] 15,
    Trans 64 [Set_command Cmd_command, Set_ok] 15,
    Trans 176 [Set_command Cmd_js, Set_ok] 15,
    Trans 249 [Set_command Cmd_quit, Set_ok] 15]"

definition fsm_part_03 :: "block list" where
  "fsm_part_03 = [
    Trans 51 [Set_command Cmd_bitcount, Set_ok] 15,
    Trans 55 [Set_command Cmd_bitfield, Set_ok] 15,
    Trans 56 [Set_command Cmd_bitop, Set_ok] 15,
    Trans 58 [Set_command Cmd_bitpos, Set_ok] 15,
    Trans 67 [Set_command Cmd_del, Set_ok] 15,
    Trans 70 [Set_command Cmd_decrby, Set_ok] 15,
    Trans 74 [Set_command Cmd_echo, Set_ok] 15,
    Trans 79 [Set_command Cmd_exists, Set_ok] 15,
    Trans 82 [Set_command Cmd_expire, Set_ok] 15,
    Trans 92 [Set_command Cmd_geoadd, Set_ok] 15,
    Trans 95 [Set_command Cmd_geodist, Set_ok] 15,
    Trans 98 [Set_command Cmd_geohash, Set_ok] 15,
    Trans 100 [Set_command Cmd_geopos, Set_ok] 15,
    Trans 113 [Set_command Cmd_georadiusbymember, Set_ok] 15,
    Trans 116 [Set_command Cmd_getbit, Set_ok] 15,
    Trans 127 [Set_command Cmd_hdel, Set_ok] 15,
    Trans 132 [Set_command Cmd_hexists, Set_ok] 15,
    Trans 150 [Set_command Cmd_hkeys, Set_ok] 15,
    Trans 152 [Set_command Cmd_hlen, Set_ok] 15,
    Trans 168 [Set_command Cmd_hvals, Set_ok] 15,
    Trans 137 [Set_command Cmd_hgetall, Set_ok] 15,
    Trans 147 [Set_command Cmd_hincrbyfloat, Set_ok] 15,
    Trans 156 [Set_command Cmd_hmget, Set_ok] 15,
    Trans 158 [Set_command Cmd_hmset, Set_ok] 15,
    Trans 161 [Set_command Cmd_hset, Set_ok] 15]"

definition fsm_part_04 :: "block list" where
  "fsm_part_04 = [
    Trans 165 [Set_command Cmd_hstrlen, Set_ok] 15,
    Trans 175 [Set_command Cmd_info, Set_ok] 15,
    Trans 174 [Set_command Cmd_incrby, Set_ok] 15,
    Trans 192 [Set_command Cmd_llen, Set_ok] 15,
    Trans 206 [Set_command Cmd_lset, Set_ok] 15,
    Trans 209 [Set_command Cmd_ltrim, Set_ok] 15,
    Trans 187 [Set_command Cmd_lindex, Set_ok] 15,
    Trans 190 [Set_command Cmd_linsert, Set_ok] 15,
    Trans 195 [Set_command Cmd_lpop, Set_ok] 15,
    Trans 198 [Set_command Cmd_lpushx, Set_ok] 15,
    Trans 203 [Set_command Cmd_lrange, Set_ok] 15,
    Trans 204 [Set_command Cmd_lrem, Set_ok] 15,
    Trans 213 [Set_command Cmd_mget, Set_ok] 15,
    Trans 215 [Set_command Cmd_mset, Set_ok] 15,
    Trans 244 [Set_command Cmd_ping, Set_ok] 15,
    Trans 246 [Set_command Cmd_pttl, Set_ok] 15,
    Trans 225 [Set_command Cmd_persist, Set_ok] 15,
    Trans 229 [Set_command Cmd_pexpire, Set_ok] 15,
    Trans 234 [Set_command Cmd_pfadd, Set_ok] 15,
    Trans 238 [Set_command Cmd_pfcount, Set_ok] 15,
    Trans 242 [Set_command Cmd_pfmerge, Set_ok] 15,
    Trans 253 [Set_command Cmd_rpop, Set_ok] 15,
    Trans 256 [Set_command Cmd_rpushx, Set_ok] 15,
    Trans 268 [Set_command Cmd_sadd, Set_ok] 15,
    Trans 271 [Set_command Cmd_scard, Set_ok] 15]"

definition fsm_part_05 :: "block list" where
  "fsm_part_05 = [
    Trans 314 [Set_command Cmd_spop, Set_ok] 15,
    Trans 329 [Set_command Cmd_strlen, Set_ok] 15,
    Trans 279 [Set_command Cmd_sdiffstore, Set_ok] 15,
    Trans 284 [Set_command Cmd_select, Set_ok] 15,
    Trans 287 [Set_command Cmd_setbit, Set_ok] 15,
    Trans 303 [Set_command Cmd_sismember, Set_ok] 15,
    Trans 297 [Set_command Cmd_sinterstore, Set_ok] 15,
    Trans 310 [Set_command Cmd_smembers, Set_ok] 15,
    Trans 312 [Set_command Cmd_smove, Set_ok] 15,
    Trans 324 [Set_command Cmd_srandmember, Set_ok] 15,
    Trans 325 [Set_command Cmd_srem, Set_ok] 15,
    Trans 338 [Set_command Cmd_sunionstore, Set_ok] 15,
    Trans 341 [Set_command Cmd_ttl, Set_ok] 15,
    Trans 343 [Set_command Cmd_type, Set_ok] 15,
    Trans 353 [Set_command Cmd_zadd, Set_ok] 15,
    Trans 368 [Set_command Cmd_zdiffstore, Set_ok] 15,
    Trans 388 [Set_command Cmd_zlexcount, Set_ok] 15,
    Trans 357 [Set_command Cmd_zcard, Set_ok] 15,
    Trans 360 [Set_command Cmd_zcount, Set_ok] 15,
    Trans 374 [Set_command Cmd_zincrby, Set_ok] 15,
    Trans 381 [Set_command Cmd_zinterstore, Set_ok] 15,
    Trans 393 [Set_command Cmd_zrank, Set_ok] 15,
    Trans 400 [Set_command Cmd_zrangebylex, Set_ok] 15,
    Trans 404 [Set_command Cmd_zrangebyscore, Set_ok] 15,
    Trans 418 [Set_command Cmd_zremrangebylex, Set_ok] 15]"

definition fsm_part_06 :: "block list" where
  "fsm_part_06 = [
    Trans 421 [Set_command Cmd_zremrangebyrank, Set_ok] 15,
    Trans 425 [Set_command Cmd_zremrangebyscore, Set_ok] 15,
    Trans 430 [Set_command Cmd_zrevrank, Set_ok] 15,
    Trans 438 [Set_command Cmd_zrevrangebyscore, Set_ok] 15,
    Trans 442 [Set_command Cmd_zscan, Set_ok] 15,
    Trans 444 [Set_command Cmd_zscore, Set_ok] 15,
    Trans 453 [Set_command Cmd_zunionstore, Set_ok] 15,
    State 15 [Is 13 33],
    Trans 33 [Set_ok] 16,
    State 16 [Is 10 34],
    Trans 34 [Set_ok] 17,
    State 17 [Is 36 35],
    Trans 35 [Set_ok] 18,
    State 18 [Between 48 57 36],
    Trans 36 [Zero_u32, Digit_u32, Set_ok] 19,
    Trans 38 [Digit_u32, Set_ok] 19,
    State 19 [Is 13 37, Between 48 57 38],
    Trans 37 [Take_arg_size, Set_ok] 20,
    State 20 [Is 10 39],
    Trans 39 [Take_arg_size, Call_blob 21, Set_ok] 21,
    State 21 [Is 13 40],
    Trans 40 [Set_ok] 22]"

definition fsm_part_07 :: "block list" where
  "fsm_part_07 = [
    State 22 [Is 10 41],
    Trans 41 [Set_ok] 367,
    State 367 [Is 36 35],
    Trans 12 [Set_command Cmd_bitcount, Set_command Cmd_bitpos, Set_command Cmd_bitop,
      Set_command Cmd_bitfield, Set_ok] 23,
    State 23 [Is 73 42, Is 105 42],
    Trans 42 [Set_command Cmd_bitcount, Set_command Cmd_bitpos, Set_command Cmd_bitop,
      Set_command Cmd_bitfield, Set_ok] 24,
    State 24 [Is 84 43, Is 116 43],
    Trans 43 [Set_command Cmd_bitcount, Set_command Cmd_bitpos, Set_command Cmd_bitop,
      Set_command Cmd_bitfield, Set_ok] 25,
    State 25 [Is 67 44, Is 70 45, Is 79 46, Is 80 47, Is 99 44, Is 102 45, Is 111 46, Is 112
      47],
    Trans 44 [Set_command Cmd_bitcount, Set_ok] 26,
    State 26 [Is 79 48, Is 111 48],
    Trans 48 [Set_command Cmd_bitcount, Set_ok] 27,
    State 27 [Is 85 49, Is 117 49],
    Trans 49 [Set_command Cmd_bitcount, Set_ok] 28,
    State 28 [Is 78 50, Is 110 50],
    Trans 50 [Set_command Cmd_bitcount, Set_ok] 29]"

definition fsm_part_08 :: "block list" where
  "fsm_part_08 = [
    State 29 [Is 84 51, Is 116 51],
    Trans 45 [Set_command Cmd_bitfield, Set_ok] 30,
    State 30 [Is 73 52, Is 105 52],
    Trans 52 [Set_command Cmd_bitfield, Set_ok] 31,
    State 31 [Is 69 53, Is 101 53],
    Trans 53 [Set_command Cmd_bitfield, Set_ok] 32,
    State 32 [Is 76 54, Is 108 54],
    Trans 54 [Set_command Cmd_bitfield, Set_ok] 33,
    State 33 [Is 68 55, Is 100 55],
    Trans 46 [Set_command Cmd_bitop, Set_ok] 34,
    State 34 [Is 80 56, Is 112 56],
    Trans 47 [Set_command Cmd_bitpos, Set_ok] 35,
    State 35 [Is 79 57, Is 111 57],
    Trans 57 [Set_command Cmd_bitpos, Set_ok] 36,
    State 36 [Is 83 58, Is 115 58],
    Trans 13 [Set_command Cmd_command, Set_ok] 37,
    State 37 [Is 79 59, Is 111 59],
    Trans 59 [Set_command Cmd_command, Set_ok] 38]"

definition fsm_part_09 :: "block list" where
  "fsm_part_09 = [
    State 38 [Is 77 60, Is 109 60],
    Trans 60 [Set_command Cmd_command, Set_ok] 39,
    State 39 [Is 77 61, Is 109 61],
    Trans 61 [Set_command Cmd_command, Set_ok] 40,
    State 40 [Is 65 62, Is 97 62],
    Trans 62 [Set_command Cmd_command, Set_ok] 41,
    State 41 [Is 78 63, Is 110 63],
    Trans 63 [Set_command Cmd_command, Set_ok] 42,
    State 42 [Is 68 64, Is 100 64],
    Trans 14 [Set_command Cmd_del, Set_command Cmd_decr, Set_command Cmd_decrby, Set_ok] 43,
    State 43 [Is 69 65, Is 101 65],
    Trans 65 [Set_command Cmd_del, Set_command Cmd_decr, Set_command Cmd_decrby, Set_ok] 44,
    State 44 [Is 67 66, Is 76 67, Is 99 66, Is 108 67],
    Trans 66 [Set_command Cmd_decr, Set_command Cmd_decrby, Set_ok] 45,
    State 45 [Is 82 68, Is 114 68],
    Trans 68 [Set_command Cmd_decr, Set_command Cmd_decrby, Set_ok] 46]"

definition fsm_part_10 :: "block list" where
  "fsm_part_10 = [
    State 46 [Is 13 33, Is 66 69, Is 98 69],
    Trans 69 [Set_command Cmd_decrby, Set_ok] 47,
    State 47 [Is 89 70, Is 121 70],
    Trans 15 [Set_command Cmd_echo, Set_command Cmd_exists, Set_command Cmd_expire, Set_ok] 48,
    State 48 [Is 67 71, Is 88 72, Is 99 71, Is 120 72],
    Trans 71 [Set_command Cmd_echo, Set_ok] 49,
    State 49 [Is 72 73, Is 104 73],
    Trans 73 [Set_command Cmd_echo, Set_ok] 50,
    State 50 [Is 79 74, Is 111 74],
    Trans 72 [Set_command Cmd_exists, Set_command Cmd_expire, Set_ok] 51,
    State 51 [Is 73 75, Is 80 76, Is 105 75, Is 112 76],
    Trans 75 [Set_command Cmd_exists, Set_ok] 52,
    State 52 [Is 83 77, Is 115 77],
    Trans 77 [Set_command Cmd_exists, Set_ok] 53,
    State 53 [Is 84 78, Is 116 78],
    Trans 78 [Set_command Cmd_exists, Set_ok] 54,
    State 54 [Is 83 79, Is 115 79]]"

definition fsm_part_11 :: "block list" where
  "fsm_part_11 = [
    Trans 76 [Set_command Cmd_expire, Set_ok] 55,
    State 55 [Is 73 80, Is 105 80],
    Trans 80 [Set_command Cmd_expire, Set_ok] 56,
    State 56 [Is 82 81, Is 114 81],
    Trans 81 [Set_command Cmd_expire, Set_ok] 57,
    State 57 [Is 69 82, Is 101 82],
    Trans 16 [Set_command Cmd_getbit, Set_command Cmd_get, Set_command Cmd_geoadd, Set_command
      Cmd_geodist, Set_command Cmd_geohash, Set_command Cmd_geopos, Set_command
      Cmd_georadiusbymember, Set_command Cmd_georadius, Set_ok] 58,
    State 58 [Is 69 83, Is 101 83],
    Trans 83 [Set_command Cmd_getbit, Set_command Cmd_get, Set_command Cmd_geoadd, Set_command
      Cmd_geodist, Set_command Cmd_geohash, Set_command Cmd_geopos, Set_command
      Cmd_georadiusbymember, Set_command Cmd_georadius, Set_ok] 59,
    State 59 [Is 79 84, Is 84 85, Is 111 84, Is 116 85],
    Trans 84 [Set_command Cmd_geoadd, Set_command Cmd_geodist, Set_command Cmd_geohash,
      Set_command Cmd_geopos, Set_command Cmd_georadiusbymember, Set_command Cmd_georadius,
      Set_ok] 60,
    State 60 [Is 65 86, Is 68 87, Is 72 88, Is 80 89, Is 82 90, Is 97 86, Is 100 87, Is 104
      88, Is 112 89, Is 114 90],
    Trans 86 [Set_command Cmd_geoadd, Set_ok] 61]"

definition fsm_part_12 :: "block list" where
  "fsm_part_12 = [
    State 61 [Is 68 91, Is 100 91],
    Trans 91 [Set_command Cmd_geoadd, Set_ok] 62,
    State 62 [Is 68 92, Is 100 92],
    Trans 87 [Set_command Cmd_geodist, Set_ok] 63,
    State 63 [Is 73 93, Is 105 93],
    Trans 93 [Set_command Cmd_geodist, Set_ok] 64,
    State 64 [Is 83 94, Is 115 94],
    Trans 94 [Set_command Cmd_geodist, Set_ok] 65,
    State 65 [Is 84 95, Is 116 95],
    Trans 88 [Set_command Cmd_geohash, Set_ok] 66,
    State 66 [Is 65 96, Is 97 96],
    Trans 96 [Set_command Cmd_geohash, Set_ok] 67,
    State 67 [Is 83 97, Is 115 97],
    Trans 97 [Set_command Cmd_geohash, Set_ok] 68,
    State 68 [Is 72 98, Is 104 98],
    Trans 89 [Set_command Cmd_geopos, Set_ok] 69,
    State 69 [Is 79 99, Is 111 99],
    Trans 99 [Set_command Cmd_geopos, Set_ok] 70]"

definition fsm_part_13 :: "block list" where
  "fsm_part_13 = [
    State 70 [Is 83 100, Is 115 100],
    Trans 90 [Set_command Cmd_georadiusbymember, Set_command Cmd_georadius, Set_ok] 71,
    State 71 [Is 65 101, Is 97 101],
    Trans 101 [Set_command Cmd_georadiusbymember, Set_command Cmd_georadius, Set_ok] 72,
    State 72 [Is 68 102, Is 100 102],
    Trans 102 [Set_command Cmd_georadiusbymember, Set_command Cmd_georadius, Set_ok] 73,
    State 73 [Is 73 103, Is 105 103],
    Trans 103 [Set_command Cmd_georadiusbymember, Set_command Cmd_georadius, Set_ok] 74,
    State 74 [Is 85 104, Is 117 104],
    Trans 104 [Set_command Cmd_georadiusbymember, Set_command Cmd_georadius, Set_ok] 75,
    State 75 [Is 83 105, Is 115 105],
    Trans 105 [Set_command Cmd_georadiusbymember, Set_command Cmd_georadius, Set_ok] 76,
    State 76 [Is 13 33, Is 66 106, Is 98 106],
    Trans 106 [Set_command Cmd_georadiusbymember, Set_ok] 77,
    State 77 [Is 89 107, Is 121 107],
    Trans 107 [Set_command Cmd_georadiusbymember, Set_ok] 78]"

definition fsm_part_14 :: "block list" where
  "fsm_part_14 = [
    State 78 [Is 77 108, Is 109 108],
    Trans 108 [Set_command Cmd_georadiusbymember, Set_ok] 79,
    State 79 [Is 69 109, Is 101 109],
    Trans 109 [Set_command Cmd_georadiusbymember, Set_ok] 80,
    State 80 [Is 77 110, Is 109 110],
    Trans 110 [Set_command Cmd_georadiusbymember, Set_ok] 81,
    State 81 [Is 66 111, Is 98 111],
    Trans 111 [Set_command Cmd_georadiusbymember, Set_ok] 82,
    State 82 [Is 69 112, Is 101 112],
    Trans 112 [Set_command Cmd_georadiusbymember, Set_ok] 83,
    State 83 [Is 82 113, Is 114 113],
    Trans 85 [Set_command Cmd_getbit, Set_command Cmd_get, Set_ok] 84,
    State 84 [Is 13 33, Is 66 114, Is 98 114],
    Trans 114 [Set_command Cmd_getbit, Set_ok] 85,
    State 85 [Is 73 115, Is 105 115],
    Trans 115 [Set_command Cmd_getbit, Set_ok] 86,
    State 86 [Is 84 116, Is 116 116]]"

definition fsm_part_15 :: "block list" where
  "fsm_part_15 = [
    Trans 17 [Set_command Cmd_hset, Set_command Cmd_hgetall, Set_command Cmd_hget, Set_command
      Cmd_hdel, Set_command Cmd_hlen, Set_command Cmd_hexists, Set_command Cmd_hstrlen,
      Set_command Cmd_hincrby, Set_command Cmd_hincrbyfloat, Set_command Cmd_hkeys, Set_command
      Cmd_hvals, Set_command Cmd_hmget, Set_command Cmd_hmset, Set_ok] 87,
    State 87 [Is 68 117, Is 69 118, Is 71 119, Is 73 120, Is 75 121, Is 76 122, Is 77 123, Is
      83 124, Is 86 125, Is 100 117, Is 101 118, Is 103 119, Is 105 120, Is 107 121, Is 108 122,
      Is 109 123, Is 115 124, Is 118 125],
    Trans 117 [Set_command Cmd_hdel, Set_ok] 88,
    State 88 [Is 69 126, Is 101 126],
    Trans 126 [Set_command Cmd_hdel, Set_ok] 89,
    State 89 [Is 76 127, Is 108 127],
    Trans 118 [Set_command Cmd_hexists, Set_ok] 90,
    State 90 [Is 88 128, Is 120 128],
    Trans 128 [Set_command Cmd_hexists, Set_ok] 91,
    State 91 [Is 73 129, Is 105 129],
    Trans 129 [Set_command Cmd_hexists, Set_ok] 92,
    State 92 [Is 83 130, Is 115 130],
    Trans 130 [Set_command Cmd_hexists, Set_ok] 93]"

definition fsm_part_16 :: "block list" where
  "fsm_part_16 = [
    State 93 [Is 84 131, Is 116 131],
    Trans 131 [Set_command Cmd_hexists, Set_ok] 94,
    State 94 [Is 83 132, Is 115 132],
    Trans 119 [Set_command Cmd_hgetall, Set_command Cmd_hget, Set_ok] 95,
    State 95 [Is 69 133, Is 101 133],
    Trans 133 [Set_command Cmd_hgetall, Set_command Cmd_hget, Set_ok] 96,
    State 96 [Is 84 134, Is 116 134],
    Trans 134 [Set_command Cmd_hgetall, Set_command Cmd_hget, Set_ok] 97,
    State 97 [Is 13 33, Is 65 135, Is 97 135],
    Trans 135 [Set_command Cmd_hgetall, Set_ok] 98,
    State 98 [Is 76 136, Is 108 136],
    Trans 136 [Set_command Cmd_hgetall, Set_ok] 99,
    State 99 [Is 76 137, Is 108 137],
    Trans 120 [Set_command Cmd_hincrby, Set_command Cmd_hincrbyfloat, Set_ok] 100,
    State 100 [Is 78 138, Is 110 138],
    Trans 138 [Set_command Cmd_hincrby, Set_command Cmd_hincrbyfloat, Set_ok] 101,
    State 101 [Is 67 139, Is 99 139]]"

definition fsm_part_17 :: "block list" where
  "fsm_part_17 = [
    Trans 139 [Set_command Cmd_hincrby, Set_command Cmd_hincrbyfloat, Set_ok] 102,
    State 102 [Is 82 140, Is 114 140],
    Trans 140 [Set_command Cmd_hincrby, Set_command Cmd_hincrbyfloat, Set_ok] 103,
    State 103 [Is 66 141, Is 98 141],
    Trans 141 [Set_command Cmd_hincrby, Set_command Cmd_hincrbyfloat, Set_ok] 104,
    State 104 [Is 89 142, Is 121 142],
    Trans 142 [Set_command Cmd_hincrby, Set_command Cmd_hincrbyfloat, Set_ok] 105,
    State 105 [Is 13 33, Is 70 143, Is 102 143],
    Trans 143 [Set_command Cmd_hincrbyfloat, Set_ok] 106,
    State 106 [Is 76 144, Is 108 144],
    Trans 144 [Set_command Cmd_hincrbyfloat, Set_ok] 107,
    State 107 [Is 79 145, Is 111 145],
    Trans 145 [Set_command Cmd_hincrbyfloat, Set_ok] 108,
    State 108 [Is 65 146, Is 97 146],
    Trans 146 [Set_command Cmd_hincrbyfloat, Set_ok] 109,
    State 109 [Is 84 147, Is 116 147],
    Trans 121 [Set_command Cmd_hkeys, Set_ok] 110]"

definition fsm_part_18 :: "block list" where
  "fsm_part_18 = [
    State 110 [Is 69 148, Is 101 148],
    Trans 148 [Set_command Cmd_hkeys, Set_ok] 111,
    State 111 [Is 89 149, Is 121 149],
    Trans 149 [Set_command Cmd_hkeys, Set_ok] 112,
    State 112 [Is 83 150, Is 115 150],
    Trans 122 [Set_command Cmd_hlen, Set_ok] 113,
    State 113 [Is 69 151, Is 101 151],
    Trans 151 [Set_command Cmd_hlen, Set_ok] 114,
    State 114 [Is 78 152, Is 110 152],
    Trans 123 [Set_command Cmd_hmget, Set_command Cmd_hmset, Set_ok] 115,
    State 115 [Is 71 153, Is 83 154, Is 103 153, Is 115 154],
    Trans 153 [Set_command Cmd_hmget, Set_ok] 116,
    State 116 [Is 69 155, Is 101 155],
    Trans 155 [Set_command Cmd_hmget, Set_ok] 117,
    State 117 [Is 84 156, Is 116 156],
    Trans 154 [Set_command Cmd_hmset, Set_ok] 118,
    State 118 [Is 69 157, Is 101 157],
    Trans 157 [Set_command Cmd_hmset, Set_ok] 119]"

definition fsm_part_19 :: "block list" where
  "fsm_part_19 = [
    State 119 [Is 84 158, Is 116 158],
    Trans 124 [Set_command Cmd_hset, Set_command Cmd_hstrlen, Set_ok] 120,
    State 120 [Is 69 159, Is 84 160, Is 101 159, Is 116 160],
    Trans 159 [Set_command Cmd_hset, Set_ok] 121,
    State 121 [Is 84 161, Is 116 161],
    Trans 160 [Set_command Cmd_hstrlen, Set_ok] 122,
    State 122 [Is 82 162, Is 114 162],
    Trans 162 [Set_command Cmd_hstrlen, Set_ok] 123,
    State 123 [Is 76 163, Is 108 163],
    Trans 163 [Set_command Cmd_hstrlen, Set_ok] 124,
    State 124 [Is 69 164, Is 101 164],
    Trans 164 [Set_command Cmd_hstrlen, Set_ok] 125,
    State 125 [Is 78 165, Is 110 165],
    Trans 125 [Set_command Cmd_hvals, Set_ok] 126,
    State 126 [Is 65 166, Is 97 166],
    Trans 166 [Set_command Cmd_hvals, Set_ok] 127,
    State 127 [Is 76 167, Is 108 167],
    Trans 167 [Set_command Cmd_hvals, Set_ok] 128]"

definition fsm_part_20 :: "block list" where
  "fsm_part_20 = [
    State 128 [Is 83 168, Is 115 168],
    Trans 18 [Set_command Cmd_info, Set_command Cmd_incr, Set_command Cmd_incrby, Set_ok] 129,
    State 129 [Is 78 169, Is 110 169],
    Trans 169 [Set_command Cmd_info, Set_command Cmd_incr, Set_command Cmd_incrby, Set_ok] 130,
    State 130 [Is 67 170, Is 70 171, Is 99 170, Is 102 171],
    Trans 170 [Set_command Cmd_incr, Set_command Cmd_incrby, Set_ok] 131,
    State 131 [Is 82 172, Is 114 172],
    Trans 172 [Set_command Cmd_incr, Set_command Cmd_incrby, Set_ok] 132,
    State 132 [Is 13 33, Is 66 173, Is 98 173],
    Trans 173 [Set_command Cmd_incrby, Set_ok] 133,
    State 133 [Is 89 174, Is 121 174],
    Trans 171 [Set_command Cmd_info, Set_ok] 134,
    State 134 [Is 79 175, Is 111 175],
    Trans 19 [Set_command Cmd_js, Set_ok] 135,
    State 135 [Is 83 176, Is 115 176]]"

definition fsm_part_21 :: "block list" where
  "fsm_part_21 = [
    Trans 20 [Set_command Cmd_lpushx, Set_command Cmd_lpush, Set_command Cmd_lpop, Set_command
      Cmd_llen, Set_command Cmd_lindex, Set_command Cmd_linsert, Set_command Cmd_lrange,
      Set_command Cmd_lset, Set_command Cmd_lrem, Set_command Cmd_ltrim, Set_ok] 136,
    State 136 [Is 73 177, Is 76 178, Is 80 179, Is 82 180, Is 83 181, Is 84 182, Is 105 177,
      Is 108 178, Is 112 179, Is 114 180, Is 115 181, Is 116 182],
    Trans 177 [Set_command Cmd_lindex, Set_command Cmd_linsert, Set_ok] 137,
    State 137 [Is 78 183, Is 110 183],
    Trans 183 [Set_command Cmd_lindex, Set_command Cmd_linsert, Set_ok] 138,
    State 138 [Is 68 184, Is 83 185, Is 100 184, Is 115 185],
    Trans 184 [Set_command Cmd_lindex, Set_ok] 139,
    State 139 [Is 69 186, Is 101 186],
    Trans 186 [Set_command Cmd_lindex, Set_ok] 140,
    State 140 [Is 88 187, Is 120 187],
    Trans 185 [Set_command Cmd_linsert, Set_ok] 141,
    State 141 [Is 69 188, Is 101 188],
    Trans 188 [Set_command Cmd_linsert, Set_ok] 142,
    State 142 [Is 82 189, Is 114 189]]"

definition fsm_part_22 :: "block list" where
  "fsm_part_22 = [
    Trans 189 [Set_command Cmd_linsert, Set_ok] 143,
    State 143 [Is 84 190, Is 116 190],
    Trans 178 [Set_command Cmd_llen, Set_ok] 144,
    State 144 [Is 69 191, Is 101 191],
    Trans 191 [Set_command Cmd_llen, Set_ok] 145,
    State 145 [Is 78 192, Is 110 192],
    Trans 179 [Set_command Cmd_lpushx, Set_command Cmd_lpush, Set_command Cmd_lpop, Set_ok]
      146,
    State 146 [Is 79 193, Is 85 194, Is 111 193, Is 117 194],
    Trans 193 [Set_command Cmd_lpop, Set_ok] 147,
    State 147 [Is 80 195, Is 112 195],
    Trans 194 [Set_command Cmd_lpushx, Set_command Cmd_lpush, Set_ok] 148,
    State 148 [Is 83 196, Is 115 196],
    Trans 196 [Set_command Cmd_lpushx, Set_command Cmd_lpush, Set_ok] 149,
    State 149 [Is 72 197, Is 104 197],
    Trans 197 [Set_command Cmd_lpushx, Set_command Cmd_lpush, Set_ok] 150,
    State 150 [Is 13 33, Is 88 198, Is 120 198],
    Trans 180 [Set_command Cmd_lrange, Set_command Cmd_lrem, Set_ok] 151]"

definition fsm_part_23 :: "block list" where
  "fsm_part_23 = [
    State 151 [Is 65 199, Is 69 200, Is 97 199, Is 101 200],
    Trans 199 [Set_command Cmd_lrange, Set_ok] 152,
    State 152 [Is 78 201, Is 110 201],
    Trans 201 [Set_command Cmd_lrange, Set_ok] 153,
    State 153 [Is 71 202, Is 103 202],
    Trans 202 [Set_command Cmd_lrange, Set_ok] 154,
    State 154 [Is 69 203, Is 101 203],
    Trans 200 [Set_command Cmd_lrem, Set_ok] 155,
    State 155 [Is 77 204, Is 109 204],
    Trans 181 [Set_command Cmd_lset, Set_ok] 156,
    State 156 [Is 69 205, Is 101 205],
    Trans 205 [Set_command Cmd_lset, Set_ok] 157,
    State 157 [Is 84 206, Is 116 206],
    Trans 182 [Set_command Cmd_ltrim, Set_ok] 158,
    State 158 [Is 82 207, Is 114 207],
    Trans 207 [Set_command Cmd_ltrim, Set_ok] 159,
    State 159 [Is 73 208, Is 105 208],
    Trans 208 [Set_command Cmd_ltrim, Set_ok] 160]"

definition fsm_part_24 :: "block list" where
  "fsm_part_24 = [
    State 160 [Is 77 209, Is 109 209],
    Trans 21 [Set_command Cmd_mget, Set_command Cmd_mset, Set_ok] 161,
    State 161 [Is 71 210, Is 83 211, Is 103 210, Is 115 211],
    Trans 210 [Set_command Cmd_mget, Set_ok] 162,
    State 162 [Is 69 212, Is 101 212],
    Trans 212 [Set_command Cmd_mget, Set_ok] 163,
    State 163 [Is 84 213, Is 116 213],
    Trans 211 [Set_command Cmd_mset, Set_ok] 164,
    State 164 [Is 69 214, Is 101 214],
    Trans 214 [Set_command Cmd_mset, Set_ok] 165,
    State 165 [Is 84 215, Is 116 215],
    Trans 22 [Set_command Cmd_ping, Set_command Cmd_pexpire, Set_command Cmd_persist,
      Set_command Cmd_pttl, Set_command Cmd_pfadd, Set_command Cmd_pfcount, Set_command
      Cmd_pfmerge, Set_ok] 166,
    State 166 [Is 69 216, Is 70 217, Is 73 218, Is 84 219, Is 101 216, Is 102 217, Is 105 218,
      Is 116 219],
    Trans 216 [Set_command Cmd_pexpire, Set_command Cmd_persist, Set_ok] 167,
    State 167 [Is 82 220, Is 88 221, Is 114 220, Is 120 221]]"

definition fsm_part_25 :: "block list" where
  "fsm_part_25 = [
    Trans 220 [Set_command Cmd_persist, Set_ok] 168,
    State 168 [Is 83 222, Is 115 222],
    Trans 222 [Set_command Cmd_persist, Set_ok] 169,
    State 169 [Is 73 223, Is 105 223],
    Trans 223 [Set_command Cmd_persist, Set_ok] 170,
    State 170 [Is 83 224, Is 115 224],
    Trans 224 [Set_command Cmd_persist, Set_ok] 171,
    State 171 [Is 84 225, Is 116 225],
    Trans 221 [Set_command Cmd_pexpire, Set_ok] 172,
    State 172 [Is 80 226, Is 112 226],
    Trans 226 [Set_command Cmd_pexpire, Set_ok] 173,
    State 173 [Is 73 227, Is 105 227],
    Trans 227 [Set_command Cmd_pexpire, Set_ok] 174,
    State 174 [Is 82 228, Is 114 228],
    Trans 228 [Set_command Cmd_pexpire, Set_ok] 175,
    State 175 [Is 69 229, Is 101 229],
    Trans 217 [Set_command Cmd_pfadd, Set_command Cmd_pfcount, Set_command Cmd_pfmerge,
      Set_ok] 176]"

definition fsm_part_26 :: "block list" where
  "fsm_part_26 = [
    State 176 [Is 65 230, Is 67 231, Is 77 232, Is 97 230, Is 99 231, Is 109 232],
    Trans 230 [Set_command Cmd_pfadd, Set_ok] 177,
    State 177 [Is 68 233, Is 100 233],
    Trans 233 [Set_command Cmd_pfadd, Set_ok] 178,
    State 178 [Is 68 234, Is 100 234],
    Trans 231 [Set_command Cmd_pfcount, Set_ok] 179,
    State 179 [Is 79 235, Is 111 235],
    Trans 235 [Set_command Cmd_pfcount, Set_ok] 180,
    State 180 [Is 85 236, Is 117 236],
    Trans 236 [Set_command Cmd_pfcount, Set_ok] 181,
    State 181 [Is 78 237, Is 110 237],
    Trans 237 [Set_command Cmd_pfcount, Set_ok] 182,
    State 182 [Is 84 238, Is 116 238],
    Trans 232 [Set_command Cmd_pfmerge, Set_ok] 183,
    State 183 [Is 69 239, Is 101 239],
    Trans 239 [Set_command Cmd_pfmerge, Set_ok] 184,
    State 184 [Is 82 240, Is 114 240],
    Trans 240 [Set_command Cmd_pfmerge, Set_ok] 185]"

definition fsm_part_27 :: "block list" where
  "fsm_part_27 = [
    State 185 [Is 71 241, Is 103 241],
    Trans 241 [Set_command Cmd_pfmerge, Set_ok] 186,
    State 186 [Is 69 242, Is 101 242],
    Trans 218 [Set_command Cmd_ping, Set_ok] 187,
    State 187 [Is 78 243, Is 110 243],
    Trans 243 [Set_command Cmd_ping, Set_ok] 188,
    State 188 [Is 71 244, Is 103 244],
    Trans 219 [Set_command Cmd_pttl, Set_ok] 189,
    State 189 [Is 84 245, Is 116 245],
    Trans 245 [Set_command Cmd_pttl, Set_ok] 190,
    State 190 [Is 76 246, Is 108 246],
    Trans 23 [Set_command Cmd_quit, Set_ok] 191,
    State 191 [Is 85 247, Is 117 247],
    Trans 247 [Set_command Cmd_quit, Set_ok] 192,
    State 192 [Is 73 248, Is 105 248],
    Trans 248 [Set_command Cmd_quit, Set_ok] 193,
    State 193 [Is 84 249, Is 116 249],
    Trans 24 [Set_command Cmd_rpushx, Set_command Cmd_rpush, Set_command Cmd_rpop, Set_ok] 194]"

definition fsm_part_28 :: "block list" where
  "fsm_part_28 = [
    State 194 [Is 80 250, Is 112 250],
    Trans 250 [Set_command Cmd_rpushx, Set_command Cmd_rpush, Set_command Cmd_rpop, Set_ok]
      195,
    State 195 [Is 79 251, Is 85 252, Is 111 251, Is 117 252],
    Trans 251 [Set_command Cmd_rpop, Set_ok] 196,
    State 196 [Is 80 253, Is 112 253],
    Trans 252 [Set_command Cmd_rpushx, Set_command Cmd_rpush, Set_ok] 197,
    State 197 [Is 83 254, Is 115 254],
    Trans 254 [Set_command Cmd_rpushx, Set_command Cmd_rpush, Set_ok] 198,
    State 198 [Is 72 255, Is 104 255],
    Trans 255 [Set_command Cmd_rpushx, Set_command Cmd_rpush, Set_ok] 199,
    State 199 [Is 13 33, Is 88 256, Is 120 256],
    Trans 25 [Set_command Cmd_setbit, Set_command Cmd_set, Set_command Cmd_strlen, Set_command
      Cmd_sadd, Set_command Cmd_scard, Set_command Cmd_sismember, Set_command Cmd_smembers,
      Set_command Cmd_srem, Set_command Cmd_sdiffstore, Set_command Cmd_sdiff, Set_command
      Cmd_sinterstore, Set_command Cmd_sinter, Set_command Cmd_sunionstore, Set_command
      Cmd_sunion, Set_command Cmd_smove, Set_command Cmd_srandmember, Set_command Cmd_spop,
      Set_command Cmd_select, Set_ok] 200]"

definition fsm_part_29 :: "block list" where
  "fsm_part_29 = [
    State 200 [Is 65 257, Is 67 258, Is 68 259, Is 69 260, Is 73 261, Is 77 262, Is 80 263, Is
      82 264, Is 84 265, Is 85 266, Is 97 257, Is 99 258, Is 100 259, Is 101 260, Is 105 261, Is
      109 262, Is 112 263, Is 114 264, Is 116 265, Is 117 266],
    Trans 257 [Set_command Cmd_sadd, Set_ok] 201,
    State 201 [Is 68 267, Is 100 267],
    Trans 267 [Set_command Cmd_sadd, Set_ok] 202,
    State 202 [Is 68 268, Is 100 268],
    Trans 258 [Set_command Cmd_scard, Set_ok] 203,
    State 203 [Is 65 269, Is 97 269],
    Trans 269 [Set_command Cmd_scard, Set_ok] 204,
    State 204 [Is 82 270, Is 114 270],
    Trans 270 [Set_command Cmd_scard, Set_ok] 205,
    State 205 [Is 68 271, Is 100 271],
    Trans 259 [Set_command Cmd_sdiffstore, Set_command Cmd_sdiff, Set_ok] 206,
    State 206 [Is 73 272, Is 105 272],
    Trans 272 [Set_command Cmd_sdiffstore, Set_command Cmd_sdiff, Set_ok] 207,
    State 207 [Is 70 273, Is 102 273]]"

definition fsm_part_30 :: "block list" where
  "fsm_part_30 = [
    Trans 273 [Set_command Cmd_sdiffstore, Set_command Cmd_sdiff, Set_ok] 208,
    State 208 [Is 70 274, Is 102 274],
    Trans 274 [Set_command Cmd_sdiffstore, Set_command Cmd_sdiff, Set_ok] 209,
    State 209 [Is 13 33, Is 83 275, Is 115 275],
    Trans 275 [Set_command Cmd_sdiffstore, Set_ok] 210,
    State 210 [Is 84 276, Is 116 276],
    Trans 276 [Set_command Cmd_sdiffstore, Set_ok] 211,
    State 211 [Is 79 277, Is 111 277],
    Trans 277 [Set_command Cmd_sdiffstore, Set_ok] 212,
    State 212 [Is 82 278, Is 114 278],
    Trans 278 [Set_command Cmd_sdiffstore, Set_ok] 213,
    State 213 [Is 69 279, Is 101 279],
    Trans 260 [Set_command Cmd_setbit, Set_command Cmd_set, Set_command Cmd_select, Set_ok]
      214,
    State 214 [Is 76 280, Is 84 281, Is 108 280, Is 116 281],
    Trans 280 [Set_command Cmd_select, Set_ok] 215,
    State 215 [Is 69 282, Is 101 282],
    Trans 282 [Set_command Cmd_select, Set_ok] 216]"

definition fsm_part_31 :: "block list" where
  "fsm_part_31 = [
    State 216 [Is 67 283, Is 99 283],
    Trans 283 [Set_command Cmd_select, Set_ok] 217,
    State 217 [Is 84 284, Is 116 284],
    Trans 281 [Set_command Cmd_setbit, Set_command Cmd_set, Set_ok] 218,
    State 218 [Is 13 33, Is 66 285, Is 98 285],
    Trans 285 [Set_command Cmd_setbit, Set_ok] 219,
    State 219 [Is 73 286, Is 105 286],
    Trans 286 [Set_command Cmd_setbit, Set_ok] 220,
    State 220 [Is 84 287, Is 116 287],
    Trans 261 [Set_command Cmd_sismember, Set_command Cmd_sinterstore, Set_command Cmd_sinter,
      Set_ok] 221,
    State 221 [Is 78 288, Is 83 289, Is 110 288, Is 115 289],
    Trans 288 [Set_command Cmd_sinterstore, Set_command Cmd_sinter, Set_ok] 222,
    State 222 [Is 84 290, Is 116 290],
    Trans 290 [Set_command Cmd_sinterstore, Set_command Cmd_sinter, Set_ok] 223,
    State 223 [Is 69 291, Is 101 291],
    Trans 291 [Set_command Cmd_sinterstore, Set_command Cmd_sinter, Set_ok] 224]"

definition fsm_part_32 :: "block list" where
  "fsm_part_32 = [
    State 224 [Is 82 292, Is 114 292],
    Trans 292 [Set_command Cmd_sinterstore, Set_command Cmd_sinter, Set_ok] 225,
    State 225 [Is 13 33, Is 83 293, Is 115 293],
    Trans 293 [Set_command Cmd_sinterstore, Set_ok] 226,
    State 226 [Is 84 294, Is 116 294],
    Trans 294 [Set_command Cmd_sinterstore, Set_ok] 227,
    State 227 [Is 79 295, Is 111 295],
    Trans 295 [Set_command Cmd_sinterstore, Set_ok] 228,
    State 228 [Is 82 296, Is 114 296],
    Trans 296 [Set_command Cmd_sinterstore, Set_ok] 229,
    State 229 [Is 69 297, Is 101 297],
    Trans 289 [Set_command Cmd_sismember, Set_ok] 230,
    State 230 [Is 77 298, Is 109 298],
    Trans 298 [Set_command Cmd_sismember, Set_ok] 231,
    State 231 [Is 69 299, Is 101 299],
    Trans 299 [Set_command Cmd_sismember, Set_ok] 232,
    State 232 [Is 77 300, Is 109 300],
    Trans 300 [Set_command Cmd_sismember, Set_ok] 233]"

definition fsm_part_33 :: "block list" where
  "fsm_part_33 = [
    State 233 [Is 66 301, Is 98 301],
    Trans 301 [Set_command Cmd_sismember, Set_ok] 234,
    State 234 [Is 69 302, Is 101 302],
    Trans 302 [Set_command Cmd_sismember, Set_ok] 235,
    State 235 [Is 82 303, Is 114 303],
    Trans 262 [Set_command Cmd_smembers, Set_command Cmd_smove, Set_ok] 236,
    State 236 [Is 69 304, Is 79 305, Is 101 304, Is 111 305],
    Trans 304 [Set_command Cmd_smembers, Set_ok] 237,
    State 237 [Is 77 306, Is 109 306],
    Trans 306 [Set_command Cmd_smembers, Set_ok] 238,
    State 238 [Is 66 307, Is 98 307],
    Trans 307 [Set_command Cmd_smembers, Set_ok] 239,
    State 239 [Is 69 308, Is 101 308],
    Trans 308 [Set_command Cmd_smembers, Set_ok] 240,
    State 240 [Is 82 309, Is 114 309],
    Trans 309 [Set_command Cmd_smembers, Set_ok] 241,
    State 241 [Is 83 310, Is 115 310],
    Trans 305 [Set_command Cmd_smove, Set_ok] 242]"

definition fsm_part_34 :: "block list" where
  "fsm_part_34 = [
    State 242 [Is 86 311, Is 118 311],
    Trans 311 [Set_command Cmd_smove, Set_ok] 243,
    State 243 [Is 69 312, Is 101 312],
    Trans 263 [Set_command Cmd_spop, Set_ok] 244,
    State 244 [Is 79 313, Is 111 313],
    Trans 313 [Set_command Cmd_spop, Set_ok] 245,
    State 245 [Is 80 314, Is 112 314],
    Trans 264 [Set_command Cmd_srem, Set_command Cmd_srandmember, Set_ok] 246,
    State 246 [Is 65 315, Is 69 316, Is 97 315, Is 101 316],
    Trans 315 [Set_command Cmd_srandmember, Set_ok] 247,
    State 247 [Is 78 317, Is 110 317],
    Trans 317 [Set_command Cmd_srandmember, Set_ok] 248,
    State 248 [Is 68 318, Is 100 318],
    Trans 318 [Set_command Cmd_srandmember, Set_ok] 249,
    State 249 [Is 77 319, Is 109 319],
    Trans 319 [Set_command Cmd_srandmember, Set_ok] 250,
    State 250 [Is 69 320, Is 101 320],
    Trans 320 [Set_command Cmd_srandmember, Set_ok] 251]"

definition fsm_part_35 :: "block list" where
  "fsm_part_35 = [
    State 251 [Is 77 321, Is 109 321],
    Trans 321 [Set_command Cmd_srandmember, Set_ok] 252,
    State 252 [Is 66 322, Is 98 322],
    Trans 322 [Set_command Cmd_srandmember, Set_ok] 253,
    State 253 [Is 69 323, Is 101 323],
    Trans 323 [Set_command Cmd_srandmember, Set_ok] 254,
    State 254 [Is 82 324, Is 114 324],
    Trans 316 [Set_command Cmd_srem, Set_ok] 255,
    State 255 [Is 77 325, Is 109 325],
    Trans 265 [Set_command Cmd_strlen, Set_ok] 256,
    State 256 [Is 82 326, Is 114 326],
    Trans 326 [Set_command Cmd_strlen, Set_ok] 257,
    State 257 [Is 76 327, Is 108 327],
    Trans 327 [Set_command Cmd_strlen, Set_ok] 258,
    State 258 [Is 69 328, Is 101 328],
    Trans 328 [Set_command Cmd_strlen, Set_ok] 259,
    State 259 [Is 78 329, Is 110 329],
    Trans 266 [Set_command Cmd_sunionstore, Set_command Cmd_sunion, Set_ok] 260]"

definition fsm_part_36 :: "block list" where
  "fsm_part_36 = [
    State 260 [Is 78 330, Is 110 330],
    Trans 330 [Set_command Cmd_sunionstore, Set_command Cmd_sunion, Set_ok] 261,
    State 261 [Is 73 331, Is 105 331],
    Trans 331 [Set_command Cmd_sunionstore, Set_command Cmd_sunion, Set_ok] 262,
    State 262 [Is 79 332, Is 111 332],
    Trans 332 [Set_command Cmd_sunionstore, Set_command Cmd_sunion, Set_ok] 263,
    State 263 [Is 78 333, Is 110 333],
    Trans 333 [Set_command Cmd_sunionstore, Set_command Cmd_sunion, Set_ok] 264,
    State 264 [Is 13 33, Is 83 334, Is 115 334],
    Trans 334 [Set_command Cmd_sunionstore, Set_ok] 265,
    State 265 [Is 84 335, Is 116 335],
    Trans 335 [Set_command Cmd_sunionstore, Set_ok] 266,
    State 266 [Is 79 336, Is 111 336],
    Trans 336 [Set_command Cmd_sunionstore, Set_ok] 267,
    State 267 [Is 82 337, Is 114 337],
    Trans 337 [Set_command Cmd_sunionstore, Set_ok] 268,
    State 268 [Is 69 338, Is 101 338]]"

definition fsm_part_37 :: "block list" where
  "fsm_part_37 = [
    Trans 26 [Set_command Cmd_type, Set_command Cmd_ttl, Set_ok] 269,
    State 269 [Is 84 339, Is 89 340, Is 116 339, Is 121 340],
    Trans 339 [Set_command Cmd_ttl, Set_ok] 270,
    State 270 [Is 76 341, Is 108 341],
    Trans 340 [Set_command Cmd_type, Set_ok] 271,
    State 271 [Is 80 342, Is 112 342],
    Trans 342 [Set_command Cmd_type, Set_ok] 272,
    State 272 [Is 69 343, Is 101 343],
    Trans 27 [Set_command Cmd_zadd, Set_command Cmd_zcard, Set_command Cmd_zcount, Set_command
      Cmd_zincrby, Set_command Cmd_zrangebyscore, Set_command Cmd_zrank, Set_command
      Cmd_zremrangebyrank, Set_command Cmd_zremrangebyscore, Set_command Cmd_zremrangebylex,
      Set_command Cmd_zrem, Set_command Cmd_zrevrangebyscore, Set_command Cmd_zrevrange,
      Set_command Cmd_zrevrank, Set_command Cmd_zscore, Set_command Cmd_zunionstore, Set_command
      Cmd_zinterstore, Set_command Cmd_zdiffstore, Set_command Cmd_zunion, Set_command
      Cmd_zinter, Set_command Cmd_zdiff, Set_command Cmd_zscan, Set_command Cmd_zrangebylex,
      Set_command Cmd_zlexcount, Set_command Cmd_zrange, Set_ok] 273,
    State 273 [Is 65 344, Is 67 345, Is 68 346, Is 73 347, Is 76 348, Is 82 349, Is 83 350, Is
      85 351, Is 97 344, Is 99 345, Is 100 346, Is 105 347, Is 108 348, Is 114 349, Is 115 350,
      Is 117 351],
    Trans 344 [Set_command Cmd_zadd, Set_ok] 274]"

definition fsm_part_38 :: "block list" where
  "fsm_part_38 = [
    State 274 [Is 68 352, Is 100 352],
    Trans 352 [Set_command Cmd_zadd, Set_ok] 275,
    State 275 [Is 68 353, Is 100 353],
    Trans 345 [Set_command Cmd_zcard, Set_command Cmd_zcount, Set_ok] 276,
    State 276 [Is 65 354, Is 79 355, Is 97 354, Is 111 355],
    Trans 354 [Set_command Cmd_zcard, Set_ok] 277,
    State 277 [Is 82 356, Is 114 356],
    Trans 356 [Set_command Cmd_zcard, Set_ok] 278,
    State 278 [Is 68 357, Is 100 357],
    Trans 355 [Set_command Cmd_zcount, Set_ok] 279,
    State 279 [Is 85 358, Is 117 358],
    Trans 358 [Set_command Cmd_zcount, Set_ok] 280,
    State 280 [Is 78 359, Is 110 359],
    Trans 359 [Set_command Cmd_zcount, Set_ok] 281,
    State 281 [Is 84 360, Is 116 360],
    Trans 346 [Set_command Cmd_zdiffstore, Set_ok] 282,
    State 282 [Is 73 361, Is 105 361],
    Trans 361 [Set_command Cmd_zdiffstore, Set_ok] 283]"

definition fsm_part_39 :: "block list" where
  "fsm_part_39 = [
    State 283 [Is 70 362, Is 102 362],
    Trans 362 [Set_command Cmd_zdiffstore, Set_ok] 284,
    State 284 [Is 70 363, Is 102 363],
    Trans 363 [Set_command Cmd_zdiffstore, Set_ok] 285,
    State 285 [Is 83 364, Is 115 364],
    Trans 364 [Set_command Cmd_zdiffstore, Set_ok] 286,
    State 286 [Is 84 365, Is 116 365],
    Trans 365 [Set_command Cmd_zdiffstore, Set_ok] 287,
    State 287 [Is 79 366, Is 111 366],
    Trans 366 [Set_command Cmd_zdiffstore, Set_ok] 288,
    State 288 [Is 82 367, Is 114 367],
    Trans 367 [Set_command Cmd_zdiffstore, Set_ok] 289,
    State 289 [Is 69 368, Is 101 368],
    Trans 347 [Set_command Cmd_zincrby, Set_command Cmd_zinterstore, Set_command Cmd_zinter,
      Set_ok] 290,
    State 290 [Is 78 369, Is 110 369],
    Trans 369 [Set_command Cmd_zincrby, Set_command Cmd_zinterstore, Set_command Cmd_zinter,
      Set_ok] 291,
    State 291 [Is 67 370, Is 84 371, Is 99 370, Is 116 371]]"

definition fsm_part_40 :: "block list" where
  "fsm_part_40 = [
    Trans 370 [Set_command Cmd_zincrby, Set_ok] 292,
    State 292 [Is 82 372, Is 114 372],
    Trans 372 [Set_command Cmd_zincrby, Set_ok] 293,
    State 293 [Is 66 373, Is 98 373],
    Trans 373 [Set_command Cmd_zincrby, Set_ok] 294,
    State 294 [Is 89 374, Is 121 374],
    Trans 371 [Set_command Cmd_zinterstore, Set_command Cmd_zinter, Set_ok] 295,
    State 295 [Is 69 375, Is 101 375],
    Trans 375 [Set_command Cmd_zinterstore, Set_command Cmd_zinter, Set_ok] 296,
    State 296 [Is 82 376, Is 114 376],
    Trans 376 [Set_command Cmd_zinterstore, Set_command Cmd_zinter, Set_ok] 297,
    State 297 [Is 13 33, Is 83 377, Is 115 377],
    Trans 377 [Set_command Cmd_zinterstore, Set_ok] 298,
    State 298 [Is 84 378, Is 116 378],
    Trans 378 [Set_command Cmd_zinterstore, Set_ok] 299,
    State 299 [Is 79 379, Is 111 379],
    Trans 379 [Set_command Cmd_zinterstore, Set_ok] 300]"

definition fsm_part_41 :: "block list" where
  "fsm_part_41 = [
    State 300 [Is 82 380, Is 114 380],
    Trans 380 [Set_command Cmd_zinterstore, Set_ok] 301,
    State 301 [Is 69 381, Is 101 381],
    Trans 348 [Set_command Cmd_zlexcount, Set_ok] 302,
    State 302 [Is 69 382, Is 101 382],
    Trans 382 [Set_command Cmd_zlexcount, Set_ok] 303,
    State 303 [Is 88 383, Is 120 383],
    Trans 383 [Set_command Cmd_zlexcount, Set_ok] 304,
    State 304 [Is 67 384, Is 99 384],
    Trans 384 [Set_command Cmd_zlexcount, Set_ok] 305,
    State 305 [Is 79 385, Is 111 385],
    Trans 385 [Set_command Cmd_zlexcount, Set_ok] 306,
    State 306 [Is 85 386, Is 117 386],
    Trans 386 [Set_command Cmd_zlexcount, Set_ok] 307,
    State 307 [Is 78 387, Is 110 387],
    Trans 387 [Set_command Cmd_zlexcount, Set_ok] 308,
    State 308 [Is 84 388, Is 116 388]]"

definition fsm_part_42 :: "block list" where
  "fsm_part_42 = [
    Trans 349 [Set_command Cmd_zrangebyscore, Set_command Cmd_zrank, Set_command
      Cmd_zremrangebyrank, Set_command Cmd_zremrangebyscore, Set_command Cmd_zremrangebylex,
      Set_command Cmd_zrem, Set_command Cmd_zrevrangebyscore, Set_command Cmd_zrevrange,
      Set_command Cmd_zrevrank, Set_command Cmd_zrangebylex, Set_command Cmd_zrange, Set_ok] 309,
    State 309 [Is 65 389, Is 69 390, Is 97 389, Is 101 390],
    Trans 389 [Set_command Cmd_zrangebyscore, Set_command Cmd_zrank, Set_command
      Cmd_zrangebylex, Set_command Cmd_zrange, Set_ok] 310,
    State 310 [Is 78 391, Is 110 391],
    Trans 391 [Set_command Cmd_zrangebyscore, Set_command Cmd_zrank, Set_command
      Cmd_zrangebylex, Set_command Cmd_zrange, Set_ok] 311,
    State 311 [Is 71 392, Is 75 393, Is 103 392, Is 107 393],
    Trans 392 [Set_command Cmd_zrangebyscore, Set_command Cmd_zrangebylex, Set_command
      Cmd_zrange, Set_ok] 312,
    State 312 [Is 69 394, Is 101 394],
    Trans 394 [Set_command Cmd_zrangebyscore, Set_command Cmd_zrangebylex, Set_command
      Cmd_zrange, Set_ok] 313,
    State 313 [Is 13 33, Is 66 395, Is 98 395],
    Trans 395 [Set_command Cmd_zrangebyscore, Set_command Cmd_zrangebylex, Set_ok] 314,
    State 314 [Is 89 396, Is 121 396]]"

definition fsm_part_43 :: "block list" where
  "fsm_part_43 = [
    Trans 396 [Set_command Cmd_zrangebyscore, Set_command Cmd_zrangebylex, Set_ok] 315,
    State 315 [Is 76 397, Is 83 398, Is 108 397, Is 115 398],
    Trans 397 [Set_command Cmd_zrangebylex, Set_ok] 316,
    State 316 [Is 69 399, Is 101 399],
    Trans 399 [Set_command Cmd_zrangebylex, Set_ok] 317,
    State 317 [Is 88 400, Is 120 400],
    Trans 398 [Set_command Cmd_zrangebyscore, Set_ok] 318,
    State 318 [Is 67 401, Is 99 401],
    Trans 401 [Set_command Cmd_zrangebyscore, Set_ok] 319,
    State 319 [Is 79 402, Is 111 402],
    Trans 402 [Set_command Cmd_zrangebyscore, Set_ok] 320,
    State 320 [Is 82 403, Is 114 403],
    Trans 403 [Set_command Cmd_zrangebyscore, Set_ok] 321,
    State 321 [Is 69 404, Is 101 404],
    Trans 390 [Set_command Cmd_zremrangebyrank, Set_command Cmd_zremrangebyscore, Set_command
      Cmd_zremrangebylex, Set_command Cmd_zrem, Set_command Cmd_zrevrangebyscore, Set_command
      Cmd_zrevrange, Set_command Cmd_zrevrank, Set_ok] 322,
    State 322 [Is 77 405, Is 86 406, Is 109 405, Is 118 406]]"

definition fsm_part_44 :: "block list" where
  "fsm_part_44 = [
    Trans 405 [Set_command Cmd_zremrangebyrank, Set_command Cmd_zremrangebyscore, Set_command
      Cmd_zremrangebylex, Set_command Cmd_zrem, Set_ok] 323,
    State 323 [Is 13 33, Is 82 407, Is 114 407],
    Trans 407 [Set_command Cmd_zremrangebyrank, Set_command Cmd_zremrangebyscore, Set_command
      Cmd_zremrangebylex, Set_ok] 324,
    State 324 [Is 65 408, Is 97 408],
    Trans 408 [Set_command Cmd_zremrangebyrank, Set_command Cmd_zremrangebyscore, Set_command
      Cmd_zremrangebylex, Set_ok] 325,
    State 325 [Is 78 409, Is 110 409],
    Trans 409 [Set_command Cmd_zremrangebyrank, Set_command Cmd_zremrangebyscore, Set_command
      Cmd_zremrangebylex, Set_ok] 326,
    State 326 [Is 71 410, Is 103 410],
    Trans 410 [Set_command Cmd_zremrangebyrank, Set_command Cmd_zremrangebyscore, Set_command
      Cmd_zremrangebylex, Set_ok] 327,
    State 327 [Is 69 411, Is 101 411],
    Trans 411 [Set_command Cmd_zremrangebyrank, Set_command Cmd_zremrangebyscore, Set_command
      Cmd_zremrangebylex, Set_ok] 328,
    State 328 [Is 66 412, Is 98 412],
    Trans 412 [Set_command Cmd_zremrangebyrank, Set_command Cmd_zremrangebyscore, Set_command
      Cmd_zremrangebylex, Set_ok] 329,
    State 329 [Is 89 413, Is 121 413]]"

definition fsm_part_45 :: "block list" where
  "fsm_part_45 = [
    Trans 413 [Set_command Cmd_zremrangebyrank, Set_command Cmd_zremrangebyscore, Set_command
      Cmd_zremrangebylex, Set_ok] 330,
    State 330 [Is 76 414, Is 82 415, Is 83 416, Is 108 414, Is 114 415, Is 115 416],
    Trans 414 [Set_command Cmd_zremrangebylex, Set_ok] 331,
    State 331 [Is 69 417, Is 101 417],
    Trans 417 [Set_command Cmd_zremrangebylex, Set_ok] 332,
    State 332 [Is 88 418, Is 120 418],
    Trans 415 [Set_command Cmd_zremrangebyrank, Set_ok] 333,
    State 333 [Is 65 419, Is 97 419],
    Trans 419 [Set_command Cmd_zremrangebyrank, Set_ok] 334,
    State 334 [Is 78 420, Is 110 420],
    Trans 420 [Set_command Cmd_zremrangebyrank, Set_ok] 335,
    State 335 [Is 75 421, Is 107 421],
    Trans 416 [Set_command Cmd_zremrangebyscore, Set_ok] 336,
    State 336 [Is 67 422, Is 99 422],
    Trans 422 [Set_command Cmd_zremrangebyscore, Set_ok] 337,
    State 337 [Is 79 423, Is 111 423],
    Trans 423 [Set_command Cmd_zremrangebyscore, Set_ok] 338]"

definition fsm_part_46 :: "block list" where
  "fsm_part_46 = [
    State 338 [Is 82 424, Is 114 424],
    Trans 424 [Set_command Cmd_zremrangebyscore, Set_ok] 339,
    State 339 [Is 69 425, Is 101 425],
    Trans 406 [Set_command Cmd_zrevrangebyscore, Set_command Cmd_zrevrange, Set_command
      Cmd_zrevrank, Set_ok] 340,
    State 340 [Is 82 426, Is 114 426],
    Trans 426 [Set_command Cmd_zrevrangebyscore, Set_command Cmd_zrevrange, Set_command
      Cmd_zrevrank, Set_ok] 341,
    State 341 [Is 65 427, Is 97 427],
    Trans 427 [Set_command Cmd_zrevrangebyscore, Set_command Cmd_zrevrange, Set_command
      Cmd_zrevrank, Set_ok] 342,
    State 342 [Is 78 428, Is 110 428],
    Trans 428 [Set_command Cmd_zrevrangebyscore, Set_command Cmd_zrevrange, Set_command
      Cmd_zrevrank, Set_ok] 343,
    State 343 [Is 71 429, Is 75 430, Is 103 429, Is 107 430],
    Trans 429 [Set_command Cmd_zrevrangebyscore, Set_command Cmd_zrevrange, Set_ok] 344,
    State 344 [Is 69 431, Is 101 431],
    Trans 431 [Set_command Cmd_zrevrangebyscore, Set_command Cmd_zrevrange, Set_ok] 345,
    State 345 [Is 13 33, Is 66 432, Is 98 432]]"

definition fsm_part_47 :: "block list" where
  "fsm_part_47 = [
    Trans 432 [Set_command Cmd_zrevrangebyscore, Set_ok] 346,
    State 346 [Is 89 433, Is 121 433],
    Trans 433 [Set_command Cmd_zrevrangebyscore, Set_ok] 347,
    State 347 [Is 83 434, Is 115 434],
    Trans 434 [Set_command Cmd_zrevrangebyscore, Set_ok] 348,
    State 348 [Is 67 435, Is 99 435],
    Trans 435 [Set_command Cmd_zrevrangebyscore, Set_ok] 349,
    State 349 [Is 79 436, Is 111 436],
    Trans 436 [Set_command Cmd_zrevrangebyscore, Set_ok] 350,
    State 350 [Is 82 437, Is 114 437],
    Trans 437 [Set_command Cmd_zrevrangebyscore, Set_ok] 351,
    State 351 [Is 69 438, Is 101 438],
    Trans 350 [Set_command Cmd_zscore, Set_command Cmd_zscan, Set_ok] 352,
    State 352 [Is 67 439, Is 99 439],
    Trans 439 [Set_command Cmd_zscore, Set_command Cmd_zscan, Set_ok] 353,
    State 353 [Is 65 440, Is 79 441, Is 97 440, Is 111 441],
    Trans 440 [Set_command Cmd_zscan, Set_ok] 354,
    State 354 [Is 78 442, Is 110 442]]"

definition fsm_part_48 :: "block list" where
  "fsm_part_48 = [
    Trans 441 [Set_command Cmd_zscore, Set_ok] 355,
    State 355 [Is 82 443, Is 114 443],
    Trans 443 [Set_command Cmd_zscore, Set_ok] 356,
    State 356 [Is 69 444, Is 101 444],
    Trans 351 [Set_command Cmd_zunionstore, Set_command Cmd_zunion, Set_command Cmd_zdiff,
      Set_ok] 357,
    State 357 [Is 78 445, Is 110 445],
    Trans 445 [Set_command Cmd_zunionstore, Set_command Cmd_zunion, Set_command Cmd_zdiff,
      Set_ok] 358,
    State 358 [Is 73 446, Is 105 446],
    Trans 446 [Set_command Cmd_zunionstore, Set_command Cmd_zunion, Set_command Cmd_zdiff,
      Set_ok] 359,
    State 359 [Is 79 447, Is 111 447],
    Trans 447 [Set_command Cmd_zunionstore, Set_command Cmd_zunion, Set_command Cmd_zdiff,
      Set_ok] 360,
    State 360 [Is 78 448, Is 110 448],
    Trans 448 [Set_command Cmd_zunionstore, Set_command Cmd_zunion, Set_command Cmd_zdiff,
      Set_ok] 361,
    State 361 [Is 13 33, Is 83 449, Is 115 449],
    Trans 449 [Set_command Cmd_zunionstore, Set_ok] 362,
    State 362 [Is 84 450, Is 116 450]]"

definition fsm_part_49 :: "block list" where
  "fsm_part_49 = [
    Trans 450 [Set_command Cmd_zunionstore, Set_ok] 363,
    State 363 [Is 79 451, Is 111 451],
    Trans 451 [Set_command Cmd_zunionstore, Set_ok] 364,
    State 364 [Is 82 452, Is 114 452],
    Trans 452 [Set_command Cmd_zunionstore, Set_ok] 365,
    State 365 [Is 69 453, Is 101 453],
    State 366 [Always 454],
    Trans 454 [Start_blob, Advance_blob] 368,
    Trans 455 [Advance_blob] 368,
    State 368 [Always 455]]"

definition fsm_blocks :: "block list" where
  "fsm_blocks =
    fsm_part_01 @ fsm_part_02 @ fsm_part_03 @ fsm_part_04 @ fsm_part_05 @ fsm_part_06 @
    fsm_part_07 @ fsm_part_08 @ fsm_part_09 @ fsm_part_10 @ fsm_part_11 @ fsm_part_12 @
    fsm_part_13 @ fsm_part_14 @ fsm_part_15 @ fsm_part_16 @ fsm_part_17 @ fsm_part_18 @
    fsm_part_19 @ fsm_part_20 @ fsm_part_21 @ fsm_part_22 @ fsm_part_23 @ fsm_part_24 @
    fsm_part_25 @ fsm_part_26 @ fsm_part_27 @ fsm_part_28 @ fsm_part_29 @ fsm_part_30 @
    fsm_part_31 @ fsm_part_32 @ fsm_part_33 @ fsm_part_34 @ fsm_part_35 @ fsm_part_36 @
    fsm_part_37 @ fsm_part_38 @ fsm_part_39 @ fsm_part_40 @ fsm_part_41 @ fsm_part_42 @
    fsm_part_43 @ fsm_part_44 @ fsm_part_45 @ fsm_part_46 @ fsm_part_47 @ fsm_part_48 @
    fsm_part_49"

lemmas fsm_part_defs =
  fsm_part_01_def fsm_part_02_def fsm_part_03_def fsm_part_04_def fsm_part_05_def
  fsm_part_06_def fsm_part_07_def fsm_part_08_def fsm_part_09_def fsm_part_10_def
  fsm_part_11_def fsm_part_12_def fsm_part_13_def fsm_part_14_def fsm_part_15_def
  fsm_part_16_def fsm_part_17_def fsm_part_18_def fsm_part_19_def fsm_part_20_def
  fsm_part_21_def fsm_part_22_def fsm_part_23_def fsm_part_24_def fsm_part_25_def
  fsm_part_26_def fsm_part_27_def fsm_part_28_def fsm_part_29_def fsm_part_30_def
  fsm_part_31_def fsm_part_32_def fsm_part_33_def fsm_part_34_def fsm_part_35_def
  fsm_part_36_def fsm_part_37_def fsm_part_38_def fsm_part_39_def fsm_part_40_def
  fsm_part_41_def fsm_part_42_def fsm_part_43_def fsm_part_44_def fsm_part_45_def
  fsm_part_46_def fsm_part_47_def fsm_part_48_def fsm_part_49_def

section \<open>Looking up labels\<close>

definition state_blocks :: "block list \<Rightarrow> (int \<times> fsm_test list) list" where
  "state_blocks bs = concat (map (\<lambda>b. case b of State n ts \<Rightarrow> [(n, ts)] | _ \<Rightarrow> []) bs)"

definition trans_blocks :: "block list \<Rightarrow> (int \<times> fsm_act list \<times> int) list" where
  "trans_blocks bs = concat (map (\<lambda>b. case b of Trans n acts m \<Rightarrow> [(n, acts, m)] | _ \<Rightarrow> []) bs)"

definition fsm_case :: "int \<Rightarrow> fsm_test list option" where
  "fsm_case n = map_of (state_blocks fsm_blocks) n"

definition fsm_trans :: "int \<Rightarrow> (fsm_act list \<times> int) option" where
  "fsm_trans n = map_of (trans_blocks fsm_blocks) n"

section \<open>One equation for every label\<close>

text \<open>No label is declared twice, so a lookup finds the block of its label.\<close>

definition state_labels :: "int list" where
  "state_labels = map fst (state_blocks fsm_blocks)"

definition trans_labels :: "int list" where
  "trans_labels = map fst (trans_blocks fsm_blocks)"

lemma state_blocks_simps [simp]:
  "state_blocks [] = []"
  "state_blocks (State n ts # bs) = (n, ts) # state_blocks bs"
  "state_blocks (Error_state # bs) = state_blocks bs"
  "state_blocks (Trans n acts m # bs) = state_blocks bs"
  "state_blocks (bs @ cs) = state_blocks bs @ state_blocks cs"
  by (simp_all add: state_blocks_def)

lemma trans_blocks_simps [simp]:
  "trans_blocks [] = []"
  "trans_blocks (State n ts # bs) = trans_blocks bs"
  "trans_blocks (Error_state # bs) = trans_blocks bs"
  "trans_blocks (Trans n acts m # bs) = (n, acts, m) # trans_blocks bs"
  "trans_blocks (bs @ cs) = trans_blocks bs @ trans_blocks cs"
  by (simp_all add: trans_blocks_def)

lemma state_labels_eq: "state_labels = [1..22] @ [367] @ [23..366] @ [368]"
  unfolding state_labels_def fsm_blocks_def fsm_part_defs by (simp add: upto_rec1 [of 1])

lemma distinct_state_labels: "distinct state_labels"
  unfolding state_labels_eq by auto

lemma distinct_trans_labels: "distinct trans_labels"
  unfolding trans_labels_def fsm_blocks_def fsm_part_defs by simp

primrec block_found :: "block \<Rightarrow> bool" where
  "block_found (State n ts) \<longleftrightarrow> fsm_case n = Some ts"
| "block_found Error_state \<longleftrightarrow> True"
| "block_found (Trans n acts m) \<longleftrightarrow> fsm_trans n = Some (acts, m)"

lemma in_state_blocks: "State n ts \<in> set bs \<Longrightarrow> (n, ts) \<in> set (state_blocks bs)"
  by (induction bs) (auto simp: state_blocks_def)

lemma in_trans_blocks: "Trans n acts m \<in> set bs \<Longrightarrow> (n, acts, m) \<in> set (trans_blocks bs)"
  by (induction bs) (auto simp: trans_blocks_def)

lemma blocks_found: "list_all block_found fsm_blocks"
  unfolding list_all_iff
proof
  fix b assume b: "b \<in> set fsm_blocks"
  show "block_found b"
  proof (cases b)
    case (State n ts)
    then have "(n, ts) \<in> set (state_blocks fsm_blocks)"
      using b in_state_blocks by metis
    then show ?thesis
      using State distinct_state_labels by (simp add: fsm_case_def state_labels_def)
  next
    case (Trans n acts m)
    then have "(n, acts, m) \<in> set (trans_blocks fsm_blocks)"
      using b in_trans_blocks by metis
    then show ?thesis
      using Trans distinct_trans_labels by (simp add: fsm_trans_def trans_labels_def)
  qed simp
qed

lemmas fsm_lookups = blocks_found
  [unfolded fsm_blocks_def fsm_part_defs list_all_append list.pred_inject block_found.simps]

end
