(* ===== verification/Text.thy ===== *)
theory Text
  imports Prelude
begin

text \<open>
  Text: the value of a \<^verbatim>\<open>char\<close>, numbers in decimal as \<^verbatim>\<open>to_sstring\<close> writes them, and lines that end
  in CR LF. \<open>until_crlf\<close> is how the readers of the specifications take a line off their input.
\<close>

section \<open>Characters\<close>

abbreviation "CR \<equiv> CHR 0x0D"
abbreviation "LF \<equiv> CHR 0x0A"

text \<open>A \<^verbatim>\<open>char\<close> is signed.\<close>

definition schar :: "char \<Rightarrow> int" where
  "schar c = (let n = of_char c :: int in if n < 128 then n else n - 256)"

lemma char_code_less: "(of_char c :: nat) < 256"
proof -
  have "(of_char c :: nat) \<in> {0..<256}"
    using range_nat_of_char by blast
  then show ?thesis by simp
qed

lemma schar_code:
  "schar c = (if (of_char c :: nat) < 128 then int (of_char c) else int (of_char c) - 256)"
proof -
  have "(of_char c :: int) = int (of_char c)"
    by (rule of_nat_of_char [symmetric])
  then show ?thesis
    unfolding schar_def Let_def by simp
qed

lemma schar_char_of: "n < 128 \<Longrightarrow> schar (char_of (n :: nat)) = int n"
  unfolding schar_code by simp

section \<open>Numbers\<close>

fun decimal :: "nat \<Rightarrow> string" where
  "decimal n = (if n < 10 then [char_of (48 + n)] else decimal (n div 10) @ [char_of (48 + n mod 10)])"

declare decimal.simps [simp del]

definition read_decimal :: "string \<Rightarrow> nat" where
  "read_decimal ds = foldl (\<lambda>n c. 10 * n + (of_char c - 48)) 0 ds"

lemma of_char_digit: "n < 10 \<Longrightarrow> (of_char (char_of (48 + n :: nat)) :: nat) = 48 + n"
  by simp

lemma read_decimal [simp]: "read_decimal (decimal n) = n"
proof (induction n rule: decimal.induct)
  case (1 n)
  show ?case
  proof (cases "n < 10")
    case True
    then show ?thesis
      by (subst decimal.simps) (simp add: read_decimal_def)
  next
    case False
    then have "decimal n = decimal (n div 10) @ [char_of (48 + n mod 10)]"
      by (subst decimal.simps) simp
    then show ?thesis
      using 1 [OF False] False by (simp add: read_decimal_def)
  qed
qed

lemma decimal_chars: "c \<in> set (decimal n) \<Longrightarrow> 48 \<le> (of_char c :: nat) \<and> (of_char c :: nat) \<le> 57"
proof (induction n rule: decimal.induct)
  case (1 n)
  then show ?case
    by (subst (asm) (2) decimal.simps) (auto split: if_splits)
qed

lemma decimal_no_CR [simp]: "CR \<notin> set (decimal n)"
  using decimal_chars [of CR n] by auto

section \<open>Lines\<close>

abbreviation "crlf \<equiv> [CR, LF]"

fun until_crlf :: "string \<Rightarrow> (string \<times> string) option" where
  "until_crlf (c # d # r) = (if c = CR \<and> d = LF then Some ([], r)
     else (case until_crlf (d # r) of None \<Rightarrow> None | Some (l, r) \<Rightarrow> Some (c # l, r)))"
| "until_crlf _ = None"

lemma until_crlf_line: "CR \<notin> set l \<Longrightarrow> until_crlf (l @ CR # LF # r) = Some (l, r)"
proof (induction l)
  case Nil
  then show ?case by simp
next
  case (Cons c l)
  then show ?case by (cases l) auto
qed

section \<open>Streams of framed items\<close>

text \<open>A reader of one item from the front of a text, used so many times.\<close>

fun read_many :: "(string \<Rightarrow> ('b \<times> string) option) \<Rightarrow> nat \<Rightarrow> string \<Rightarrow> ('b list \<times> string) option" where
  "read_many rd 0 s = Some ([], s)"
| "read_many rd (Suc k) s = (case rd s of
      None \<Rightarrow> None
    | Some (x, r) \<Rightarrow> map_option (\<lambda>(xs, r). (x # xs, r)) (read_many rd k r))"

text \<open>
  What a protocol promises its client: an item is read back whatever follows it, and the reader stops at its
  end. Then whole streams are read back, and different streams have different texts.
\<close>

locale framed =
  fixes put :: "'a \<Rightarrow> string" and rd :: "string \<Rightarrow> ('b \<times> string) option" and ok :: "'a \<Rightarrow> bool" and view :: "'a \<Rightarrow> 'b"
  assumes reads: "ok x \<Longrightarrow> rd (put x @ rest) = Some (view x, rest)"
begin

lemma stream_read: "list_all ok xs \<Longrightarrow> read_many rd (length xs) (concat (map put xs) @ rest) = Some (map view xs, rest)"
  by (induction xs) (simp_all add: reads)

lemma stream_whole: "list_all ok xs \<Longrightarrow> read_many rd (length xs) (concat (map put xs)) = Some (map view xs, [])"
  using stream_read [of xs "[]"] by simp

end

section \<open>C strings\<close>

text \<open>What \<^verbatim>\<open>c_str()\<close> shows of a string, and what a \<^verbatim>\<open>char*\<close> to its bytes and a final zero is read as.\<close>

abbreviation NUL :: char where
  "NUL \<equiv> CHR 0x00"

definition c_str :: "string \<Rightarrow> string" where
  "c_str s = takeWhile (\<lambda>c. c \<noteq> NUL) s"

lemma c_str_simps: "NUL \<notin> set a \<Longrightarrow> c_str (a @ NUL # b) = a" "NUL \<notin> set a \<Longrightarrow> c_str a = a"
  "c_str (a @ replicate n NUL) = c_str a"
proof -
  show "NUL \<notin> set a \<Longrightarrow> c_str (a @ NUL # b) = a" "NUL \<notin> set a \<Longrightarrow> c_str a = a"
    unfolding c_str_def by (induction a) auto
  show "c_str (a @ replicate n NUL) = c_str a"
    unfolding c_str_def by (induction a) (cases n; auto)+
qed

end
