(* ===== verification/Redis_Parser.thy ===== *)
theory Redis_Parser
  imports Redis_Fsm Text
begin
text \<open>
  What the parser of \<^verbatim>\<open>src/include/redis_protocol_parser.hh\<close> does with the blocks of theory
  \<open>Redis_Fsm\<close>: its state, \<^verbatim>\<open>init\<close>, the actions, the control flow of the generated code and \<^verbatim>\<open>parse\<close>.

  Positions are the differences of the pointers \<^verbatim>\<open>p\<close> to the start of the buffer (\<^verbatim>\<open>p\<close> may be one
  before the buffer for a moment, so they are \<open>int\<close>s), \<^verbatim>\<open>pe\<close> is \<open>int (length buf)\<close>. Seastar's
  \<^verbatim>\<open>sstring_builder\<close>, which the class uses through its base \<^verbatim>\<open>ragel_parser_base\<close>, is not part of
  the repository: it is the parameter \<open>sb\<close>, a record of its operations. \<^verbatim>\<open>prepush\<close>, which makes room
  on the stack of states, is the growth of the list \<open>fsm_stack\<close>.

  The proofs read the automaton through \<open>resume\<close>: to resume in a state at a position either stops
  at the end of the buffer or runs the case of the state.
\<close>

section \<open>State\<close>

datatype parser_state = State_error | State_eof | State_ok

record 'b sstring_builder =
  sb_reset :: "'b \<Rightarrow> 'b"                         \<comment> \<open>\<^verbatim>\<open>reset()\<close>\<close>
  sb_guard :: "string \<Rightarrow> int \<Rightarrow> 'b \<Rightarrow> 'b"         \<comment> \<open>\<^verbatim>\<open>guard(builder, p, pe)\<close>\<close>
  sb_unguard :: "string \<Rightarrow> 'b \<Rightarrow> 'b"             \<comment> \<open>\<^verbatim>\<open>~guard()\<close>\<close>
  sb_mark_start :: "int \<Rightarrow> 'b \<Rightarrow> 'b"             \<comment> \<open>\<^verbatim>\<open>mark_start(p)\<close>\<close>
  sb_mark_end :: "string \<Rightarrow> int \<Rightarrow> 'b \<Rightarrow> 'b"      \<comment> \<open>\<^verbatim>\<open>mark_end(p)\<close>\<close>
  sb_get :: "'b \<Rightarrow> string \<times> 'b"                  \<comment> \<open>\<^verbatim>\<open>std::move(builder).get()\<close>\<close>

record 'b parser =
  fsm_cs :: int
  fsm_stack :: "int list"      \<comment> \<open>\<^verbatim>\<open>_fsm_stack[0 .. _fsm_top)\<close>, the top first\<close>
  p_state :: parser_state
  p_command :: command
  p_u32 :: u32
  p_arg_size :: u32
  p_args_count :: u32
  p_size_left :: u32
  p_args_list :: "string list"
  p_builder :: 'b

definition init :: "'b sstring_builder \<Rightarrow> 'b parser \<Rightarrow> 'b parser" where
  "init sb s = s\<lparr>p_builder := sb_reset sb (p_builder s), p_state := State_error, p_args_list := [],
     p_args_count := 0, p_size_left := 0, p_arg_size := 0, fsm_cs := 1, fsm_stack := []\<rparr>"

section \<open>Actions\<close>

text \<open>\<open>read_at\<close> is \<^verbatim>\<open>*p\<close>, a signed \<^verbatim>\<open>char\<close>.\<close>

definition read_at :: "string \<Rightarrow> int \<Rightarrow> int res" where
  "read_at buf p = (if 0 \<le> p \<and> p < int (length buf) then rok (schar (buf ! nat p))
     else rfail Out_of_bounds)"

text \<open>
  What happens after an action: the next action, \<^verbatim>\<open>goto stn\<close>, or \<^verbatim>\<open>goto _again\<close>.
\<close>

datatype jump = Next_action | Goto_st int | Goto_again

definition digit_u32 :: "string \<Rightarrow> 'b parser \<Rightarrow> int \<Rightarrow> 'b parser res" where
  "digit_u32 buf s p = rbind (read_at buf p)
     (\<lambda>c. rok (s\<lparr>p_u32 := p_u32 s * 10 + word_of_int (c - 48)\<rparr>))"

definition start_blob :: "'b sstring_builder \<Rightarrow> 'b parser \<Rightarrow> int \<Rightarrow> 'b parser" where
  "start_blob sb s p = s\<lparr>p_builder := sb_mark_start sb p (p_builder s), p_size_left := p_arg_size s\<rparr>"

definition advance_blob ::
  "'b sstring_builder \<Rightarrow> string \<Rightarrow> 'b parser \<Rightarrow> int \<Rightarrow> (jump \<times> 'b parser \<times> int) res" where
  "advance_blob sb buf s p = (
     let len = min (word_of_int (int (length buf) - p)) (p_size_left s);
         s1 = s\<lparr>p_size_left := p_size_left s - len\<rparr>;
         p1 = p + uint len
     in if p_size_left s1 = 0 then
          (let (str, b) = sb_get sb (sb_mark_end sb buf p1 (p_builder s1));
               s2 = s1\<lparr>p_args_list := p_args_list s1 @ [str], p_builder := b\<rparr>
           in case fsm_stack s2 of
                [] \<Rightarrow> rfail Out_of_bounds
              | m # st \<Rightarrow> rok (Goto_again, s2\<lparr>fsm_cs := m, fsm_stack := st\<rparr>, p1 - 1))
        else rok (Next_action, s1, p1 - 1))"

definition run_act ::
  "'b sstring_builder \<Rightarrow> string \<Rightarrow> fsm_act \<Rightarrow> 'b parser \<Rightarrow> int \<Rightarrow> (jump \<times> 'b parser \<times> int) res" where
  "run_act sb buf a s p = (case a of
      Set_ok \<Rightarrow> rok (Next_action, s\<lparr>p_state := State_ok\<rparr>, p)
    | Zero_u32 \<Rightarrow> rok (Next_action, s\<lparr>p_u32 := 0\<rparr>, p)
    | Digit_u32 \<Rightarrow> rbind (digit_u32 buf s p) (\<lambda>s'. rok (Next_action, s', p))
    | Take_args_count \<Rightarrow> rok (Next_action, s\<lparr>p_args_count := p_u32 s\<rparr>, p)
    | Take_arg_size \<Rightarrow> rok (Next_action, s\<lparr>p_arg_size := p_u32 s\<rparr>, p)
    | Set_command c \<Rightarrow> rok (Next_action, s\<lparr>p_command := c\<rparr>, p)
    | Call_blob n \<Rightarrow> rok (Goto_st 366, s\<lparr>fsm_stack := n # fsm_stack s\<rparr>, p)
    | Start_blob \<Rightarrow> rok (Next_action, start_blob sb s p, p)
    | Advance_blob \<Rightarrow> advance_blob sb buf s p)"

text \<open>The block of a transition: its actions, then \<^verbatim>\<open>goto stm\<close>.\<close>

fun run_acts ::
  "'b sstring_builder \<Rightarrow> string \<Rightarrow> fsm_act list \<Rightarrow> int \<Rightarrow> 'b parser \<Rightarrow> int
    \<Rightarrow> (jump \<times> 'b parser \<times> int) res" where
  "run_acts sb buf [] m s p = rok (Goto_st m, s, p)"
| "run_acts sb buf (a # as) m s p = rbind (run_act sb buf a s p)
     (\<lambda>(j, s', p'). if j = Next_action then run_acts sb buf as m s' p' else rok (j, s', p'))"

section \<open>Control flow\<close>

text \<open>The first test that applies to \<^verbatim>\<open>*p\<close>.\<close>

fun pick_test :: "fsm_test list \<Rightarrow> int \<Rightarrow> int option" where
  "pick_test [] c = None"
| "pick_test (t # ts) c = (case t of
      Is x n \<Rightarrow> if c = x then Some n else pick_test ts c
    | Between lo hi n \<Rightarrow> if lo \<le> c \<and> c \<le> hi then Some n else pick_test ts c
    | Always n \<Rightarrow> Some n)"

text \<open>Where the code goes on: out of the machine, or into \<^verbatim>\<open>case n\<close>.\<close>

datatype 'b control =
    Stop "'b parser" int
  | Case int "'b parser" int

text \<open>The label \<^verbatim>\<open>stn\<close> and the label \<^verbatim>\<open>_test_eofn\<close> it jumps to.\<close>

definition st_label :: "string \<Rightarrow> int \<Rightarrow> 'b parser \<Rightarrow> int \<Rightarrow> 'b control" where
  "st_label buf n s p = (if p + 1 = int (length buf) then Stop (s\<lparr>fsm_cs := n\<rparr>) (p + 1)
     else Case n s (p + 1))"

text \<open>The label \<^verbatim>\<open>st0\<close>.\<close>

definition st0 :: "'b parser \<Rightarrow> int \<Rightarrow> 'b control" where
  "st0 s p = Stop (s\<lparr>fsm_cs := 0\<rparr>) p"

text \<open>The \<^verbatim>\<open>switch\<close> at the label \<^verbatim>\<open>_again\<close>, in the order of its cases (0 apart), and what follows it.\<close>

definition again_cases :: "int list" where
  "again_cases = [1..22] @ [367] @ [23..366] @ [368]"

definition again :: "string \<Rightarrow> 'b parser \<Rightarrow> int \<Rightarrow> 'b control" where
  "again buf s p = (if fsm_cs s = 0 then st0 s p
     else if fsm_cs s \<in> set again_cases then st_label buf (fsm_cs s) s p
     else if p + 1 = int (length buf) then Stop s (p + 1)
     else Case (fsm_cs s) s (p + 1))"

text \<open>
  One turn: \<^verbatim>\<open>case n\<close> at \<^verbatim>\<open>p\<close> and the transition it takes. When the \<^verbatim>\<open>switch\<close> has no case for \<open>n\<close>
  control falls to the label after it, \<^verbatim>\<open>_test_eof1\<close>.
\<close>

definition run_trans ::
  "'b sstring_builder \<Rightarrow> string \<Rightarrow> int \<Rightarrow> 'b parser \<Rightarrow> int \<Rightarrow> 'b control res" where
  "run_trans sb buf t s p = (case fsm_trans t of
      None \<Rightarrow> rfail Out_of_range
    | Some (acts, m) \<Rightarrow> rbind (run_acts sb buf acts m s p) (\<lambda>(j, s', p'). rok (case j of
          Goto_st m' \<Rightarrow> st_label buf m' s' p'
        | _ \<Rightarrow> again buf s' p')))"

definition exec_case ::
  "'b sstring_builder \<Rightarrow> string \<Rightarrow> int \<Rightarrow> 'b parser \<Rightarrow> int \<Rightarrow> 'b control res" where
  "exec_case sb buf n s p = (case fsm_case n of
      None \<Rightarrow> rok (Stop (s\<lparr>fsm_cs := 1\<rparr>) p)
    | Some ts \<Rightarrow> rbind (read_at buf p) (\<lambda>c. case pick_test ts c of
          None \<Rightarrow> rok (st0 s p)
        | Some t \<Rightarrow> run_trans sb buf t s p))"

partial_function (option) exec_loop ::
  "'b sstring_builder \<Rightarrow> string \<Rightarrow> int \<Rightarrow> 'b parser \<Rightarrow> int \<Rightarrow> (fault + 'b parser \<times> int) option" where
  "exec_loop sb buf n s p = (case exec_case sb buf n s p of
      None \<Rightarrow> None
    | Some (Inl e) \<Rightarrow> Some (Inl e)
    | Some (Inr (Stop s' p')) \<Rightarrow> Some (Inr (s', p'))
    | Some (Inr (Case n' s' p')) \<Rightarrow> exec_loop sb buf n' s' p')"

text \<open>
  \<^verbatim>\<open>parse(p, pe, eof)\<close>: the result is the position returned, or \<open>None\<close> for \<^verbatim>\<open>nullptr\<close>, with the new
  state. (\<^verbatim>\<open>eof\<close> is not used.)
\<close>

definition parse :: "'b sstring_builder \<Rightarrow> string \<Rightarrow> 'b parser \<Rightarrow> (int option \<times> 'b parser) res" where
  "parse sb buf s = (
     let pe = int (length buf);
         s1 = s\<lparr>p_builder := sb_guard sb buf 0 (p_builder s)\<rparr>
     in rbind (if buf = [] then rok (s1, 0) else exec_loop sb buf (fsm_cs s1) s1 0) (\<lambda>(s2, p).
          rok (if p_state s2 \<noteq> State_error then Some p else if p \<noteq> pe then Some pe else None,
               s2\<lparr>p_builder := sb_unguard sb buf (p_builder s2)\<rparr>)))"

definition parser_eof :: "'b parser \<Rightarrow> bool" where
  "parser_eof s \<longleftrightarrow> p_state s = State_eof"

section \<open>Checks of the automaton\<close>

text \<open>The actions that touch neither the position nor the stack nor the builder.\<close>

fun plain_act :: "fsm_act \<Rightarrow> bool" where
  "plain_act (Call_blob n) = False"
| "plain_act Start_blob = False"
| "plain_act Advance_blob = False"
| "plain_act _ = True"

definition blob_case :: "int \<Rightarrow> bool" where
  "blob_case n \<longleftrightarrow> n = 366 \<or> n = 368"

definition trans_ok :: "int \<Rightarrow> bool" where
  "trans_ok t = (case fsm_trans t of
      None \<Rightarrow> False
    | Some (acts, m) \<Rightarrow> Set_ok \<in> set acts \<and>
       (list_all plain_act acts \<and> fsm_case m \<noteq> None \<and> \<not> blob_case m
        \<or> acts = [Take_arg_size, Call_blob 21, Set_ok]))"

primrec test_trans :: "fsm_test \<Rightarrow> int" where
  "test_trans (Is c n) = n"
| "test_trans (Between lo hi n) = n"
| "test_trans (Always n) = n"

definition case_ok :: "int \<times> fsm_test list \<Rightarrow> bool" where
  "case_ok x = (blob_case (fst x) \<or> list_all (\<lambda>t. trans_ok (test_trans t)) (snd x))"

section \<open>The byte-wise machine\<close>

definition sub_block :: "string \<Rightarrow> int \<Rightarrow> int \<Rightarrow> string" where
  "sub_block buf q p = take (nat (p - q)) (drop (nat q) buf)"

definition builder_laws ::
  "'b sstring_builder \<Rightarrow> ('b \<Rightarrow> string) \<Rightarrow> ('b \<Rightarrow> int option) \<Rightarrow> bool" where
  "builder_laws sb txt start \<longleftrightarrow>
     (\<forall>b. txt (sb_reset sb b) = [] \<and> start (sb_reset sb b) = None) \<and>
     (\<forall>buf p b. txt (sb_guard sb buf p b) = txt b \<and>
        start (sb_guard sb buf p b) = (if txt b = [] then start b else Some p)) \<and>
     (\<forall>p b. txt (sb_mark_start sb p b) = txt b \<and> start (sb_mark_start sb p b) = Some p) \<and>
     (\<forall>buf p b q. start b = Some q \<and> 0 \<le> q \<and> q \<le> p \<and> p \<le> int (length buf) \<longrightarrow>
        txt (sb_mark_end sb buf p b) = txt b @ sub_block buf q p \<and>
        start (sb_mark_end sb buf p b) = None) \<and>
     (\<forall>b. fst (sb_get sb b) = txt b \<and> txt (snd (sb_get sb b)) = [] \<and>
        start (snd (sb_get sb b)) = start b) \<and>
     (\<forall>buf b. start b = None \<longrightarrow> txt (sb_unguard sb buf b) = txt b \<and>
        start (sb_unguard sb buf b) = None) \<and>
     (\<forall>buf b q. start b = Some q \<and> 0 \<le> q \<and> q \<le> int (length buf) \<longrightarrow>
        txt (sb_unguard sb buf b) = txt b @ sub_block buf q (int (length buf)) \<and>
        start (sb_unguard sb buf b) = None)"

lemma builder_lawsD:
  assumes "builder_laws sb txt start"
  shows "txt (sb_reset sb b) = []" "start (sb_reset sb b) = None"
    and "txt (sb_guard sb buf p b) = txt b"
    and "start (sb_guard sb buf p b) = (if txt b = [] then start b else Some p)"
    and "txt (sb_mark_start sb p b) = txt b" "start (sb_mark_start sb p b) = Some p"
    and "fst (sb_get sb b) = txt b" "txt (snd (sb_get sb b)) = []"
    and "start (snd (sb_get sb b)) = start b"
  using assms unfolding builder_laws_def by simp_all

lemma builder_mark_end:
  assumes "builder_laws sb txt start"
    and "start b = Some q" "0 \<le> q" "q \<le> p" "p \<le> int (length buf)"
  shows "txt (sb_mark_end sb buf p b) = txt b @ sub_block buf q p"
    and "start (sb_mark_end sb buf p b) = None"
  using assms(1) [unfolded builder_laws_def] assms(2-5) by blast+

lemma builder_unguard:
  assumes "builder_laws sb txt start"
  shows "start b = None \<Longrightarrow> txt (sb_unguard sb buf b) = txt b"
    and "start b = None \<Longrightarrow> start (sb_unguard sb buf b) = None"
    and "start b = Some q \<Longrightarrow> 0 \<le> q \<Longrightarrow> q \<le> int (length buf) \<Longrightarrow>
      txt (sb_unguard sb buf b) = txt b @ sub_block buf q (int (length buf))"
    and "start b = Some q \<Longrightarrow> 0 \<le> q \<Longrightarrow> q \<le> int (length buf) \<Longrightarrow>
      start (sb_unguard sb buf b) = None"
  using assms [unfolded builder_laws_def] by blast+

definition with_builder :: "'c \<Rightarrow> 'b parser \<Rightarrow> 'c parser" where
  "with_builder t s = \<lparr>fsm_cs = fsm_cs s, fsm_stack = fsm_stack s, p_state = p_state s,
     p_command = p_command s, p_u32 = p_u32 s, p_arg_size = p_arg_size s,
     p_args_count = p_args_count s, p_size_left = p_size_left s, p_args_list = p_args_list s,
     p_builder = t\<rparr>"

lemma with_builder_simps [simp]:
  "fsm_cs (with_builder t s) = fsm_cs s" "fsm_stack (with_builder t s) = fsm_stack s"
  "p_state (with_builder t s) = p_state s" "p_command (with_builder t s) = p_command s"
  "p_u32 (with_builder t s) = p_u32 s" "p_arg_size (with_builder t s) = p_arg_size s"
  "p_args_count (with_builder t s) = p_args_count s"
  "p_size_left (with_builder t s) = p_size_left s"
  "p_args_list (with_builder t s) = p_args_list s" "p_builder (with_builder t s) = t"
  by (simp_all add: with_builder_def)

lemma with_builder_updates [simp]:
  "with_builder t (s\<lparr>fsm_cs := n\<rparr>) = (with_builder t s)\<lparr>fsm_cs := n\<rparr>"
  "with_builder t (s\<lparr>fsm_stack := st\<rparr>) = (with_builder t s)\<lparr>fsm_stack := st\<rparr>"
  "with_builder t (s\<lparr>p_state := x\<rparr>) = (with_builder t s)\<lparr>p_state := x\<rparr>"
  "with_builder t (s\<lparr>p_command := c\<rparr>) = (with_builder t s)\<lparr>p_command := c\<rparr>"
  "with_builder t (s\<lparr>p_u32 := w\<rparr>) = (with_builder t s)\<lparr>p_u32 := w\<rparr>"
  "with_builder t (s\<lparr>p_arg_size := w\<rparr>) = (with_builder t s)\<lparr>p_arg_size := w\<rparr>"
  "with_builder t (s\<lparr>p_args_count := w\<rparr>) = (with_builder t s)\<lparr>p_args_count := w\<rparr>"
  "with_builder t (s\<lparr>p_size_left := w\<rparr>) = (with_builder t s)\<lparr>p_size_left := w\<rparr>"
  "with_builder t (s\<lparr>p_args_list := xs\<rparr>) = (with_builder t s)\<lparr>p_args_list := xs\<rparr>"
  "with_builder t (s\<lparr>p_builder := b\<rparr>) = with_builder t s"
  "(with_builder t s)\<lparr>p_builder := u\<rparr> = with_builder u s"
  by (simp_all add: with_builder_def)

definition plain_effect :: "fsm_act \<Rightarrow> int \<Rightarrow> 'b parser \<Rightarrow> 'b parser" where
  "plain_effect a c s = (case a of
      Set_ok \<Rightarrow> s\<lparr>p_state := State_ok\<rparr>
    | Zero_u32 \<Rightarrow> s\<lparr>p_u32 := 0\<rparr>
    | Digit_u32 \<Rightarrow> s\<lparr>p_u32 := p_u32 s * 10 + word_of_int (c - 48)\<rparr>
    | Take_args_count \<Rightarrow> s\<lparr>p_args_count := p_u32 s\<rparr>
    | Take_arg_size \<Rightarrow> s\<lparr>p_arg_size := p_u32 s\<rparr>
    | Set_command k \<Rightarrow> s\<lparr>p_command := k\<rparr>
    | _ \<Rightarrow> s)"

fun run_effects :: "fsm_act list \<Rightarrow> int \<Rightarrow> int \<Rightarrow> 'b parser \<Rightarrow> 'b parser" where
  "run_effects [] m c s = s\<lparr>fsm_cs := m\<rparr>"
| "run_effects (Call_blob r # as) m c s = s\<lparr>fsm_stack := r # fsm_stack s, fsm_cs := 366\<rparr>"
| "run_effects (a # as) m c s = run_effects as m c (plain_effect a c s)"

definition plain_byte :: "'b parser \<Rightarrow> int \<Rightarrow> 'b parser option" where
  "plain_byte s c = (case fsm_case (fsm_cs s) of None \<Rightarrow> None | Some ts \<Rightarrow>
     (case pick_test ts c of None \<Rightarrow> None | Some t \<Rightarrow>
        (case fsm_trans t of None \<Rightarrow> None | Some (acts, m) \<Rightarrow> Some (run_effects acts m c s))))"

definition pop_arg :: "string parser \<Rightarrow> string parser" where
  "pop_arg s = s\<lparr>p_args_list := p_args_list s @ [p_builder s], p_builder := [],
     fsm_cs := hd (fsm_stack s), fsm_stack := tl (fsm_stack s)\<rparr>"

definition enter_blob :: "string parser \<Rightarrow> string parser" where
  "enter_blob s = (let s1 = s\<lparr>p_size_left := p_arg_size s\<rparr> in
     if p_arg_size s = 0 then pop_arg s1 else s1\<lparr>fsm_cs := 368\<rparr>)"

definition blob_byte :: "string parser \<Rightarrow> char \<Rightarrow> string parser" where
  "blob_byte s c = (let s1 = s\<lparr>p_size_left := p_size_left s - 1, p_builder := p_builder s @ [c]\<rparr> in
     if p_size_left s1 = 0 then pop_arg s1 else s1)"

definition byte_step :: "string parser \<Rightarrow> char \<Rightarrow> string parser \<times> bool" where
  "byte_step s c = (let s1 = if fsm_cs s = 366 then enter_blob s else s in
     if fsm_cs s1 = 368 then (blob_byte s1 c, True)
     else (case plain_byte s1 (schar c) of None \<Rightarrow> (s1\<lparr>fsm_cs := 0\<rparr>, False) | Some s2 \<Rightarrow> (s2, True)))"

fun byte_run :: "string parser \<Rightarrow> string \<Rightarrow> string parser \<times> string" where
  "byte_run s [] = (s, [])"
| "byte_run s (c # cs) = (let (s', go) = byte_step s c in
     if go then byte_run s' cs else (s', c # cs))"

section \<open>The table\<close>

lemma all_cases_ok: "list_all case_ok (state_blocks fsm_blocks)"
  unfolding fsm_blocks_def fsm_part_defs
  by (simp add: fsm_lookups case_ok_def trans_ok_def blob_case_def)

lemma pick_test_trans: "pick_test ts c = Some t \<Longrightarrow> \<exists>x\<in>set ts. test_trans x = t"
  by (induction ts) (auto split: fsm_test.splits if_splits)

lemma plain_case_trans:
  assumes "fsm_case n = Some ts" and "\<not> blob_case n" and "pick_test ts c = Some t"
  shows "trans_ok t"
proof -
  have "(n, ts) \<in> set (state_blocks fsm_blocks)"
    using assms(1) unfolding fsm_case_def by (rule map_of_SomeD)
  then have "case_ok (n, ts)"
    using all_cases_ok unfolding list_all_iff by blast
  then have "list_all (\<lambda>x. trans_ok (test_trans x)) ts"
    using assms(2) by (simp add: case_ok_def)
  then show ?thesis
    using pick_test_trans [OF assms(3)] by (auto simp: list_all_iff)
qed

lemma call_21: "fsm_case 21 = Some [Is 13 40]" and blob_lookups:
  "fsm_case 366 = Some [Always 454]" "fsm_case 368 = Some [Always 455]"
  "fsm_trans 454 = Some ([Start_blob, Advance_blob], 368)"
  "fsm_trans 455 = Some ([Advance_blob], 368)"
  by (simp_all add: fsm_lookups)

lemma fsm_case_0: "fsm_case 0 = None"
proof -
  have "0 \<notin> set state_labels"
    by (simp add: state_labels_eq)
  then show ?thesis
    by (simp add: fsm_case_def state_labels_def map_of_eq_None_iff)
qed

section \<open>A turn of a plain state\<close>

definition resume ::
  "'b sstring_builder \<Rightarrow> string \<Rightarrow> int \<Rightarrow> 'b parser \<Rightarrow> int \<Rightarrow> ('b parser \<times> int) res" where
  "resume sb buf n s p = (if p = int (length buf) then rok (s\<lparr>fsm_cs := n\<rparr>, p)
     else exec_loop sb buf n s p)"

definition continue ::
  "'b sstring_builder \<Rightarrow> string \<Rightarrow> 'b control \<Rightarrow> ('b parser \<times> int) res" where
  "continue sb buf k = (case k of Stop s p \<Rightarrow> rok (s, p) | Case n s p \<Rightarrow> exec_loop sb buf n s p)"

lemma exec_loop_continue:
  "exec_loop sb buf n s p = rbind (exec_case sb buf n s p) (continue sb buf)"
  by (subst exec_loop.simps)
    (simp add: rbind_def continue_def rok_def split: option.split sum.split control.split)

lemma continue_st_label: "continue sb buf (st_label buf n s p) = resume sb buf n s (p + 1)"
  by (simp add: continue_def st_label_def resume_def)

lemma run_act_plain:
  assumes "plain_act a" and "read_at buf p = rok c"
  shows "run_act sb buf a s p = rok (Next_action, plain_effect a c s, p)"
  using assms by (cases a) (simp_all add: run_act_def plain_effect_def digit_u32_def)

lemma plain_effect_cs [simp]: "fsm_cs (plain_effect a c s) = fsm_cs s"
  "fsm_stack (plain_effect a c s) = fsm_stack s" "p_builder (plain_effect a c s) = p_builder s"
  "p_args_list (plain_effect a c s) = p_args_list s"
  by (cases a; simp add: plain_effect_def)+

lemma run_effects_plain: "plain_act a \<Longrightarrow>
    run_effects (a # as) m c s = run_effects as m c (plain_effect a c s)"
  by (cases a) simp_all

lemma plain_effect_set_cs:
  "(plain_effect a c s)\<lparr>fsm_cs := m\<rparr> = plain_effect a c (s\<lparr>fsm_cs := m\<rparr>)"
  by (cases a) (simp_all add: plain_effect_def)

lemma run_acts_plain:
  assumes "list_all plain_act acts" and "read_at buf p = rok c"
  shows "\<exists>s'. run_acts sb buf acts m s p = rok (Goto_st m, s', p) \<and>
    s'\<lparr>fsm_cs := m\<rparr> = run_effects acts m c s"
  using assms
proof (induction acts arbitrary: s)
  case (Cons a acts)
  then show ?case
    by (simp add: run_act_plain run_effects_plain)
qed simp

text \<open>The case of a state only depends on the argument \<open>n\<close>, not on \<open>fsm_cs\<close>.\<close>

lemma read_at_nth: "0 \<le> p \<Longrightarrow> p < int (length buf) \<Longrightarrow> read_at buf p = rok (schar (buf ! nat p))"
  by (simp add: read_at_def)

section \<open>Blobs, byte by byte\<close>

lemma byte_run_enter:
  "fsm_cs a = 366 \<Longrightarrow> fsm_cs (enter_blob a) \<noteq> 366 \<Longrightarrow>
   byte_run a (c # cs) = byte_run (enter_blob a) (c # cs)"
  by (simp add: byte_step_def Let_def split del: if_split)

lemma byte_run_plain:
  assumes "\<not> blob_case (fsm_cs a)"
  shows "byte_run a (c # cs) = (case plain_byte a (schar c) of
      None \<Rightarrow> (a\<lparr>fsm_cs := 0\<rparr>, c # cs) | Some a' \<Rightarrow> byte_run a' cs)"
  using assms by (simp add: byte_step_def blob_case_def split: option.split)

lemma byte_run_blob_part:
  assumes "fsm_cs a = 368" and "length xs < unat (p_size_left a)"
  shows "byte_run a (xs @ ys) = byte_run (a\<lparr>p_size_left := p_size_left a - of_nat (length xs),
    p_builder := p_builder a @ xs\<rparr>) ys"
  using assms
proof (induction xs arbitrary: a)
  case (Cons x xs)
  let ?w = "p_size_left a"
  have w: "unat (?w - 1) = unat ?w - 1"
    using Cons.prems(2) by (intro unat_minus_one) auto
  have nz: "?w - 1 \<noteq> 0"
    using w Cons.prems(2) by (metis One_nat_def Suc_less_eq add_diff_cancel_left' length_Cons
      less_nat_zero_code list.size(4) plus_1_eq_Suc unsigned_0 Suc_lessE diff_Suc_1)
  have "byte_run a ((x # xs) @ ys) = byte_run (blob_byte a x) (xs @ ys)"
    using Cons.prems(1) by (simp add: byte_step_def)
  also have "blob_byte a x = a\<lparr>p_size_left := ?w - 1, p_builder := p_builder a @ [x]\<rparr>"
    using nz by (simp add: blob_byte_def)
  also have "byte_run \<dots> (xs @ ys) = byte_run (a\<lparr>p_size_left := ?w - 1 - of_nat (length xs),
      p_builder := (p_builder a @ [x]) @ xs\<rparr>) ys"
    by (subst Cons.IH) (use Cons.prems w in simp_all)
  finally show ?case
    by (simp add: algebra_simps)
qed simp

lemma byte_run_blob_whole:
  assumes "fsm_cs a = 368" and "length xs = unat (p_size_left a)" and "xs \<noteq> []"
  shows "byte_run a (xs @ ys) = byte_run (pop_arg (a\<lparr>p_size_left := 0,
    p_builder := p_builder a @ xs\<rparr>)) ys"
proof -
  define zs z where "zs = butlast xs" and "z = last xs"
  have xs: "xs = zs @ [z]"
    using assms(3) by (simp add: zs_def z_def)
  let ?w = "p_size_left a"
  have len: "length zs < unat ?w"
    using assms(2) xs by simp
  have one: "?w - of_nat (length zs) = 1"
  proof -
    have "?w = of_nat (unat ?w)"
      by simp
    also have "unat ?w = length zs + 1"
      using assms(2) xs by simp
    finally show ?thesis by simp
  qed
  have "byte_run a (xs @ ys) = byte_run a (zs @ (z # ys))"
    by (simp add: xs)
  also have "\<dots> = byte_run (a\<lparr>p_size_left := 1, p_builder := p_builder a @ zs\<rparr>) (z # ys)"
    using byte_run_blob_part [OF assms(1) len] one by simp
  also have "\<dots> = byte_run (pop_arg (a\<lparr>p_size_left := 0, p_builder := p_builder a @ xs\<rparr>)) ys"
    using assms(1) by (simp add: byte_step_def blob_byte_def xs)
  finally show ?thesis .
qed

section \<open>The relation\<close>

definition tracks ::
  "('b \<Rightarrow> string) \<Rightarrow> ('b \<Rightarrow> int option) \<Rightarrow> string \<Rightarrow> int \<Rightarrow> 'b parser \<Rightarrow> int \<Rightarrow> string parser \<Rightarrow> bool" where
  "tracks txt start buf n s p a \<longleftrightarrow> fsm_case n \<noteq> None \<and>
     (if n = 368 then fsm_stack s = [21] \<and> p_size_left s \<noteq> 0 \<and>
        (\<exists>q. start (p_builder s) = Some q \<and> 0 \<le> q \<and> q \<le> p \<and>
          a = with_builder (txt (p_builder s) @ sub_block buf q p) (s\<lparr>fsm_cs := n\<rparr>) \<and> p_builder a \<noteq> [])
      else fsm_stack s = (if n = 366 then [21] else []) \<and> start (p_builder s) = None \<and>
        txt (p_builder s) = [] \<and> a = with_builder [] (s\<lparr>fsm_cs := n\<rparr>))"

definition ended ::
  "('b \<Rightarrow> string) \<Rightarrow> ('b \<Rightarrow> int option) \<Rightarrow> string \<Rightarrow> 'b parser \<Rightarrow> int \<Rightarrow> string parser \<Rightarrow> string \<Rightarrow> bool" where
  "ended txt start buf s p a rest \<longleftrightarrow> p + int (length rest) = int (length buf) \<and>
     (if fsm_cs s = 0 then fsm_stack s = [] \<and> start (p_builder s) = None \<and>
        txt (p_builder s) = [] \<and> rest \<noteq> [] \<and> a = with_builder [] s
      else rest = [] \<and> tracks txt start buf (fsm_cs s) s p a)"

lemma run_effects_with_builder:
  "run_effects acts m c (with_builder t s) = with_builder t (run_effects acts m c s)"
proof (induction acts arbitrary: s)
  case (Cons a acts)
  have "plain_effect a c (with_builder t s) = with_builder t (plain_effect a c s)" for s :: "'b parser"
    by (cases a) (simp_all add: plain_effect_def)
  then show ?case
    using Cons by (cases a) simp_all
qed simp

lemma run_effects_plain_keeps:
  "list_all plain_act acts \<Longrightarrow> fsm_stack (run_effects acts m c s) = fsm_stack s \<and>
     p_builder (run_effects acts m c s) = p_builder s \<and> fsm_cs (run_effects acts m c s) = m"
  by (induction acts arbitrary: s) (simp_all add: run_effects_plain)

lemma run_effects_set_cs:
  "(run_effects acts m c (s\<lparr>fsm_cs := n\<rparr>)) = (run_effects acts m c s)"
proof (induction acts arbitrary: s)
  case (Cons a acts)
  then show ?case
    by (cases a) (simp_all add: plain_effect_set_cs [symmetric])
qed simp

text \<open>A plain state at a byte.\<close>

lemma resume_plain:
  assumes laws: "builder_laws sb txt start"
    and tr: "tracks txt start buf n s p a" and n: "\<not> blob_case n"
    and p: "0 \<le> p" "p < int (length buf)" and c: "c = buf ! nat p"
  shows "(plain_byte a (schar c) = None \<and>
        (\<exists>s'. resume sb buf n s p = rok (s', p) \<and> fsm_cs s' = 0 \<and> fsm_stack s' = [] \<and>
          start (p_builder s') = None \<and> txt (p_builder s') = [] \<and>
          a\<lparr>fsm_cs := 0\<rparr> = with_builder [] s')) \<or>
     (\<exists>m s' a'. plain_byte a (schar c) = Some a' \<and> tracks txt start buf m s' (p + 1) a' \<and>
        resume sb buf n s p = resume sb buf m s' (p + 1))"
proof -
  have n': "n \<noteq> 366" "n \<noteq> 368"
    using n by (auto simp: blob_case_def)
  obtain ts where ts: "fsm_case n = Some ts"
    using tr by (auto simp: tracks_def)
  have st: "fsm_stack s = []" "start (p_builder s) = None" "txt (p_builder s) = []"
    and a: "a = with_builder [] (s\<lparr>fsm_cs := n\<rparr>)"
    using tr n' by (auto simp: tracks_def)
  have res: "resume sb buf n s p = rbind (exec_case sb buf n s p) (continue sb buf)"
    using p by (simp add: resume_def exec_loop_continue)
  have rd: "read_at buf p = rok (schar c)"
    using p c by (simp add: read_at_nth)
  have cs_a: "fsm_cs a = n"
    by (simp add: a)
  have pb: "plain_byte a (schar c) = (case pick_test ts (schar c) of None \<Rightarrow> None | Some t \<Rightarrow>
      (case fsm_trans t of None \<Rightarrow> None | Some (acts, m) \<Rightarrow> Some (run_effects acts m (schar c) a)))"
    using cs_a by (simp add: plain_byte_def ts)
  show ?thesis
  proof (cases "pick_test ts (schar c)")
    case None
    have "resume sb buf n s p = rok (s\<lparr>fsm_cs := 0\<rparr>, p)"
      by (simp add: res exec_case_def ts rd None st0_def continue_def)
    moreover have "plain_byte a (schar c) = None"
      by (simp add: pb None)
    ultimately show ?thesis
      using st by (simp add: a)
  next
    case (Some t)
    have tok: "trans_ok t"
      by (rule plain_case_trans [OF ts n Some])
    then obtain acts m where tt: "fsm_trans t = Some (acts, m)"
      and kind: "list_all plain_act acts \<and> fsm_case m \<noteq> None \<and> \<not> blob_case m
        \<or> acts = [Take_arg_size, Call_blob 21, Set_ok]"
      by (auto simp: trans_ok_def split: option.splits)
    have pb': "plain_byte a (schar c) = Some (run_effects acts m (schar c) a)"
      by (simp add: pb Some tt)
    have ex: "exec_case sb buf n s p = run_trans sb buf t s p"
      by (simp add: exec_case_def ts rd Some)
    from kind show ?thesis
    proof
      assume k: "list_all plain_act acts \<and> fsm_case m \<noteq> None \<and> \<not> blob_case m"
      obtain s' where s': "run_acts sb buf acts m s p = rok (Goto_st m, s', p)"
        and e: "s'\<lparr>fsm_cs := m\<rparr> = run_effects acts m (schar c) s"
        using run_acts_plain [OF conjunct1 [OF k] rd] by blast
      have "resume sb buf n s p = resume sb buf m s' (p + 1)"
        by (simp add: res ex run_trans_def tt s' continue_st_label)
      moreover have "fsm_stack s' = [] \<and> p_builder s' = p_builder s"
        using run_effects_plain_keeps [OF conjunct1 [OF k], of m "schar c" s] st
        unfolding e [symmetric] by simp
      moreover have "run_effects acts m (schar c) a = with_builder [] (s'\<lparr>fsm_cs := m\<rparr>)"
        by (simp only: a run_effects_with_builder e run_effects_set_cs)
      ultimately show ?thesis
        using k st pb' by (intro disjI2 exI [of _ m] exI [of _ s'] exI) (auto simp: tracks_def blob_case_def)
    next
      assume k: "acts = [Take_arg_size, Call_blob 21, Set_ok]"
      let ?s' = "s\<lparr>p_arg_size := p_u32 s, fsm_stack := [21]\<rparr>"
      have "run_acts sb buf acts m s p = rok (Goto_st 366, ?s', p)"
        by (simp add: k run_act_def st)
      then have "resume sb buf n s p = resume sb buf 366 ?s' (p + 1)"
        by (simp add: res ex run_trans_def tt continue_st_label)
      moreover have "run_effects acts m (schar c) a = with_builder [] (?s'\<lparr>fsm_cs := 366\<rparr>)"
        by (simp add: k a plain_effect_def st)
      ultimately show ?thesis
        using st pb' by (intro disjI2 exI [of _ 366] exI [of _ ?s'] exI)
          (auto simp: tracks_def blob_lookups)
    qed
  qed
qed

lemma sub_block_append:
  "0 \<le> q \<Longrightarrow> q \<le> p \<Longrightarrow> sub_block buf q p @ take k (drop (nat p) buf) = sub_block buf q (p + int k)"
proof -
  assume q: "0 \<le> q" "q \<le> p"
  have "nat (p + int k - q) = nat (p - q) + k" "nat p = nat (p - q) + nat q"
    using q by linarith+
  then show ?thesis
    by (simp add: sub_block_def take_add)
qed

lemma sub_block_empty [simp]: "sub_block buf p p = []"
  by (simp add: sub_block_def)

text \<open>The length \<^verbatim>\<open>std::min((uint32_t)(pe - p), _size_left)\<close>, for a buffer of less than 4 GiB.\<close>

lemma blob_length:
  fixes w :: u32
  assumes "0 \<le> r" and "r < 2 ^ 32"
  shows "uint (min (word_of_int r) w) = min r (uint w)"
proof -
  have "uint (word_of_int r :: u32) = r"
    using assms by (simp add: uint_word_of_int)
  then show ?thesis
    by (simp add: min_def word_le_def)
qed

lemma advance_blob_run:
  assumes laws: "builder_laws sb txt start"
    and p: "0 \<le> p" "p \<le> int (length buf)" and len: "int (length buf) < 2 ^ 32"
    and s: "fsm_stack s = [21]" "start (p_builder s) = Some q" "0 \<le> q" "q \<le> p"
    and a: "a = with_builder (txt (p_builder s) @ sub_block buf q p) (s\<lparr>fsm_cs := 368\<rparr>)"
    and run: "p < int (length buf)" "p_size_left s \<noteq> 0 \<or> (p_builder a = [])"
  shows "\<exists>j s' p' a'. advance_blob sb buf s p = rok (j, s', p') \<and> p \<le> p' + 1 \<and>
     p' + 1 \<le> int (length buf) \<and>
     (if p_size_left s = 0 then a' = pop_arg a \<and> p' + 1 = p
      else p < p' + 1 \<and> byte_run a (drop (nat p) buf) = byte_run a' (drop (nat (p' + 1)) buf)) \<and>
     (j = Goto_again \<and> fsm_cs s' = 21 \<and> tracks txt start buf 21 s' (p' + 1) a' \<or>
      j = Next_action \<and> p_size_left s \<noteq> 0 \<and> tracks txt start buf 368 s' (p' + 1) a')"
proof -
  define w where "w = p_size_left s"
  define k where "k = nat (min (int (length buf) - p) (uint w))"
  define l where "l = min (word_of_int (int (length buf) - p)) w"
  have l: "uint l = int k"
    using blob_length [of "int (length buf) - p" w] p len by (simp add: l_def k_def)
  then have lk': "unat l = k"
    by (simp add: unat_eq_nat_uint)
  have "l = of_nat (unat l)"
    by simp
  then have lk: "l = of_nat k"
    by (simp only: lk')
  have int_k: "int k = min (int (length buf) - p) (int (unat w))"
  proof -
    have "0 \<le> min (int (length buf) - p) (uint w)"
      using p by simp
    then show ?thesis
      unfolding k_def uint_nat by (rule nat_0_le)
  qed
  have pos: "w \<noteq> 0 \<longrightarrow> 0 < unat w"
    using unat_gt_0 by blast
  have k: "k \<le> length buf - nat p" "k \<le> unat w" "w \<noteq> 0 \<longrightarrow> 0 < k"
    using int_k pos p run(1) by linarith+
  have kz: "w = 0 \<Longrightarrow> k = 0"
    using k(2) by simp
  let ?xs = "take k (drop (nat p) buf)" and ?ys = "drop (nat p + k) buf"
  have split: "drop (nat p) buf = ?xs @ ?ys"
    using append_take_drop_id [of k "drop (nat p) buf"] by (simp add: add.commute)
  have nat_p: "nat (p + int k) = nat p + k"
    using p by simp
  have len_xs: "length ?xs = k"
    using k(1) by simp
  have pl: "p + int k \<le> int (length buf)"
    using k(1) p by linarith
  have "unat (w - l) = unat w - k"
    using k(2) lk' by (simp add: unat_sub word_le_nat_alt)
  moreover have "w - l = 0 \<longleftrightarrow> unat (w - l) = 0"
    by (rule unat_eq_zero [symmetric])
  ultimately have zero: "w - l = 0 \<longleftrightarrow> k = unat w"
    using k(2) by linarith
  have mark: "txt (sb_mark_end sb buf (p + int k) (p_builder s)) =
      txt (p_builder s) @ sub_block buf q (p + int k)"
    "start (sb_mark_end sb buf (p + int k) (p_builder s)) = None"
    using builder_mark_end [OF laws s(2,3) _ pl] s(4) by simp_all
  note get = builder_lawsD(7-9) [OF laws]
  have ts: "txt (p_builder s) @ sub_block buf q (p + int k) = p_builder a @ ?xs"
    using s by (simp add: a sub_block_append)
  let ?b = "sb_mark_end sb buf (p + int k) (p_builder s)"
  have adv: "advance_blob sb buf s p = (if w - l = 0
      then rok (Goto_again, s\<lparr>p_size_left := w - l, p_args_list := p_args_list s @ [fst (sb_get sb ?b)],
        p_builder := snd (sb_get sb ?b), fsm_cs := 21, fsm_stack := []\<rparr>, p + int k - 1)
      else rok (Next_action, s\<lparr>p_size_left := w - l\<rparr>, p + int k - 1))"
    unfolding advance_blob_def Let_def w_def [symmetric] l_def [symmetric] l case_prod_beta
    by (simp add: s(1))
  have str: "fst (sb_get sb ?b) = p_builder a @ ?xs"
    unfolding get(1) mark(1) by (rule ts)
  show ?thesis
  proof (cases "k = unat w")
    case True
    let ?s' = "s\<lparr>p_size_left := 0, p_args_list := p_args_list s @ [p_builder a @ ?xs],
      p_builder := snd (sb_get sb (sb_mark_end sb buf (p + int k) (p_builder s))),
      fsm_cs := 21, fsm_stack := []\<rparr>"
    let ?a' = "pop_arg (a\<lparr>p_size_left := 0, p_builder := p_builder a @ ?xs\<rparr>)"
    have adv': "advance_blob sb buf s p = rok (Goto_again, ?s', p + int k - 1)"
    proof -
      have "w - l = 0"
        using True zero by blast
      then show ?thesis
        unfolding adv str by simp
    qed
    have "tracks txt start buf 21 ?s' (p + int k - 1 + 1) ?a'"
      using mark get s by (simp add: tracks_def call_21 pop_arg_def a)
    moreover have "byte_run a (drop (nat p) buf) = byte_run ?a' (drop (nat (p + int k - 1 + 1)) buf)"
      if "w \<noteq> 0"
    proof -
      have "?xs \<noteq> []"
        using that k(3) len_xs by fastforce
      then show ?thesis
        using byte_run_blob_whole [of a ?xs ?ys] True len_xs split nat_p
        by (simp add: a w_def)
    qed
    moreover have "?a' = pop_arg a" if "w = 0"
    proof -
      have "k = 0"
        using that True by simp
      then show ?thesis
        using that by (simp add: a w_def pop_arg_def with_builder_def)
    qed
    ultimately show ?thesis
      using adv' k(3) kz pl p unfolding w_def [symmetric]
      by (intro exI [of _ Goto_again] exI [of _ ?s'] exI [of _ "p + int k - 1"] exI [of _ ?a']) auto
  next
    case False
    then have w: "w \<noteq> 0" "k < unat w"
      using k(2) by auto
    let ?s' = "s\<lparr>p_size_left := w - l\<rparr>"
    let ?a' = "a\<lparr>p_size_left := w - l, p_builder := p_builder a @ ?xs\<rparr>"
    have wl: "w - l \<noteq> 0"
      using False zero by blast
    then have adv': "advance_blob sb buf s p = rok (Next_action, ?s', p + int k - 1)"
      unfolding adv by simp
    have "?xs \<noteq> []"
      using w(1) k(3) len_xs by fastforce
    moreover have "txt (p_builder s) @ sub_block buf q (p + int k) \<noteq> []"
      unfolding ts using \<open>?xs \<noteq> []\<close> by blast
    moreover have "?a' = with_builder (txt (p_builder s) @ sub_block buf q (p + int k))
        (?s'\<lparr>fsm_cs := 368\<rparr>)"
      unfolding ts by (simp add: a with_builder_def)
    ultimately have "tracks txt start buf 368 ?s' (p + int k - 1 + 1) ?a'"
      using s wl by (simp add: tracks_def blob_lookups)
    moreover have "byte_run a (drop (nat p) buf) = byte_run ?a' (drop (nat (p + int k - 1 + 1)) buf)"
      using byte_run_blob_part [of a ?xs ?ys] w(2) len_xs split nat_p lk
      by (simp add: a w_def)
    ultimately show ?thesis
      using adv' k(3) pl p w(1) unfolding w_def [symmetric]
      by (intro exI [of _ Next_action] exI [of _ ?s'] exI [of _ "p + int k - 1"] exI [of _ ?a']) auto
  qed
qed

text \<open>The two states of the blob machine at a byte.\<close>

lemma continue_again_21:
  "fsm_cs s = 21 \<Longrightarrow> continue sb buf (again buf s p) = resume sb buf 21 s (p + 1)"
  by (simp add: again_def again_cases_def continue_st_label)

lemma resume_368:
  assumes laws: "builder_laws sb txt start" and len: "int (length buf) < 2 ^ 32"
    and tr: "tracks txt start buf 368 s p a" and p: "0 \<le> p" "p < int (length buf)"
  shows "\<exists>m s' p' a'. resume sb buf 368 s p = resume sb buf m s' p' \<and> (m = 21 \<or> m = 368) \<and>
    p < p' \<and> p' \<le> int (length buf) \<and> tracks txt start buf m s' p' a' \<and>
    byte_run a (drop (nat p) buf) = byte_run a' (drop (nat p') buf)"
proof -
  obtain q where s: "fsm_stack s = [21]" "p_size_left s \<noteq> 0" "start (p_builder s) = Some q"
    "0 \<le> q" "q \<le> p" and a: "a = with_builder (txt (p_builder s) @ sub_block buf q p) (s\<lparr>fsm_cs := 368\<rparr>)"
    using tr by (auto simp: tracks_def)
  have res: "resume sb buf 368 s p = rbind (run_trans sb buf 455 s p) (continue sb buf)"
    using p by (simp add: resume_def exec_loop_continue exec_case_def blob_lookups read_at_nth)
  obtain j s' p' a' where adv: "advance_blob sb buf s p = rok (j, s', p')"
    and p': "p < p' + 1" "p' + 1 \<le> int (length buf)"
    and run: "byte_run a (drop (nat p) buf) = byte_run a' (drop (nat (p' + 1)) buf)"
    and j: "j = Goto_again \<and> fsm_cs s' = 21 \<and> tracks txt start buf 21 s' (p' + 1) a' \<or>
      j = Next_action \<and> tracks txt start buf 368 s' (p' + 1) a'"
    using advance_blob_run [OF laws p(1) _ len s(1,3,4,5) a p(2)] s(2) p by auto
  from j show ?thesis
  proof
    assume j: "j = Goto_again \<and> fsm_cs s' = 21 \<and> tracks txt start buf 21 s' (p' + 1) a'"
    then have "resume sb buf 368 s p = resume sb buf 21 s' (p' + 1)"
      by (simp add: res run_trans_def blob_lookups run_act_def adv continue_again_21)
    then show ?thesis
      using j p' run by blast
  next
    assume j: "j = Next_action \<and> tracks txt start buf 368 s' (p' + 1) a'"
    then have "resume sb buf 368 s p = resume sb buf 368 s' (p' + 1)"
      by (simp add: res run_trans_def blob_lookups run_act_def adv continue_st_label)
    then show ?thesis
      using j p' run by blast
  qed
qed

lemma resume_366:
  assumes laws: "builder_laws sb txt start" and len: "int (length buf) < 2 ^ 32"
    and tr: "tracks txt start buf 366 s p a" and p: "0 \<le> p" "p < int (length buf)"
  shows "\<exists>m s' p' a'. resume sb buf 366 s p = resume sb buf m s' p' \<and> (m = 21 \<or> m = 368) \<and>
    p \<le> p' \<and> p' \<le> int (length buf) \<and> tracks txt start buf m s' p' a' \<and>
    byte_run a (drop (nat p) buf) = byte_run a' (drop (nat p') buf)"
proof -
  have s: "fsm_stack s = [21]" "txt (p_builder s) = []" and a: "a = with_builder [] (s\<lparr>fsm_cs := 366\<rparr>)"
    using tr by (auto simp: tracks_def)
  let ?s = "start_blob sb s p"
  let ?a = "a\<lparr>p_size_left := p_arg_size a, fsm_cs := 368\<rparr>"
  obtain c cs where dr: "drop (nat p) buf = c # cs"
    using p by (metis drop_eq_Nil linorder_not_less list.exhaust nat_less_iff)
  have b: "start (p_builder ?s) = Some p" "txt (p_builder ?s) = []" "fsm_stack ?s = [21]"
    "p_size_left ?s = p_arg_size s"
    using builder_lawsD(5,6) [OF laws] s by (simp_all add: start_blob_def)
  have a2: "?a = with_builder (txt (p_builder ?s) @ sub_block buf p p) (?s\<lparr>fsm_cs := 368\<rparr>)"
    using b by (simp add: a start_blob_def)
  have pa: "p_arg_size a = p_arg_size s" "p_builder ?a = []"
    by (simp_all add: a)
  have enter: "enter_blob a = (if p_arg_size s = 0 then pop_arg ?a else ?a)"
    by (simp add: enter_blob_def Let_def pop_arg_def pa)
  have run_enter: "byte_run a (c # cs) = byte_run (enter_blob a) (c # cs)"
    by (rule byte_run_enter) (simp_all add: enter pop_arg_def, simp_all add: a s)
  have res: "resume sb buf 366 s p = rbind (run_trans sb buf 454 s p) (continue sb buf)"
    using p by (simp add: resume_def exec_loop_continue exec_case_def blob_lookups read_at_nth)
  obtain j s' p' a' where adv: "advance_blob sb buf ?s p = rok (j, s', p')"
    and p': "p \<le> p' + 1" "p' + 1 \<le> int (length buf)"
    and run: "if p_arg_size s = 0 then a' = pop_arg ?a \<and> p' + 1 = p
      else p < p' + 1 \<and> byte_run ?a (drop (nat p) buf) = byte_run a' (drop (nat (p' + 1)) buf)"
    and j: "j = Goto_again \<and> fsm_cs s' = 21 \<and> tracks txt start buf 21 s' (p' + 1) a' \<or>
      j = Next_action \<and> tracks txt start buf 368 s' (p' + 1) a'"
    using advance_blob_run [OF laws p(1) _ len b(3,1) p(1) order_refl a2 p(2)] p pa(2)
    unfolding b(4) by fastforce
  have run': "byte_run a (drop (nat p) buf) = byte_run a' (drop (nat (p' + 1)) buf)"
    using run run_enter unfolding dr enter by (auto simp: dr split: if_splits)
  from j show ?thesis
  proof
    assume j: "j = Goto_again \<and> fsm_cs s' = 21 \<and> tracks txt start buf 21 s' (p' + 1) a'"
    then have "resume sb buf 366 s p = resume sb buf 21 s' (p' + 1)"
      by (simp add: res run_trans_def blob_lookups run_act_def adv continue_again_21)
    then show ?thesis
      using j p' run' by blast
  next
    assume j: "j = Next_action \<and> tracks txt start buf 368 s' (p' + 1) a'"
    then have "resume sb buf 366 s p = resume sb buf 368 s' (p' + 1)"
      by (simp add: res run_trans_def blob_lookups run_act_def adv continue_st_label)
    then show ?thesis
      using j p' run' by blast
  qed
qed

text \<open>The automaton on the rest of a buffer.\<close>

lemma tracks_cs: "tracks txt start buf n s p a \<Longrightarrow> fsm_cs a = n"
  by (auto simp: tracks_def split: if_splits)

lemma tracks_set_cs: "tracks txt start buf n (s\<lparr>fsm_cs := m\<rparr>) p a = tracks txt start buf n s p a"
  by (simp add: tracks_def)

lemma tracks_not_0: "\<not> tracks txt start buf 0 s p a"
  by (simp add: tracks_def fsm_case_0)

lemma resume_run:
  assumes laws: "builder_laws sb txt start" and len: "int (length buf) < 2 ^ 32"
    and tr: "tracks txt start buf n s p a" and p: "0 \<le> p" "p \<le> int (length buf)"
  shows "\<exists>s' p'. resume sb buf n s p = rok (s', p') \<and>
    ended txt start buf s' p' (fst (byte_run a (drop (nat p) buf))) (snd (byte_run a (drop (nat p) buf)))"
  using tr p
proof (induction "2 * nat (int (length buf) - p) + (if n = 366 then 1 else 0)"
    arbitrary: n s p a rule: less_induct)
  case less
  show ?case
  proof (cases "p = int (length buf)")
    case True
    have "n \<noteq> 0"
      using less.prems(1) tracks_not_0 by metis
    then show ?thesis
      using True less.prems by (simp add: resume_def ended_def tracks_set_cs)
  next
    case False
    then have p: "0 \<le> p" "p < int (length buf)"
      using less.prems by simp_all
    have step: ?thesis if "resume sb buf n s p = resume sb buf m s' p'"
      and "p \<le> p'" "p = p' \<longrightarrow> n = 366 \<and> m \<noteq> 366" "p' \<le> int (length buf)"
      and "tracks txt start buf m s' p' a'"
      and "byte_run a (drop (nat p) buf) = byte_run a' (drop (nat p') buf)" for m s' p' a'
    proof -
      have "2 * nat (int (length buf) - p') + (if m = 366 then 1 else 0)
          < 2 * nat (int (length buf) - p) + (if n = 366 then 1 else 0)"
        using that(2,3,4) p by (cases "p = p'") auto
      from less.hyps [OF this that(5)] show ?thesis
        using that p by simp
    qed
    consider (b366) "n = 366" | (b368) "n = 368" | (plain) "\<not> blob_case n"
      by (auto simp: blob_case_def)
    then show ?thesis
    proof cases
      case b366
      obtain m s' p' a' where "resume sb buf n s p = resume sb buf m s' p'" "m = 21 \<or> m = 368"
        "p \<le> p'" "p' \<le> int (length buf)" "tracks txt start buf m s' p' a'"
        "byte_run a (drop (nat p) buf) = byte_run a' (drop (nat p') buf)"
        using resume_366 [OF laws len less.prems(1) [unfolded b366] p] b366 by blast
      then show ?thesis
        by (intro step) (auto simp: b366)
    next
      case b368
      obtain m s' p' a' where "resume sb buf n s p = resume sb buf m s' p'" "m = 21 \<or> m = 368"
        "p < p'" "p' \<le> int (length buf)" "tracks txt start buf m s' p' a'"
        "byte_run a (drop (nat p) buf) = byte_run a' (drop (nat p') buf)"
        using resume_368 [OF laws len less.prems(1) [unfolded b368] p] b368 by blast
      then show ?thesis
        by (intro step) auto
    next
      case plain
      define c where "c = buf ! nat p"
      have dr: "drop (nat p) buf = c # drop (nat (p + 1)) buf"
      proof -
        have "nat (p + 1) = Suc (nat p)" "nat p < length buf"
          using p by simp_all
        then show ?thesis
          using Cons_nth_drop_Suc [of "nat p" buf] by (simp only: c_def)
      qed
      have np: "\<not> blob_case (fsm_cs a)"
        using plain tracks_cs [OF less.prems(1)] by simp
      from resume_plain [OF laws less.prems(1) plain p c_def] show ?thesis
      proof (elim disjE conjE exE)
        fix s' assume none: "plain_byte a (schar c) = None"
          and s': "resume sb buf n s p = rok (s', p)" "fsm_cs s' = 0" "fsm_stack s' = []"
            "start (p_builder s') = None" "txt (p_builder s') = []"
            "a\<lparr>fsm_cs := 0\<rparr> = with_builder [] s'"
        have "byte_run a (drop (nat p) buf) = (a\<lparr>fsm_cs := 0\<rparr>, drop (nat p) buf)"
          unfolding dr byte_run_plain [OF np] none by simp
        then show ?thesis
          using s' p by (simp add: ended_def)
      next
        fix m s' a' assume some: "plain_byte a (schar c) = Some a'"
          and s': "tracks txt start buf m s' (p + 1) a'" "resume sb buf n s p = resume sb buf m s' (p + 1)"
        have "byte_run a (drop (nat p) buf) = byte_run a' (drop (nat (p + 1)) buf)"
          unfolding dr byte_run_plain [OF np] some by simp
        then show ?thesis
          using s' p by (intro step) auto
      qed
    qed
  qed
qed

end
