(* ===== verification/Redis_Rows.thy ===== *)
theory Redis_Rows
  imports Redis_Tables
begin

text \<open>
  The rows of the tables of theory \<open>Redis_Tables\<close>, and the searches that read them: the binary searches
  find the only key or range that applies; the transition they lead to is that of a plain scan of the
  row; and for each state the row holds the same characters, actions and targets as the tests of the
  state of the same place in the automaton of \<^verbatim>\<open>redis_protocol_parser.hh\<close> (\<open>ren\<close> numbers the
  states), but for the way to the word \<^verbatim>\<open>quit\<close>.
\<close>

section \<open>The binary searches\<close>

abbreviation key_at :: "int \<Rightarrow> int" where
  "key_at i \<equiv> tab_trans_keys ! nat i"

lemma cell_key: "0 \<le> i \<Longrightarrow> i < int (length tab_trans_keys) \<Longrightarrow> cell tab_trans_keys i = rok (key_at i)"
  by (simp add: cell_def)

lemma search_key_finds:
  assumes "0 \<le> lower" and "upper < int (length tab_trans_keys)"
    and "\<forall>i j. lower \<le> i \<and> i < j \<and> j \<le> upper \<longrightarrow> key_at i < key_at j"
  shows "\<exists>r. search_key c lower upper = rok r \<and> (case r of
      None \<Rightarrow> \<forall>i. lower \<le> i \<and> i \<le> upper \<longrightarrow> key_at i \<noteq> c
    | Some m \<Rightarrow> lower \<le> m \<and> m \<le> upper \<and> key_at m = c)"
  using assms
proof (induction c lower upper rule: search_key.induct)
  case (1 c lower upper)
  show ?case
  proof (cases "upper < lower")
    case True
    then show ?thesis by (simp add: search_key.simps)
  next
    case False
    define mid where "mid = lower + drop_bit 1 (upper - lower)"
    have mid: "lower \<le> mid" "mid \<le> upper"
      using False by (simp_all add: mid_def drop_bit_eq_div)
    have k: "cell tab_trans_keys mid = rok (key_at mid)"
      using mid 1(3,4) by (intro cell_key) simp_all
    have unfold: "search_key c lower upper = (if c < key_at mid then search_key c lower (mid - 1)
        else if c > key_at mid then search_key c (mid + 1) upper else rok (Some mid))"
      using False by (subst search_key.simps, unfold Let_def mid_def [symmetric] k rbind_simps) simp
    consider (less) "c < key_at mid" | (greater) "c > key_at mid" | (equal) "c = key_at mid"
      by linarith
    then show ?thesis
    proof cases
      case less
      obtain r where r: "search_key c lower (mid - 1) = rok r" "case r of
          None \<Rightarrow> \<forall>i. lower \<le> i \<and> i \<le> mid - 1 \<longrightarrow> key_at i \<noteq> c
        | Some m \<Rightarrow> lower \<le> m \<and> m \<le> mid - 1 \<and> key_at m = c"
        using 1(1) [OF False mid_def less 1(3)] 1(4,5) mid by fastforce
      have "c < key_at i" if "mid \<le> i" "i \<le> upper" for i
        using less that 1(5) mid by (metis le_less order_less_trans)
      then have "key_at i \<noteq> c" if "r = None" "lower \<le> i" "i \<le> upper" for i
        using r(2) that by (cases "mid \<le> i") auto
      then show ?thesis
        using r mid unfold less by (intro exI [of _ r]) (auto split: option.splits)
    next
      case greater
      obtain r where r: "search_key c (mid + 1) upper = rok r" "case r of
          None \<Rightarrow> \<forall>i. mid + 1 \<le> i \<and> i \<le> upper \<longrightarrow> key_at i \<noteq> c
        | Some m \<Rightarrow> mid + 1 \<le> m \<and> m \<le> upper \<and> key_at m = c"
        using 1(2) [OF False mid_def _ greater _ 1(4)] greater 1(3,5) mid by fastforce
      have "key_at i < c" if "lower \<le> i" "i \<le> mid" for i
        using greater that 1(5) mid by (metis le_less order_less_trans)
      then have "key_at i \<noteq> c" if "r = None" "lower \<le> i" "i \<le> upper" for i
        using r(2) that by (cases "i \<le> mid") auto
      then show ?thesis
        using r mid unfold greater by (intro exI [of _ r]) (auto split: option.splits)
    next
      case equal
      then show ?thesis
        using mid unfold by simp
    qed
  qed
qed

lemma search_range_finds:
  assumes "0 \<le> lower" and "upper + 1 < int (length tab_trans_keys)" and "even (upper - lower)"
    and "\<forall>i j. lower \<le> i \<and> i < j \<and> j \<le> upper \<and> even (i - lower) \<and> even (j - lower) \<longrightarrow> key_at (i + 1) < key_at j"
    and "\<forall>i. lower \<le> i \<and> i \<le> upper \<and> even (i - lower) \<longrightarrow> key_at i \<le> key_at (i + 1)"
  shows "\<exists>r. search_range c lower upper = rok r \<and> (case r of
      None \<Rightarrow> \<forall>i. lower \<le> i \<and> i \<le> upper \<and> even (i - lower) \<longrightarrow> \<not> (key_at i \<le> c \<and> c \<le> key_at (i + 1))
    | Some m \<Rightarrow> lower \<le> m \<and> m \<le> upper \<and> even (m - lower) \<and> key_at m \<le> c \<and> c \<le> key_at (m + 1))"
  using assms
proof (induction c lower upper rule: search_range.induct)
  case (1 c lower upper)
  show ?case
  proof (cases "upper < lower")
    case True
    then show ?thesis by (simp add: search_range.simps)
  next
    case False
    define mid where "mid = lower + (drop_bit 1 (upper - lower) AND NOT 1)"
    have mid_eq: "mid = lower + 2 * ((upper - lower) div 2 div 2)"
      by (simp add: mid_def drop_bit_eq_div even_half)
    have mid: "lower \<le> mid" "mid \<le> upper" "even (mid - lower)" "mid = upper \<or> mid + 2 \<le> upper"
      using False 1(5) unfolding mid_eq by (simp_all, presburger+)
    have k: "cell tab_trans_keys mid = rok (key_at mid)" "cell tab_trans_keys (mid + 1) = rok (key_at (mid + 1))"
      using mid 1(3,4) by (simp_all add: cell_key)
    have unfold: "search_range c lower upper = (if c < key_at mid then search_range c lower (mid - 2)
        else if c > key_at (mid + 1) then search_range c (mid + 2) upper else rok (Some mid))"
      using False by (subst search_range.simps, unfold Let_def mid_def [symmetric] k rbind_simps) simp
    have ev: "even (upper - (mid + 2))" "even (mid - 2 - lower)"
      using mid(3) 1(5) by presburger+
    consider (less) "c < key_at mid" | (greater) "c > key_at (mid + 1)" "\<not> c < key_at mid"
      | (inside) "key_at mid \<le> c" "c \<le> key_at (mid + 1)"
      by linarith
    then show ?thesis
    proof cases
      case less
      obtain r where r: "search_range c lower (mid - 2) = rok r" "case r of
          None \<Rightarrow> \<forall>i. lower \<le> i \<and> i \<le> mid - 2 \<and> even (i - lower) \<longrightarrow> \<not> (key_at i \<le> c \<and> c \<le> key_at (i + 1))
        | Some m \<Rightarrow> lower \<le> m \<and> m \<le> mid - 2 \<and> even (m - lower) \<and> key_at m \<le> c \<and> c \<le> key_at (m + 1)"
      proof -
        have "\<forall>i. lower \<le> i \<and> i \<le> mid - 2 \<and> even (i - lower) \<longrightarrow> key_at i \<le> key_at (i + 1)"
          "\<forall>i j. lower \<le> i \<and> i < j \<and> j \<le> mid - 2 \<and> even (i - lower) \<and> even (j - lower) \<longrightarrow> key_at (i + 1) < key_at j"
          "mid - 2 + 1 < int (length tab_trans_keys)"
          using 1(4,6,7) mid by auto
        from 1(1) [OF False mid_def less 1(3) this(3) ev(2) this(2,1)] show thesis
          using that by blast
      qed
      have right: "c < key_at i" if "mid - 2 < i" "i \<le> upper" "even (i - lower)" for i
      proof -
        have "i = mid \<or> mid < i"
          using that mid(3) by presburger
        moreover have "key_at (mid + 1) < key_at i" if "mid < i"
          using 1(6) mid that \<open>i \<le> upper\<close> \<open>even (i - lower)\<close> by blast
        moreover have "key_at mid \<le> key_at (mid + 1)"
          using 1(7) mid by blast
        ultimately show ?thesis
          using less by force
      qed
      have none: "\<not> (key_at i \<le> c \<and> c \<le> key_at (i + 1))" if "r = None" "lower \<le> i" "i \<le> upper" "even (i - lower)" for i
      proof (cases "i \<le> mid - 2")
        case True
        then show ?thesis
          using r(2) that by simp
      next
        case False
        then show ?thesis
          using right [OF _ that(3,4)] by simp
      qed
      then show ?thesis
        using r mid unfold less none by (intro exI [of _ r]) (auto split: option.splits)
    next
      case greater
      have ev': "even (i - (mid + 2)) = even (i - lower)" for i
        using mid(3) by presburger
      obtain r where r: "search_range c (mid + 2) upper = rok r" "case r of
          None \<Rightarrow> \<forall>i. mid + 2 \<le> i \<and> i \<le> upper \<and> even (i - lower) \<longrightarrow> \<not> (key_at i \<le> c \<and> c \<le> key_at (i + 1))
        | Some m \<Rightarrow> mid + 2 \<le> m \<and> m \<le> upper \<and> even (m - lower) \<and> key_at m \<le> c \<and> c \<le> key_at (m + 1)"
      proof -
        have "\<forall>i. mid + 2 \<le> i \<and> i \<le> upper \<and> even (i - lower) \<longrightarrow> key_at i \<le> key_at (i + 1)"
          "\<forall>i j. mid + 2 \<le> i \<and> i < j \<and> j \<le> upper \<and> even (i - lower) \<and> even (j - lower) \<longrightarrow> key_at (i + 1) < key_at j"
          "0 \<le> mid + 2"
          using 1(3,6,7) mid by auto
        from 1(2) [OF False mid_def greater(2,1) this(3) 1(4) ev(1), unfolded ev', OF this(2,1)] show thesis
          using that by blast
      qed
      have left: "key_at (i + 1) < c" if "lower \<le> i" "i < mid + 2" "even (i - lower)" for i
      proof -
        have "i = mid \<or> i < mid"
          using that mid(3) by presburger
        moreover have "key_at (i + 1) < key_at mid" if "i < mid"
          using 1(6) mid that \<open>lower \<le> i\<close> \<open>even (i - lower)\<close> by blast
        moreover have "key_at mid \<le> key_at (mid + 1)"
          using 1(7) mid by blast
        ultimately show ?thesis
          using greater by force
      qed
      have none: "\<not> (key_at i \<le> c \<and> c \<le> key_at (i + 1))" if "r = None" "lower \<le> i" "i \<le> upper" "even (i - lower)" for i
      proof (cases "i < mid + 2")
        case True
        then show ?thesis
          using left [OF that(2) _ that(4)] by simp
      next
        case False
        then show ?thesis
          using r(2) that by simp
      qed
      then show ?thesis
        using r mid unfold greater none by (intro exI [of _ r]) (auto split: option.splits)
    next
      case inside
      then show ?thesis
        using mid unfold by simp
    qed
  qed
qed

section \<open>Reading the tables\<close>

primrec index_from :: "int \<Rightarrow> 'a list \<Rightarrow> (int \<times> 'a) list" where
  "index_from i [] = []"
| "index_from i (x # xs) = (i, x) # index_from (i + 1) xs"

lemma cells_from:
  "list_all (\<lambda>(i, x). cell (ys @ xs) i = rok x) (index_from (int (length ys)) xs)"
proof (induction xs arbitrary: ys)
  case (Cons x xs)
  from Cons.IH [of "ys @ [x]"] show ?case
    by (simp add: cell_def algebra_simps)
qed simp

lemma cells_of: "t = xs \<Longrightarrow> list_all (\<lambda>(i, x). cell t i = rok x) (index_from 0 xs)"
  using cells_from [of "[]" xs] by simp

lemmas table_cells =
  cells_of [OF tab_trans_targs_def, simplified] cells_of [OF tab_trans_actions_def, simplified]
  cells_of [OF tab_actions_def, simplified] cells_of [OF tab_key_offsets_def, simplified]
  cells_of [OF tab_single_lengths_def, simplified] cells_of [OF tab_range_lengths_def, simplified]
  cells_of [OF tab_index_offsets_def, simplified] cells_of [OF tab_trans_keys_def, simplified]
  cells_of [OF tab_indicies_def [unfolded tab_indicies_1_def tab_indicies_2_def append.simps], simplified]

text \<open>The actions of a transition, and the row of a state: single keys, ranges, and the default.\<close>

type_synonym target = "table_action list \<times> int"

type_synonym table_row = "(int \<times> target) list \<times> (int \<times> int \<times> target) list \<times> target"

function act_list :: "int \<Rightarrow> int \<Rightarrow> table_action list res" where
  "act_list i n = (if n \<le> 0 then rok [] else rbind (cell tab_actions i) (\<lambda>k.
     rbind (act_list (i + 1) (n - 1)) (\<lambda>as. rok ((case map_of switch_cases k of None \<Rightarrow> [] | Some a \<Rightarrow> [a]) @ as))))"
  by pat_completeness auto
termination
  by (relation "measure (\<lambda>(i, n). nat n)") auto

declare act_list.simps [simp del]

definition old_trans :: "int \<Rightarrow> target res" where
  "old_trans t = rbind (cell tab_trans_targs t) (\<lambda>m. rbind (cell tab_trans_actions t) (\<lambda>a.
     if a = 0 then rok ([], m) else rbind (cell tab_actions a) (\<lambda>n. rbind (act_list (a + 1) n) (\<lambda>as. rok (as, m)))))"

function key_row :: "int \<Rightarrow> int \<Rightarrow> int \<Rightarrow> (int \<times> target) list res" where
  "key_row k i n = (if n \<le> 0 then rok [] else rbind (cell tab_trans_keys k) (\<lambda>x.
     rbind (cell tab_indicies i) (\<lambda>t. rbind (old_trans t) (\<lambda>y. rbind (key_row (k + 1) (i + 1) (n - 1)) (\<lambda>r.
       rok ((x, y) # r))))))"
  by pat_completeness auto
termination
  by (relation "measure (\<lambda>(k, i, n). nat n)") auto

function range_row :: "int \<Rightarrow> int \<Rightarrow> int \<Rightarrow> (int \<times> int \<times> target) list res" where
  "range_row k i n = (if n \<le> 0 then rok [] else rbind (cell tab_trans_keys k) (\<lambda>x.
     rbind (cell tab_trans_keys (k + 1)) (\<lambda>x'. rbind (cell tab_indicies i) (\<lambda>t. rbind (old_trans t) (\<lambda>y.
     rbind (range_row (k + 2) (i + 1) (n - 1)) (\<lambda>r. rok ((x, x', y) # r)))))))"
  by pat_completeness auto
termination
  by (relation "measure (\<lambda>(k, i, n). nat n)") auto

declare key_row.simps [simp del] range_row.simps [simp del]

lemmas switch_lookups = switch_cases_def switch_1_def switch_2_def switch_3_def switch_4_def

lemma distinct_cases: "distinct (map fst switch_cases)"
  by (simp add: switch_lookups)

lemma map_of_list: "t = xs \<Longrightarrow> distinct (map fst t) \<Longrightarrow> list_all (\<lambda>(k, a). map_of t k = Some a) xs"
  by (auto simp: list_all_iff)

lemmas switch_at = map_of_list [OF switch_cases_def [unfolded switch_1_def switch_2_def switch_3_def switch_4_def append.simps]
  distinct_cases, simplified]

section \<open>Rows\<close>

definition ren :: "int \<Rightarrow> int" where
  "ren n = (if n \<le> 190 then n else n - 3)"

primrec ren_command :: "command \<Rightarrow> command" where
  "ren_command (Command k) = Command (k - 1)"

primrec ren_act :: "fsm_act \<Rightarrow> table_action" where
  "ren_act Set_ok = Act_ok"
| "ren_act Zero_u32 = Act_zero"
| "ren_act Digit_u32 = Act_digit"
| "ren_act Take_args_count = Act_count"
| "ren_act Take_arg_size = Act_size"
| "ren_act (Set_command c) = Act_command (ren_command c)"
| "ren_act (Call_blob n) = Act_call"
| "ren_act Start_blob = Act_start_blob"
| "ren_act Advance_blob = Act_advance_blob"

definition row :: "int \<Rightarrow> table_row res" where
  "row cs = rbind (cell tab_key_offsets cs) (\<lambda>k. rbind (cell tab_index_offsets cs) (\<lambda>i.
     rbind (cell tab_single_lengths cs) (\<lambda>n. rbind (cell tab_range_lengths cs) (\<lambda>r.
     rbind (key_row k i n) (\<lambda>ss. rbind (range_row (k + n) (i + n) r) (\<lambda>rs.
     rbind (cell tab_indicies (i + n + r)) (\<lambda>t. rbind (old_trans t) (\<lambda>d. rok (ss, rs, d)))))))))"


text \<open>
  The row that the tests of a state amount to, without the transition to \<^verbatim>\<open>quit\<close> (label 23).
\<close>

definition ren_trans :: "int \<Rightarrow> target" where
  "ren_trans l = (case fsm_trans l of None \<Rightarrow> ([], - 1) | Some (acts, m) \<Rightarrow> (map ren_act acts, ren m))"

fun row_tests :: "fsm_test list \<Rightarrow> table_row" where
  "row_tests [] = ([], [], [], 0)"
| "row_tests (Is c l # ts) = (let (ss, rs, d) = row_tests ts in (if l = 23 then ss else (c, ren_trans l) # ss, rs, d))"
| "row_tests (Between lo hi l # ts) = (let (ss, rs, d) = row_tests ts in (ss, (lo, hi, ren_trans l) # rs, d))"
| "row_tests (Always l # ts) = ([], [], ren_trans l)"

fun shaped :: "fsm_test list \<Rightarrow> bool" where
  "shaped [] = True"
| "shaped (Is c l # ts) = shaped ts"
| "shaped (Between lo hi l # ts) = (fst (row_tests ts) = [] \<and> shaped ts)"
| "shaped (Always l # ts) = True"

definition kept :: "int \<Rightarrow> bool" where
  "kept n \<longleftrightarrow> 1 \<le> n \<and> n \<le> 190 \<or> 194 \<le> n \<and> n \<le> 368"

definition call_fits :: "int \<Rightarrow> bool" where
  "call_fits l = (case fsm_trans l of None \<Rightarrow> False | Some (acts, m) \<Rightarrow>
     (l = 23 \<or> kept m) \<and> list_all (\<lambda>a. case a of Call_blob k \<Rightarrow> k = m \<and> k = 21 | _ \<Rightarrow> True) acts)"

definition row_same :: "int \<Rightarrow> bool" where
  "row_same n \<longleftrightarrow> (case fsm_case n of None \<Rightarrow> False | Some ts \<Rightarrow> row (ren n) = rok (row_tests ts) \<and> shaped ts \<and>
     successively (<) (map fst (fst (row_tests ts))) \<and> length (fst (snd (row_tests ts))) \<le> 1 \<and>
     list_all (\<lambda>(lo, hi, _). lo \<le> hi) (fst (snd (row_tests ts))) \<and>
     list_all (\<lambda>t. call_fits (test_trans t) \<and> (n = 9 \<or> test_trans t \<noteq> 23)) ts)"

lemmas row_evals = row_same_def row_def key_row.simps range_row.simps old_trans_def act_list.simps ren_trans_def ren_def call_fits_def kept_def

lemma rows_same_1: "list_all row_same [1..60]"
  by (simp add: upto_rec1 row_evals table_cells switch_at fsm_lookups)

lemma rows_same_2: "list_all row_same [61..125]"
  by (simp add: upto_rec1 row_evals table_cells switch_at fsm_lookups)

lemma rows_same_3: "list_all row_same [126..190]"
  by (simp add: upto_rec1 row_evals table_cells switch_at fsm_lookups)

lemma rows_same_4: "list_all row_same [194..250]"
  by (simp add: upto_rec1 row_evals table_cells switch_at fsm_lookups)

lemma rows_same_5: "list_all row_same [251..310]"
  by (simp add: upto_rec1 row_evals table_cells switch_at fsm_lookups)

lemma rows_same_6: "list_all row_same [311..368]"
  by (simp add: upto_rec1 row_evals table_cells switch_at fsm_lookups)

lemma row_same: "kept n \<Longrightarrow> row_same n"
proof -
  assume "kept n"
  then have "n \<in> {1..60} \<union> {61..125} \<union> {126..190} \<union> {194..250} \<union> {251..310} \<union> {311..368}"
    by (auto simp: kept_def)
  then show ?thesis
    using rows_same_1 rows_same_2 rows_same_3 rows_same_4 rows_same_5 rows_same_6
    unfolding list_all_iff set_upto by blast
qed

section \<open>Rows and searches\<close>

lemma key_row_at:
  assumes "key_row k i n = rok ss"
  shows "int (length ss) = max 0 n \<and> (\<forall>j < length ss. cell tab_trans_keys (k + int j) = rok (fst (ss ! j)) \<and>
    (\<exists>t. cell tab_indicies (i + int j) = rok t \<and> old_trans t = rok (snd (ss ! j))))"
  using assms
proof (induction k i n arbitrary: ss rule: key_row.induct)
  case (1 k i n)
  show ?case
  proof (cases "n \<le> 0")
    case True
    then show ?thesis
      using 1(2) by (simp add: key_row.simps)
  next
    case False
    then have "rbind (cell tab_trans_keys k) (\<lambda>x. rbind (cell tab_indicies i) (\<lambda>t. rbind (old_trans t) (\<lambda>y.
        rbind (key_row (k + 1) (i + 1) (n - 1)) (\<lambda>r. rok ((x, y) # r))))) = rok ss"
      using 1(2) by (simp add: key_row.simps [of k])
    then obtain x t y r where c: "cell tab_trans_keys k = rok x" "cell tab_indicies i = rok t" "old_trans t = rok y"
      and r: "key_row (k + 1) (i + 1) (n - 1) = rok r" and ss: "ss = (x, y) # r"
      by (auto elim!: rbind_rokE)
    note IH = 1(1) [OF False r]
    show ?thesis
    proof (intro conjI allI impI)
      show "int (length ss) = max 0 n"
        using IH False by (simp add: ss)
      fix j assume j: "j < length ss"
      show "cell tab_trans_keys (k + int j) = rok (fst (ss ! j))"
        and "\<exists>t. cell tab_indicies (i + int j) = rok t \<and> old_trans t = rok (snd (ss ! j))"
        using IH c j by (cases j; force simp: ss algebra_simps)+
    qed
  qed
qed

lemma range_row_at:
  assumes "range_row k i n = rok rs"
  shows "int (length rs) = max 0 n \<and> (\<forall>j < length rs. cell tab_trans_keys (k + 2 * int j) = rok (fst (rs ! j)) \<and>
    cell tab_trans_keys (k + 2 * int j + 1) = rok (fst (snd (rs ! j))) \<and>
    (\<exists>t. cell tab_indicies (i + int j) = rok t \<and> old_trans t = rok (snd (snd (rs ! j)))))"
  using assms
proof (induction k i n arbitrary: rs rule: range_row.induct)
  case (1 k i n)
  show ?case
  proof (cases "n \<le> 0")
    case True
    then show ?thesis
      using 1(2) by (simp add: range_row.simps)
  next
    case False
    then have "rbind (cell tab_trans_keys k) (\<lambda>x. rbind (cell tab_trans_keys (k + 1)) (\<lambda>x'. rbind (cell tab_indicies i) (\<lambda>t.
        rbind (old_trans t) (\<lambda>y. rbind (range_row (k + 2) (i + 1) (n - 1)) (\<lambda>r. rok ((x, x', y) # r)))))) = rok rs"
      using 1(2) by (simp add: range_row.simps [of k])
    then obtain x x' t y r where c: "cell tab_trans_keys k = rok x" "cell tab_trans_keys (k + 1) = rok x'"
      "cell tab_indicies i = rok t" "old_trans t = rok y"
      and r: "range_row (k + 2) (i + 1) (n - 1) = rok r" and rs: "rs = (x, x', y) # r"
      by (auto elim!: rbind_rokE)
    note IH = 1(1) [OF False r]
    show ?thesis
    proof (intro conjI allI impI)
      show "int (length rs) = max 0 n"
        using IH False by (simp add: rs)
      fix j assume j: "j < length rs"
      show "cell tab_trans_keys (k + 2 * int j) = rok (fst (rs ! j))"
        and "cell tab_trans_keys (k + 2 * int j + 1) = rok (fst (snd (rs ! j)))"
        and "\<exists>t. cell tab_indicies (i + int j) = rok t \<and> old_trans t = rok (snd (snd (rs ! j)))"
        using IH c j by (cases j; force simp: rs algebra_simps)+
    qed
  qed
qed

lemma cell_rok: "cell t i = rok x \<longleftrightarrow> 0 \<le> i \<and> i < int (length t) \<and> x = t ! nat i"
  by (auto simp: cell_def)

text \<open>The target of a row for a character, and that the two searches find it.\<close>

primrec in_range :: "int \<Rightarrow> int \<times> int \<times> 'a \<Rightarrow> bool" where
  "in_range c (lo, x) \<longleftrightarrow> lo \<le> c \<and> c \<le> fst x"

definition pick_row :: "table_row \<Rightarrow> int \<Rightarrow> target" where
  "pick_row r c = (case r of (ss, rs, d) \<Rightarrow> (case map_of ss c of
      Some y \<Rightarrow> y
    | None \<Rightarrow> (case find (in_range c) rs of Some (lo, hi, y) \<Rightarrow> y | None \<Rightarrow> d)))"

lemma key_row_keys:
  assumes ss: "key_row k i n = rok ss" and asc: "successively (<) (map fst ss)" and n: "0 < n"
  shows "0 \<le> k" and "k + n - 1 < int (length tab_trans_keys)"
    and "\<forall>a b. k \<le> a \<and> a < b \<and> b \<le> k + n - 1 \<longrightarrow> key_at a < key_at b"
    and "k \<le> m \<Longrightarrow> m \<le> k + n - 1 \<Longrightarrow> \<exists>j < length ss. m = k + int j \<and> fst (ss ! j) = key_at m"
    and "j < length ss \<Longrightarrow> k + int j \<le> k + n - 1 \<and> fst (ss ! j) = key_at (k + int j)"
proof -
  have sorted: "sorted_wrt (<) (map fst ss)"
    using asc by (simp add: strict_sorted_iff successively_conv_sorted_wrt transp_on_less)
  have len: "int (length ss) = n" and at: "\<And>j. j < length ss \<Longrightarrow> 0 \<le> k + int j \<and> k + int j < int (length tab_trans_keys) \<and>
      fst (ss ! j) = key_at (k + int j)"
    using key_row_at [OF ss] n by (auto simp: cell_rok)
  have idx: "\<exists>j < length ss. m = k + int j \<and> fst (ss ! j) = key_at m" if "k \<le> m" "m \<le> k + n - 1" for m
    using that len at by (intro exI [of _ "nat (m - k)"]) auto
  show "0 \<le> k" "k + n - 1 < int (length tab_trans_keys)"
    using at [of 0] at [of "length ss - 1"] len n by (auto simp: of_nat_diff Suc_le_eq)
  have "key_at a < key_at b" if ab: "k \<le> a" "a < b" "b \<le> k + n - 1" for a b
  proof -
    obtain x y where "x < length ss" "a = k + int x" "y < length ss" "b = k + int y"
      using idx [of a] idx [of b] ab by auto
    then show ?thesis
      using sorted_wrt_nth_less [OF sorted, of x y] at ab by auto
  qed
  then show "\<forall>a b. k \<le> a \<and> a < b \<and> b \<le> k + n - 1 \<longrightarrow> key_at a < key_at b"
    by blast
  show "k \<le> m \<Longrightarrow> m \<le> k + n - 1 \<Longrightarrow> \<exists>j < length ss. m = k + int j \<and> fst (ss ! j) = key_at m"
    by (rule idx)
  show "j < length ss \<Longrightarrow> k + int j \<le> k + n - 1 \<and> fst (ss ! j) = key_at (k + int j)"
    using at len by simp
qed

lemma search_key_row:
  assumes ss: "key_row k i n = rok ss" and asc: "successively (<) (map fst ss)" and n: "0 < n"
  shows "\<exists>r. search_key c k (k + n - 1) = rok r \<and> (case r of
      None \<Rightarrow> map_of ss c = None
    | Some m \<Rightarrow> \<exists>t y. cell tab_indicies (i + (m - k)) = rok t \<and> old_trans t = rok y \<and> map_of ss c = Some y)"
proof -
  note keys = key_row_keys [OF ss asc n]
  obtain r where r: "search_key c k (k + n - 1) = rok r" "case r of
      None \<Rightarrow> \<forall>i. k \<le> i \<and> i \<le> k + n - 1 \<longrightarrow> key_at i \<noteq> c
    | Some m \<Rightarrow> k \<le> m \<and> m \<le> k + n - 1 \<and> key_at m = c"
    using search_key_finds [OF keys(1-3), of c] by blast
  show ?thesis
  proof (intro exI [of _ r] conjI)
    show "case r of None \<Rightarrow> map_of ss c = None
      | Some m \<Rightarrow> \<exists>t y. cell tab_indicies (i + (m - k)) = rok t \<and> old_trans t = rok y \<and> map_of ss c = Some y"
    proof (cases r)
      case None
      then have none: "\<forall>i. k \<le> i \<and> i \<le> k + n - 1 \<longrightarrow> key_at i \<noteq> c"
        using r(2) by simp
      have "c \<noteq> fst (ss ! j)" if "j < length ss" for j
        using none [THEN spec, of "k + int j"] keys(5) [OF that] by simp
      then have "\<forall>x \<in> set ss. c \<noteq> fst x"
        unfolding all_set_conv_all_nth by blast
      then show ?thesis
        using None by (auto simp: map_of_eq_None_iff)
    next
      case (Some m)
      then obtain j where j: "j < length ss" "m = k + int j" "fst (ss ! j) = c"
        using r(2) keys(4) [of m] by auto
      then have "(c, snd (ss ! j)) \<in> set ss"
        by (metis nth_mem prod.collapse)
      moreover have "distinct (map fst ss)"
        using asc by (metis strict_sorted_iff successively_conv_sorted_wrt transp_on_less)
      ultimately have "map_of ss c = Some (snd (ss ! j))"
        by simp
      then show ?thesis
        using Some j key_row_at [OF ss] by auto
    qed
  qed (rule r)
qed

lemma search_range_row:
  assumes rs: "range_row k i n = rok rs" and one: "length rs \<le> 1" "list_all (\<lambda>(lo, hi, _). lo \<le> hi) rs" and n: "0 < n"
  shows "\<exists>r. search_range c k (k + push_bit 1 n - 2) = rok r \<and> (case r of
      None \<Rightarrow> find (in_range c) rs = None
    | Some m \<Rightarrow> \<exists>t lo hi y. cell tab_indicies (i + drop_bit 1 (m - k)) = rok t \<and> old_trans t = rok y \<and>
        find (in_range c) rs = Some (lo, hi, y))"
proof -
  have "length rs = 1"
    using range_row_at [OF rs] one n by linarith
  then obtain lo hi y where eq: "rs = [(lo, hi, y)]"
    by (cases rs) auto
  then have n1: "n = 1" and at: "0 \<le> k" "k + 1 < int (length tab_trans_keys)" "lo = key_at k" "hi = key_at (k + 1)"
    and t: "\<exists>t. cell tab_indicies i = rok t \<and> old_trans t = rok y"
    using range_row_at [OF rs] by (auto simp: cell_rok)
  obtain r where r: "search_range c k k = rok r" "case r of
      None \<Rightarrow> \<forall>i. k \<le> i \<and> i \<le> k \<and> even (i - k) \<longrightarrow> \<not> (key_at i \<le> c \<and> c \<le> key_at (i + 1))
    | Some m \<Rightarrow> k \<le> m \<and> m \<le> k \<and> even (m - k) \<and> key_at m \<le> c \<and> c \<le> key_at (m + 1)"
  proof -
    have "key_at k \<le> key_at (k + 1)"
      using at one(2) eq by simp
    then have "\<forall>i. k \<le> i \<and> i \<le> k \<and> even (i - k) \<longrightarrow> key_at i \<le> key_at (i + 1)"
      by (metis order_antisym)
    from search_range_finds [of k k, OF at(1,2) _ _ this, of c] show thesis
      using that by fastforce
  qed
  then show ?thesis
    using t at eq by (intro exI [of _ r]) (auto simp: n1 split: option.splits)
qed

lemma find_transition_row:
  assumes row: "row cs = rok (ss, rs, d)" and asc: "successively (<) (map fst ss)"
    and one: "length rs \<le> 1" "list_all (\<lambda>(lo, hi, _). lo \<le> hi) rs"
  shows "\<exists>i t. find_transition cs c = rok i \<and> cell tab_indicies i = rok t \<and> old_trans t = rok (pick_row (ss, rs, d) c)"
proof -
  obtain k i n r t where cells: "cell tab_key_offsets cs = rok k" "cell tab_index_offsets cs = rok i"
    "cell tab_single_lengths cs = rok n" "cell tab_range_lengths cs = rok r"
    and rows: "key_row k i n = rok ss" "range_row (k + n) (i + n) r = rok rs"
    and d: "cell tab_indicies (i + n + r) = rok t" "old_trans t = rok d"
    using row unfolding row_def by (auto elim!: rbind_rokE)
  have empty: "n \<le> 0 \<Longrightarrow> ss = []" "r \<le> 0 \<Longrightarrow> rs = []"
    using key_row_at [OF rows(1)] range_row_at [OF rows(2)] by auto
  obtain f where f: "(if n > 0 then search_key c k (k + n - 1) else rok None) = rok f" "case f of
      None \<Rightarrow> map_of ss c = None
    | Some m \<Rightarrow> \<exists>t y. cell tab_indicies (i + (m - k)) = rok t \<and> old_trans t = rok y \<and> map_of ss c = Some y"
    using search_key_row [OF rows(1) asc, of c] empty(1) by (cases "n > 0") auto
  obtain g where g: "(if r > 0 then search_range c (k + n) (k + n + push_bit 1 r - 2) else rok None) = rok g" "case g of
      None \<Rightarrow> find (in_range c) rs = None
    | Some m \<Rightarrow> \<exists>t lo hi y. cell tab_indicies (i + n + drop_bit 1 (m - (k + n))) = rok t \<and> old_trans t = rok y \<and>
        find (in_range c) rs = Some (lo, hi, y)"
    using search_range_row [OF rows(2) one, of c] empty(2) by (cases "r > 0") auto
  have "find_transition cs c = (case f of Some m \<Rightarrow> rok (i + (m - k))
     | None \<Rightarrow> (case g of Some m \<Rightarrow> rok (i + n + drop_bit 1 (m - (k + n))) | None \<Rightarrow> rok (i + n + r)))"
    unfolding find_transition_def cells rbind_simps f(1) Let_def g(1) ..
  then show ?thesis
    using f(2) g(2) d by (cases f; cases g) (auto simp: pick_row_def)
qed

section \<open>The same choice\<close>

lemma pick_row_simps:
  "pick_row ((x, y) # ss, rs, d) c = (if x = c then y else pick_row (ss, rs, d) c)"
  "pick_row ([], (lo, hi, y) # rs, d) c = (if lo \<le> c \<and> c \<le> hi then y else pick_row ([], rs, d) c)"
  "pick_row ([], [], d) c = d"
  by (simp_all add: pick_row_def)

lemma pick_row_tests:
  assumes "shaped ts"
  shows "(\<forall>l. pick_test ts c = Some l \<longrightarrow> l \<noteq> 23 \<longrightarrow> pick_row (row_tests ts) c = ren_trans l) \<and>
    (pick_test ts c = None \<longrightarrow> pick_row (row_tests ts) c = ([], 0))"
  using assms
  by (induction ts rule: row_tests.induct) (auto simp: pick_row_simps Let_def split: prod.splits)

section \<open>The searches against a scan\<close>

text \<open>
  The first key equal to \<open>c\<close>, else the first range around it, else the default, by reading all of them.
\<close>

definition scan_transition :: "int \<Rightarrow> int \<Rightarrow> int res" where
  "scan_transition cs c =
     rbind (cell tab_key_offsets cs) (\<lambda>k. rbind (cell tab_index_offsets cs) (\<lambda>i.
     rbind (cell tab_single_lengths cs) (\<lambda>n. rbind (cell tab_range_lengths cs) (\<lambda>r. rok (
       case find (\<lambda>j. key_at (k + j) = c) [0..n - 1] of
         Some j \<Rightarrow> i + j
       | None \<Rightarrow> (case find (\<lambda>j. key_at (k + n + 2 * j) \<le> c \<and> c \<le> key_at (k + n + 2 * j + 1)) [0..r - 1] of
           Some j \<Rightarrow> i + n + j
         | None \<Rightarrow> i + n + r))))))"

lemma find_unique:
  assumes "x \<in> set xs" and "P x" and "\<forall>y \<in> set xs. P y \<longrightarrow> y = x"
  shows "find P xs = Some x"
proof -
  obtain y where y: "find P xs = Some y"
    using assms(1,2) find_None_iff [of P xs] by auto
  then have "y \<in> set xs" "P y"
    by (auto simp: find_Some_iff)
  then show ?thesis
    using assms(3) y by blast
qed

lemma search_key_scan:
  assumes ss: "key_row k i n = rok ss" and asc: "successively (<) (map fst ss)"
  shows "(if n > 0 then search_key c k (k + n - 1) else rok None) =
    rok (map_option (\<lambda>j. k + j) (find (\<lambda>j. key_at (k + j) = c) [0..n - 1]))"
proof (cases "n > 0")
  case True
  note keys = key_row_keys [OF ss asc True]
  obtain r where r: "search_key c k (k + n - 1) = rok r" "case r of
      None \<Rightarrow> \<forall>i. k \<le> i \<and> i \<le> k + n - 1 \<longrightarrow> key_at i \<noteq> c
    | Some m \<Rightarrow> k \<le> m \<and> m \<le> k + n - 1 \<and> key_at m = c"
    using search_key_finds [OF keys(1-3), of c] by blast
  have "find (\<lambda>j. key_at (k + j) = c) [0..n - 1] = map_option (\<lambda>m. m - k) r"
  proof (cases r)
    case None
    then show ?thesis
      using r(2) by (auto simp: find_None_iff)
  next
    case (Some m)
    have "y = m - k" if y: "y \<in> set [0..n - 1]" "key_at (k + y) = c" for y
    proof -
      have "\<not> k + y < m" "\<not> m < k + y"
        using keys(3) [rule_format, of "k + y" m] keys(3) [rule_format, of m "k + y"] r(2) Some y by auto
      then show ?thesis by linarith
    qed
    then show ?thesis
      using r(2) Some by (simp, intro find_unique) auto
  qed
  then show ?thesis
    using True r(1) by (cases r) auto
next
  case False
  then show ?thesis
    by simp
qed

lemma search_range_scan:
  assumes rs: "range_row k i n = rok rs" and one: "length rs \<le> 1" "list_all (\<lambda>(lo, hi, _). lo \<le> hi) rs"
  shows "(if n > 0 then search_range c k (k + push_bit 1 n - 2) else rok None) =
    rok (map_option (\<lambda>j. k + 2 * j) (find (\<lambda>j. key_at (k + 2 * j) \<le> c \<and> c \<le> key_at (k + 2 * j + 1)) [0..n - 1]))"
proof (cases "n > 0")
  case True
  obtain lo hi y where eq: "n = 1" "rs = [(lo, hi, y)]" and at: "0 \<le> k" "k + 1 < int (length tab_trans_keys)"
    "key_at k \<le> key_at (k + 1)"
    using range_row_at [OF rs] one True by (cases rs) (auto simp: cell_rok)
  have "\<forall>i. k \<le> i \<and> i \<le> k \<and> even (i - k) \<longrightarrow> key_at i \<le> key_at (i + 1)"
    using at(3) by (metis order_antisym)
  from search_range_finds [of k k, OF at(1,2) _ _ this, of c] obtain r where r: "search_range c k k = rok r" "case r of
      None \<Rightarrow> \<forall>i. k \<le> i \<and> i \<le> k \<and> even (i - k) \<longrightarrow> \<not> (key_at i \<le> c \<and> c \<le> key_at (i + 1))
    | Some m \<Rightarrow> k \<le> m \<and> m \<le> k \<and> even (m - k) \<and> key_at m \<le> c \<and> c \<le> key_at (m + 1)"
    by fastforce
  then show ?thesis
    by (auto simp: eq split: option.splits)
next
  case False
  then show ?thesis
    by simp
qed

lemma ren_surj: "1 \<le> cs \<Longrightarrow> cs \<le> 365 \<Longrightarrow> \<exists>n. kept n \<and> ren n = cs"
  by (intro exI [of _ "if cs \<le> 190 then cs else cs + 3"]) (auto simp: kept_def ren_def)

lemma find_transition_eq:
  assumes row: "row cs = rok (ss, rs, d)" and asc: "successively (<) (map fst ss)"
    and one: "length rs \<le> 1" "list_all (\<lambda>(lo, hi, _). lo \<le> hi) rs"
  shows "find_transition cs c = scan_transition cs c"
proof -
  obtain k i n r where cells: "cell tab_key_offsets cs = rok k" "cell tab_index_offsets cs = rok i"
    "cell tab_single_lengths cs = rok n" "cell tab_range_lengths cs = rok r"
    and rows: "key_row k i n = rok ss" "range_row (k + n) (i + n) r = rok rs"
    using row unfolding row_def by (auto elim!: rbind_rokE)
  show ?thesis
    unfolding find_transition_def scan_transition_def cells rbind_simps search_key_scan [OF rows(1) asc] Let_def
      search_range_scan [OF rows(2) one]
    by (auto simp: drop_bit_eq_div split: option.splits)
qed

end
