(* ===== verification/Redis_Words.thy ===== *)
theory Redis_Words
  imports Redis_Parser
begin

text \<open>
  The command words of the request parser: which words take the automaton of
  \<^verbatim>\<open>src/include/redis_protocol_parser.hh\<close> from state 9, where a word begins, to state 16, behind the
  carriage return that ends it, and what they leave in \<^verbatim>\<open>_command\<close>. \<open>walk\<close> lists the words by
  following the letters of the states; the list it computes is \<open>accepted_words\<close>, and
  \<open>map_of_accepted\<close> compares it with the enumerators of \<^verbatim>\<open>enum class command\<close>.
\<close>


section \<open>Command words\<close>

text \<open>The words of state 9 and the command each sets, in the order in which a walk through the
  states meets them.\<close>

definition accepted_words :: "(string \<times> command) list" where
  "accepted_words = [
    (''append'', Cmd_append), (''bitcount'', Cmd_bitcount), (''bitfield'', Cmd_bitfield),
    (''bitop'', Cmd_bitop), (''bitpos'', Cmd_bitpos), (''command'', Cmd_command),
    (''decr'', Cmd_decrby), (''decrby'', Cmd_decrby), (''del'', Cmd_del), (''echo'', Cmd_echo),
    (''exists'', Cmd_exists), (''expire'', Cmd_expire), (''geoadd'', Cmd_geoadd),
    (''geodist'', Cmd_geodist), (''geohash'', Cmd_geohash), (''geopos'', Cmd_geopos),
    (''georadius'', Cmd_georadius), (''georadiusbymember'', Cmd_georadiusbymember),
    (''get'', Cmd_get), (''getbit'', Cmd_getbit), (''hdel'', Cmd_hdel),
    (''hexists'', Cmd_hexists), (''hget'', Cmd_hget), (''hgetall'', Cmd_hgetall),
    (''hincrby'', Cmd_hincrbyfloat), (''hincrbyfloat'', Cmd_hincrbyfloat), (''hkeys'', Cmd_hkeys),
    (''hlen'', Cmd_hlen), (''hmget'', Cmd_hmget), (''hmset'', Cmd_hmset), (''hset'', Cmd_hset),
    (''hstrlen'', Cmd_hstrlen), (''hvals'', Cmd_hvals), (''incr'', Cmd_incrby),
    (''incrby'', Cmd_incrby), (''info'', Cmd_info), (''js'', Cmd_js), (''lindex'', Cmd_lindex),
    (''linsert'', Cmd_linsert), (''llen'', Cmd_llen), (''lpop'', Cmd_lpop),
    (''lpush'', Cmd_lpush), (''lpushx'', Cmd_lpushx), (''lrange'', Cmd_lrange),
    (''lrem'', Cmd_lrem), (''lset'', Cmd_lset), (''ltrim'', Cmd_ltrim), (''mget'', Cmd_mget),
    (''mset'', Cmd_mset), (''persist'', Cmd_persist), (''pexpire'', Cmd_pexpire),
    (''pfadd'', Cmd_pfadd), (''pfcount'', Cmd_pfcount), (''pfmerge'', Cmd_pfmerge),
    (''ping'', Cmd_ping), (''pttl'', Cmd_pttl), (''quit'', Cmd_quit), (''rpop'', Cmd_rpop),
    (''rpush'', Cmd_rpush), (''rpushx'', Cmd_rpushx), (''sadd'', Cmd_sadd),
    (''scard'', Cmd_scard), (''sdiff'', Cmd_sdiff), (''sdiffstore'', Cmd_sdiffstore),
    (''select'', Cmd_select), (''set'', Cmd_set), (''setbit'', Cmd_setbit),
    (''sinter'', Cmd_sinter), (''sinterstore'', Cmd_sinterstore), (''sismember'', Cmd_sismember),
    (''smembers'', Cmd_smembers), (''smove'', Cmd_smove), (''spop'', Cmd_spop),
    (''srandmember'', Cmd_srandmember), (''srem'', Cmd_srem), (''strlen'', Cmd_strlen),
    (''sunion'', Cmd_sunion), (''sunionstore'', Cmd_sunionstore), (''ttl'', Cmd_ttl),
    (''type'', Cmd_type), (''zadd'', Cmd_zadd), (''zcard'', Cmd_zcard), (''zcount'', Cmd_zcount),
    (''zdiffstore'', Cmd_zdiffstore), (''zincrby'', Cmd_zincrby), (''zinter'', Cmd_zinter),
    (''zinterstore'', Cmd_zinterstore), (''zlexcount'', Cmd_zlexcount), (''zrange'', Cmd_zrange),
    (''zrangebylex'', Cmd_zrangebylex), (''zrangebyscore'', Cmd_zrangebyscore),
    (''zrank'', Cmd_zrank), (''zrem'', Cmd_zrem), (''zremrangebylex'', Cmd_zremrangebylex),
    (''zremrangebyrank'', Cmd_zremrangebyrank), (''zremrangebyscore'', Cmd_zremrangebyscore),
    (''zrevrange'', Cmd_zrevrange), (''zrevrangebyscore'', Cmd_zrevrangebyscore),
    (''zrevrank'', Cmd_zrevrank), (''zscan'', Cmd_zscan), (''zscore'', Cmd_zscore),
    (''zunion'', Cmd_zdiff), (''zunionstore'', Cmd_zunionstore)]"

definition lower_code :: "int \<Rightarrow> int" where
  "lower_code c = (if 65 \<le> c \<and> c \<le> 90 then c + 32 else c)"

definition lower_letter :: "int \<Rightarrow> bool" where
  "lower_letter c \<longleftrightarrow> 97 \<le> c \<and> c \<le> 122"

definition word_state :: "int \<Rightarrow> bool" where
  "word_state n \<longleftrightarrow> 9 \<le> n \<and> n \<le> 15 \<or> 23 \<le> n \<and> n \<le> 365"

definition last_command :: "fsm_act list \<Rightarrow> command \<Rightarrow> command" where
  "last_command acts c = fold (\<lambda>a c. case a of Set_command k \<Rightarrow> k | _ \<Rightarrow> c) acts c"

definition word_act :: "fsm_act \<Rightarrow> bool" where
  "word_act a \<longleftrightarrow> (case a of Set_ok \<Rightarrow> True | Set_command k \<Rightarrow> True | _ \<Rightarrow> False)"

definition word_test_ok :: "fsm_test list \<Rightarrow> fsm_test \<Rightarrow> bool" where
  "word_test_ok ts t = (case t of
      Is x m \<Rightarrow> x = 13 \<and> m = 33
        \<or> lower_letter (lower_code x) \<and> pick_test ts (lower_code x) = Some m
          \<and> pick_test ts (lower_code x - 32) = Some m
          \<and> (case fsm_trans m of None \<Rightarrow> False | Some (acts, n) \<Rightarrow>
               word_state n \<and> Set_ok \<in> set acts \<and> list_all word_act acts)
    | _ \<Rightarrow> False)"

definition word_case_ok :: "int \<times> fsm_test list \<Rightarrow> bool" where
  "word_case_ok x = (word_state (fst x) \<longrightarrow> list_all (word_test_ok (snd x)) (snd x))"

lemma word_cases_ok: "list_all word_case_ok (state_blocks fsm_blocks)"
  unfolding fsm_blocks_def fsm_part_defs
  by (simp add: fsm_lookups word_case_ok_def word_test_ok_def word_state_def lower_letter_def
    lower_code_def word_act_def)

primrec walk :: "nat \<Rightarrow> int \<Rightarrow> command \<Rightarrow> (int list \<times> command) list" where
  "walk 0 n c = []"
| "walk (Suc k) n c = (case fsm_case n of None \<Rightarrow> [] | Some ts \<Rightarrow>
     concat (map (\<lambda>t. case t of
         Is x m \<Rightarrow> if x = 13 then [([], c)]
           else if lower_letter x then (case fsm_trans m of None \<Rightarrow> [] | Some (acts, n') \<Rightarrow>
             map (\<lambda>(w, d). (x # w, d)) (walk k n' (last_command acts c)))
           else []
       | _ \<Rightarrow> []) ts))"

lemma walk_9: "walk (j + 18) 9 c = map (\<lambda>(w, k). (map schar w, k)) accepted_words"
  by (simp add: eval_nat_numeral fsm_lookups lower_letter_def last_command_def accepted_words_def schar_def)

definition letter :: "int \<Rightarrow> bool" where
  "letter c \<longleftrightarrow> lower_letter (lower_code c)"

text \<open>The tests of a state inside a word: a letter of either case, or the end of the word.\<close>

lemma word_case_tests:
  assumes "fsm_case n = Some ts" and "word_state n" and "t \<in> set ts"
  shows "word_test_ok ts t"
proof -
  have "(n, ts) \<in> set (state_blocks fsm_blocks)"
    using assms(1) unfolding fsm_case_def by (rule map_of_SomeD)
  then have "word_case_ok (n, ts)"
    using word_cases_ok unfolding list_all_iff by blast
  then show ?thesis
    using assms(2,3) by (simp add: word_case_ok_def list_all_iff)
qed

lemma pick_test_Is:
  "\<forall>t\<in>set ts. \<exists>x m. t = Is x m \<Longrightarrow> pick_test ts c = Some m \<Longrightarrow> Is c m \<in> set ts"
  by (induction ts) (auto split: if_splits)

lemma word_test_Is: "word_test_ok ts t \<Longrightarrow> \<exists>x m. t = Is x m"
  by (cases t) (simp_all add: word_test_ok_def)

lemma letter_cases: "letter x \<Longrightarrow> x = lower_code x \<or> x = lower_code x - 32"
  by (auto simp: letter_def lower_letter_def lower_code_def split: if_splits)

lemma lower_code_idem [simp]: "lower_code (lower_code x) = lower_code x"
  by (simp add: lower_code_def)

lemma word_pick:
  assumes ts: "fsm_case n = Some ts" and w: "word_state n" and x: "x \<noteq> 13"
    and p: "pick_test ts x = Some m \<or> pick_test ts (lower_code x) = Some m"
  shows "letter x \<and> pick_test ts x = Some m \<and> pick_test ts (lower_code x) = Some m \<and>
    Is (lower_code x) m \<in> set ts \<and>
    (\<exists>acts n'. fsm_trans m = Some (acts, n') \<and> word_state n' \<and> Set_ok \<in> set acts \<and>
      list_all word_act acts)"
proof -
  have all_Is: "\<forall>t\<in>set ts. \<exists>x m. t = Is x m"
    using word_case_tests [OF ts w] word_test_Is by blast
  have lx: "lower_code x \<noteq> 13"
    using x by (auto simp: lower_code_def)
  obtain y where y: "Is y m \<in> set ts" "y = x \<or> y = lower_code x"
    using p pick_test_Is [OF all_Is] by blast
  have ly: "lower_code y = lower_code x" "y \<noteq> 13"
    using y(2) x lx by auto
  have ok: "letter y" "pick_test ts (lower_code y) = Some m" "pick_test ts (lower_code y - 32) = Some m"
    "\<exists>acts n'. fsm_trans m = Some (acts, n') \<and> word_state n' \<and> Set_ok \<in> set acts \<and> list_all word_act acts"
    using word_case_tests [OF ts w y(1)] ly(2)
    by (auto simp: word_test_ok_def letter_def split: option.splits prod.splits)
  have "letter x"
    using ok(1) ly(1) by (simp add: letter_def)
  then have "pick_test ts x = Some m"
    using letter_cases [of x] ok(2,3) ly(1) by metis
  moreover have low: "pick_test ts (lower_code x) = Some m"
    using ok(2) ly(1) by simp
  ultimately show ?thesis
    using pick_test_Is [OF all_Is low] ok(4) \<open>letter x\<close> by blast
qed

lemma run_effects_word:
  "list_all word_act acts \<Longrightarrow> run_effects acts m c s =
     (if Set_ok \<in> set acts then s\<lparr>p_state := State_ok\<rparr> else s)
       \<lparr>p_command := last_command acts (p_command s), fsm_cs := m\<rparr>"
proof (induction acts arbitrary: s)
  case (Cons a acts)
  then show ?case
    by (cases a) (simp_all add: word_act_def plain_effect_def last_command_def)
qed (simp add: last_command_def)

lemma plain_byte_word:
  assumes "fsm_case (fsm_cs a) = Some ts" and "pick_test ts x = Some m"
    and "fsm_trans m = Some (acts, n)" and "Set_ok \<in> set acts" and "list_all word_act acts"
  shows "plain_byte a x = Some (a\<lparr>p_state := State_ok,
    p_command := last_command acts (p_command a), fsm_cs := n\<rparr>)"
  using assms by (simp add: plain_byte_def run_effects_word)

lemma end_of_word: "fsm_trans 33 = Some ([Set_ok], 16)"
  by (simp add: fsm_lookups)

lemma set_state_labels: "set state_labels = {1..22} \<union> {367} \<union> {23..366} \<union> {368}"
  by (simp only: state_labels_eq set_append set_upto list.set Un_assoc)

lemma word_state_exists: "word_state n \<Longrightarrow> \<exists>ts. fsm_case n = Some ts"
proof -
  assume "word_state n"
  then have "n \<in> set state_labels"
    by (auto simp: set_state_labels word_state_def)
  then have "fsm_case n \<noteq> None"
    by (simp add: state_labels_def fsm_case_def map_of_eq_None_iff)
  then show ?thesis by blast
qed

lemma word_not_blob: "word_state n \<Longrightarrow> \<not> blob_case n"
  by (auto simp: word_state_def blob_case_def)

lemma schar_13: "schar c = 13 \<longleftrightarrow> c = CHR 0x0D"
proof
  assume s: "schar c = 13"
  have "(of_char c :: nat) \<in> {0..<256}"
    using range_nat_of_char by blast
  moreover have "(of_char c :: int) = int (of_char c)"
    by (rule of_nat_of_char [symmetric])
  ultimately have "(of_char c :: nat) = 13"
    using s unfolding schar_def Let_def by (simp only: atLeastLessThan_iff split: if_splits)
  then have "(of_char c :: nat) = of_char (CHR 0x0D)"
    by simp
  then show "c = CHR 0x0D"
    by (simp only: of_char_eq_iff)
qed (simp add: schar_def)

definition walk_test :: "nat \<Rightarrow> command \<Rightarrow> fsm_test \<Rightarrow> (int list \<times> command) list" where
  "walk_test k c t = (case t of
       Is x m \<Rightarrow> if x = 13 then [([], c)]
         else if lower_letter x then (case fsm_trans m of None \<Rightarrow> [] | Some (acts, n') \<Rightarrow>
           map (\<lambda>(w, d). (x # w, d)) (walk k n' (last_command acts c)))
         else []
     | _ \<Rightarrow> [])"

lemma in_map_Cons: "(v, d) \<in> set (map (\<lambda>(w, d). (x # w, d)) l) \<longleftrightarrow> (\<exists>u. v = x # u \<and> (u, d) \<in> set l)"
  by (induction l) auto

lemma in_walk_test: "(v, d) \<in> set (walk_test k c (Is x m)) \<longleftrightarrow>
    x = 13 \<and> v = [] \<and> d = c \<or>
    x \<noteq> 13 \<and> lower_letter x \<and> (\<exists>acts n' u. fsm_trans m = Some (acts, n') \<and> v = x # u \<and>
      (u, d) \<in> set (walk k n' (last_command acts c)))"
proof (cases "fsm_trans m")
  case (Some r)
  then obtain acts n' where t: "fsm_trans m = Some (acts, n')"
    by (cases r) blast
  have "walk_test k c (Is x m) = (if x = 13 then [([], c)] else if lower_letter x
      then map (\<lambda>(w, d). (x # w, d)) (walk k n' (last_command acts c)) else [])"
    unfolding walk_test_def by (simp only: t fsm_test.case option.case prod.case cong: if_cong)
  moreover have "(\<exists>acts n' u. fsm_trans m = Some (acts, n') \<and> v = x # u \<and>
        (u, d) \<in> set (walk k n' (last_command acts c))) \<longleftrightarrow>
      (\<exists>u. v = x # u \<and> (u, d) \<in> set (walk k n' (last_command acts c)))"
    unfolding t by blast
  ultimately show ?thesis
    by (simp add: in_map_Cons del: set_map)
next
  case None
  then have "walk_test k c (Is x m) = (if x = 13 then [([], c)] else [])"
    by (simp add: walk_test_def)
  then have "(v, d) \<in> set (walk_test k c (Is x m)) \<longleftrightarrow> x = 13 \<and> v = [] \<and> d = c"
    by auto
  moreover have "fsm_trans m \<noteq> Some (acts, n')" for acts n'
    unfolding None by (rule option.distinct(1))
  ultimately show ?thesis
    by blast
qed

lemma walk_Suc: "fsm_case n = Some ts \<Longrightarrow> walk (Suc k) n c = concat (map (walk_test k c) ts)"
proof -
  have "walk_test k c = (\<lambda>t. case t of
         Is x m \<Rightarrow> if x = 13 then [([], c)]
           else if lower_letter x then (case fsm_trans m of None \<Rightarrow> [] | Some (acts, n') \<Rightarrow>
             map (\<lambda>(w, d). (x # w, d)) (walk k n' (last_command acts c)))
           else []
       | _ \<Rightarrow> [])"
    by (rule ext) (simp only: walk_test_def)
  then show "fsm_case n = Some ts \<Longrightarrow> ?thesis"
    by (simp only: walk.simps option.case)
qed

lemma in_walk_Suc:
  assumes ts: "fsm_case n = Some ts" and w: "word_state n"
  shows "([], d) \<in> set (walk (Suc k) n c) \<longleftrightarrow> pick_test ts 13 \<noteq> None \<and> d = c"
    and "lower_code x = x \<Longrightarrow> x \<noteq> 13 \<Longrightarrow> (x # v, d) \<in> set (walk (Suc k) n c) \<longleftrightarrow>
      (\<exists>m acts n'. pick_test ts x = Some m \<and> fsm_trans m = Some (acts, n') \<and>
        (v, d) \<in> set (walk k n' (last_command acts c)))"
proof -
  have all_Is: "\<forall>t\<in>set ts. \<exists>x m. t = Is x m"
    using word_case_tests [OF ts w] word_test_Is by blast
  have pick_Some: "pick_test ts c \<noteq> None \<longleftrightarrow> (\<exists>m. Is c m \<in> set ts)" for c
    using all_Is by (induction ts) (auto split: if_splits)
  have mem: "e \<in> set (walk (Suc k) n c) \<longleftrightarrow> (\<exists>x m. Is x m \<in> set ts \<and> e \<in> set (walk_test k c (Is x m)))" for e
    using all_Is by (force simp: walk_Suc [OF ts] simp del: walk.simps)
  show "([], d) \<in> set (walk (Suc k) n c) \<longleftrightarrow> pick_test ts 13 \<noteq> None \<and> d = c"
    unfolding pick_Some mem in_walk_test by blast
  show "(x # v, d) \<in> set (walk (Suc k) n c) \<longleftrightarrow>
      (\<exists>m acts n'. pick_test ts x = Some m \<and> fsm_trans m = Some (acts, n') \<and>
        (v, d) \<in> set (walk k n' (last_command acts c)))" (is "?l \<longleftrightarrow> ?r")
    if x: "lower_code x = x" "x \<noteq> 13"
  proof
    assume ?l
    then obtain m acts n' where m: "Is x m \<in> set ts" and r: "fsm_trans m = Some (acts, n')"
      "(v, d) \<in> set (walk k n' (last_command acts c))"
      unfolding mem in_walk_test by blast
    have "pick_test ts x = Some m"
      using word_case_tests [OF ts w m] x by (simp add: word_test_ok_def)
    then show ?r
      using r by blast
  next
    assume ?r
    then obtain m acts n' where m: "pick_test ts x = Some m" "fsm_trans m = Some (acts, n')"
      "(v, d) \<in> set (walk k n' (last_command acts c))"
      by blast
    have "letter x" "Is x m \<in> set ts"
      using word_pick [OF ts w x(2) disjI1 [OF m(1)]] x(1) by simp_all
    then show ?l
      using m x unfolding mem in_walk_test letter_def by auto
  qed
qed

text \<open>Reading a word and the carriage return that ends it.\<close>

lemma read_word:
  assumes "word_state (fsm_cs a)" and "CHR 0x0D \<notin> set w" and "length w < k"
  shows "(\<forall>d. (map (\<lambda>c. lower_code (schar c)) w, d) \<in> set (walk k (fsm_cs a) (p_command a)) \<longrightarrow>
       byte_run a (w @ CHR 0x0D # ys) =
       byte_run (a\<lparr>p_state := State_ok, p_command := d, fsm_cs := 16\<rparr>) ys) \<and>
    ((\<forall>d. (map (\<lambda>c. lower_code (schar c)) w, d) \<notin> set (walk k (fsm_cs a) (p_command a))) \<longrightarrow>
       fsm_cs (fst (byte_run a (w @ CHR 0x0D # ys))) = 0 \<and>
       snd (byte_run a (w @ CHR 0x0D # ys)) \<noteq> [])"
  using assms
proof (induction w arbitrary: a k)
  case Nil
  then obtain k' where k: "k = Suc k'"
    by (cases k) auto
  obtain ts where ts: "fsm_case (fsm_cs a) = Some ts"
    using word_state_exists [OF Nil.prems(1)] by blast
  have s13: "schar (CHR 0x0D) = 13"
    by (simp add: schar_13)
  have m33: "pick_test ts 13 = Some m \<Longrightarrow> m = 33" for m
    using word_case_tests [OF ts Nil.prems(1)] word_test_Is pick_test_Is [of ts 13 m]
    by (fastforce simp: word_test_ok_def lower_letter_def lower_code_def)
  show ?case
  proof (cases "pick_test ts 13")
    case None
    then have "plain_byte a 13 = None"
      by (simp add: plain_byte_def ts)
    then show ?thesis
      using None in_walk_Suc(1) [OF ts Nil.prems(1)]
      by (simp add: byte_run_plain [OF word_not_blob [OF Nil.prems(1)]] s13 k del: walk.simps byte_run.simps)
  next
    case (Some m)
    then have "pick_test ts 13 = Some 33"
      using m33 by simp
    then have "plain_byte a 13 = Some (a\<lparr>p_state := State_ok, fsm_cs := 16\<rparr>)"
      by (simp add: plain_byte_def ts end_of_word plain_effect_def)
    also have "a\<lparr>p_state := State_ok, fsm_cs := 16\<rparr> =
        a\<lparr>p_state := State_ok, p_command := p_command a, fsm_cs := 16\<rparr>"
      by (cases a) simp
    finally show ?thesis
      using Some in_walk_Suc(1) [OF ts Nil.prems(1)]
      by (simp add: byte_run_plain [OF word_not_blob [OF Nil.prems(1)]] s13 k del: walk.simps byte_run.simps)
  qed
next
  case (Cons c w)
  then obtain k' where k: "k = Suc k'" "length w < k'"
    by (cases k) auto
  obtain ts where ts: "fsm_case (fsm_cs a) = Some ts"
    using word_state_exists [OF Cons.prems(1)] by blast
  let ?x = "schar c"
  have x: "?x \<noteq> 13" "lower_code ?x \<noteq> 13"
    using Cons.prems(2) by (auto simp: schar_13 lower_code_def)
  note run = byte_run_plain [OF word_not_blob [OF Cons.prems(1)], of c]
  show ?case
  proof (cases "pick_test ts (lower_code ?x)")
    case None
    then have "pick_test ts ?x = None"
      using word_pick [OF ts Cons.prems(1) x(1)] by (metis option.distinct(1) option.exhaust)
    then have "plain_byte a ?x = None"
      by (simp add: plain_byte_def ts)
    then show ?thesis
      using None in_walk_Suc(2) [OF ts Cons.prems(1) lower_code_idem x(2)]
      by (simp add: run k del: walk.simps byte_run.simps)
  next
    case (Some m)
    obtain acts n' where m: "pick_test ts ?x = Some m" "fsm_trans m = Some (acts, n')" "word_state n'"
      "Set_ok \<in> set acts" "list_all word_act acts"
      using word_pick [OF ts Cons.prems(1) x(1) disjI2 [OF Some]] by blast
    let ?a = "a\<lparr>p_state := State_ok, p_command := last_command acts (p_command a), fsm_cs := n'\<rparr>"
    have pb: "plain_byte a ?x = Some ?a"
      by (rule plain_byte_word [OF ts m(1,2,4,5)])
    have ih: "(\<forall>d. (map (\<lambda>c. lower_code (schar c)) w, d) \<in> set (walk k' n' (last_command acts (p_command a))) \<longrightarrow>
         byte_run ?a (w @ CHR 0x0D # ys) = byte_run (?a\<lparr>p_command := d, fsm_cs := 16\<rparr>) ys) \<and>
      ((\<forall>d. (map (\<lambda>c. lower_code (schar c)) w, d) \<notin> set (walk k' n' (last_command acts (p_command a)))) \<longrightarrow>
         fsm_cs (fst (byte_run ?a (w @ CHR 0x0D # ys))) = 0 \<and>
         snd (byte_run ?a (w @ CHR 0x0D # ys)) \<noteq> [])"
      using Cons.IH [of ?a k'] m(3) Cons.prems(2) k(2) by simp
    have "(lower_code ?x # v, d) \<in> set (walk (Suc k') (fsm_cs a) (p_command a)) \<longleftrightarrow>
        (v, d) \<in> set (walk k' n' (last_command acts (p_command a)))" for v d
      unfolding in_walk_Suc(2) [OF ts Cons.prems(1) lower_code_idem x(2)]
      using Some m(2) by (metis option.inject Pair_inject)
    then show ?thesis
      using ih by (simp add: run pb k(1) del: walk.simps byte_run.simps)
  qed
qed

definition lower_char :: "char \<Rightarrow> char" where
  "lower_char c = (if 65 \<le> schar c \<and> schar c \<le> 90 then char_of (of_char c + 32 :: nat) else c)"

lemma schar_lower: "schar (lower_char c) = lower_code (schar c)"
proof (cases "65 \<le> schar c \<and> schar c \<le> 90")
  case True
  then have "schar c = int (of_char c)" "(of_char c :: nat) \<le> 90"
    using char_code_less [of c] unfolding schar_code
    by (cases "(of_char c :: nat) < 128"; simp only: if_True if_False; linarith)+
  then show ?thesis
    using True schar_char_of [of "of_char c + 32"] by (simp add: lower_char_def lower_code_def)
qed (auto simp: lower_char_def lower_code_def)

lemma inj_schar: "schar c = schar d \<Longrightarrow> c = d"
proof -
  assume "schar c = schar d"
  then have "(of_char c :: nat) = of_char d"
    using char_code_less [of c] char_code_less [of d] unfolding schar_code
    by (cases "(of_char c :: nat) < 128"; cases "(of_char d :: nat) < 128";
        simp only: if_True if_False; linarith)
  then show "c = d"
    by (simp only: of_char_eq_iff)
qed

lemma map_schar_eq: "map schar v = map schar w \<longleftrightarrow> v = w"
  using inj_schar by (intro inj_map_eq_map injI)

lemma distinct_accepted: "distinct (map fst accepted_words)"
  by (simp add: accepted_words_def)

lemma in_walk_9: "(map (\<lambda>c. lower_code (schar c)) w, d) \<in> set (walk (j + 18) 9 c) \<longleftrightarrow>
    map_of accepted_words (map lower_char w) = Some d"
proof -
  have "map (\<lambda>c. lower_code (schar c)) w = map schar (map lower_char w)"
    by (simp add: schar_lower)
  moreover have "(map schar v, d) \<in> set (walk (j + 18) 9 c) \<longleftrightarrow> (v, d) \<in> set accepted_words" for v
    unfolding walk_9 by (auto simp: map_schar_eq)
  moreover have "(v, d) \<in> set accepted_words \<longleftrightarrow> map_of accepted_words v = Some d" for v
    by (rule map_of_eq_Some_iff [OF distinct_accepted, symmetric])
  ultimately show ?thesis
    by (simp only:)
qed

lemma read_command:
  assumes "fsm_cs a = 9" and "CHR 0x0D \<notin> set w"
  shows "(case map_of accepted_words (map lower_char w) of
      None \<Rightarrow> fsm_cs (fst (byte_run a (w @ CHR 0x0D # ys))) = 0 \<and>
        snd (byte_run a (w @ CHR 0x0D # ys)) \<noteq> []
    | Some d \<Rightarrow> byte_run a (w @ CHR 0x0D # ys) =
        byte_run (a\<lparr>p_state := State_ok, p_command := d, fsm_cs := 16\<rparr>) ys)"
proof -
  have "word_state (fsm_cs a)"
    using assms(1) by (simp add: word_state_def)
  from read_word [OF this assms(2), of "length w + 18" ys] show ?thesis
    unfolding assms(1) in_walk_9 by (simp split: option.split)
qed


section \<open>The words and the enumerators\<close>

definition command_named :: "string \<Rightarrow> command option" where
  "command_named v = map_of (zip command_names (map (\<lambda>i. Command (int i)) [0..<length command_names])) v"

definition command_read :: "string \<Rightarrow> command option" where
  "command_read v =
    (if v = ''incr'' then Some Cmd_incrby
     else if v = ''decr'' then Some Cmd_decrby
     else if v = ''hincrby'' then Some Cmd_hincrbyfloat
     else if v = ''zunion'' then Some Cmd_zdiff
     else if v = ''zdiff'' then None
     else command_named v)"

definition misread :: "(string \<times> command) list" where
  "misread = [(''incr'', Cmd_incrby), (''decr'', Cmd_decrby), (''hincrby'', Cmd_hincrbyfloat),
     (''zunion'', Cmd_zdiff)]"

definition enumerated :: "string \<times> command \<Rightarrow> bool" where
  "enumerated r = (case snd r of Command i \<Rightarrow> 0 \<le> i \<and> nat i < 104 \<and> command_names ! nat i = fst r \<and>
     fst r \<noteq> ''zdiff'' \<and> fst r \<notin> fst ` set misread)"

lemma accepted_enumerated: "list_all (\<lambda>r. r \<in> set misread \<or> enumerated r) accepted_words"
  unfolding accepted_words_def misread_def enumerated_def command_names_def by simp

lemma length_command_names: "length command_names = 104"
  by (simp add: command_names_def)

lemma length_accepted_words: "length accepted_words = 103"
  by (simp add: accepted_words_def)

lemma misread_named: "fst ` set misread \<subseteq> set command_names" "''zdiff'' \<in> set command_names"
  "''zdiff'' \<notin> fst ` set misread"
  by (simp_all add: misread_def command_names_def)

lemma in_minus_single: "x \<in> A \<Longrightarrow> A \<subseteq> B \<Longrightarrow> z \<notin> A \<Longrightarrow> x \<in> B - {z}"
  by blast

lemma accepted_keys: "fst ` set accepted_words = set command_names - {''zdiff''}"
  and distinct_command_names: "distinct command_names"
proof -
  let ?K = "fst ` set accepted_words"
  have sub: "?K \<subseteq> set command_names - {''zdiff''}"
  proof
    fix v assume "v \<in> ?K"
    then obtain r where r: "r \<in> set accepted_words" "v = fst r"
      by blast
    then consider "r \<in> set misread" | "enumerated r"
      using accepted_enumerated by (auto simp: list_all_iff)
    then show "v \<in> set command_names - {''zdiff''}"
    proof cases
      case 1
      then show ?thesis
        unfolding r(2) using misread_named(1,3) by (rule in_minus_single [OF imageI])
    next
      case 2
      then show ?thesis
        using r(2) nth_mem [of "case snd r of Command i \<Rightarrow> nat i" command_names] length_command_names
        by (cases "snd r") (simp add: enumerated_def)
    qed
  qed
  have "card ?K = length accepted_words"
    using distinct_accepted distinct_card [of "map fst accepted_words"] by simp
  then have K: "card ?K = 103"
    by (simp only: length_accepted_words)
  have le: "card (set command_names) \<le> 104"
    using card_length [of command_names] length_command_names by simp
  then have "card (set command_names - {''zdiff''}) \<le> 103"
    using misread_named(2) by simp
  then show eq: "?K = set command_names - {''zdiff''}"
    using card_seteq [OF _ sub] K by simp
  have "card (set command_names - {''zdiff''}) = 103"
    using K unfolding eq .
  then have "card (set command_names) = length command_names"
    using misread_named(2) le length_command_names by (simp add: card_Diff_singleton)
  then show "distinct command_names"
    by (rule card_distinct)
qed

lemma command_named_nth: "i < 104 \<Longrightarrow> command_named (command_names ! i) = Some (Command (int i))"
  using map_of_zip_nth [of command_names "map (\<lambda>i. Command (int i)) [0..<length command_names]" i]
  by (simp add: command_named_def length_command_names distinct_command_names)

lemma map_of_accepted: "map_of accepted_words v = command_read v"
proof (cases "map_of accepted_words v")
  case None
  then have "v \<notin> set command_names \<or> v = ''zdiff''"
    using accepted_keys by (auto simp: map_of_eq_None_iff)
  moreover have "command_named v = None" if "v \<notin> set command_names"
    using that by (auto simp: command_named_def map_of_eq_None_iff dest: set_zip_leftD)
  moreover have "v \<noteq> ''incr'' \<and> v \<noteq> ''decr'' \<and> v \<noteq> ''hincrby'' \<and> v \<noteq> ''zunion''"
    if "v \<notin> set command_names \<or> v = ''zdiff''"
    using that misread_named by (auto simp: misread_def)
  ultimately show ?thesis
    using None by (auto simp: command_read_def)
next
  case (Some d)
  then have "(v, d) \<in> set accepted_words"
    by (rule map_of_SomeD)
  then consider "(v, d) \<in> set misread" | "enumerated (v, d)"
    using accepted_enumerated by (auto simp: list_all_iff)
  then show ?thesis
  proof cases
    case 1
    then show ?thesis
      using Some by (auto simp: misread_def command_read_def)
  next
    case 2
    then obtain i where i: "i < 104" "v = command_names ! i" "d = Command (int i)"
      and v: "v \<noteq> ''zdiff''" "v \<notin> fst ` set misread"
      by (cases d) (auto simp: enumerated_def)
    have "command_named v = Some d"
      using command_named_nth [OF i(1)] i by simp
    then show ?thesis
      using Some v by (auto simp: misread_def command_read_def)
  qed
qed

lemma accepted_no_CR: "list_all (\<lambda>r. list_all (\<lambda>c. c \<noteq> CR) (fst r)) accepted_words"
  unfolding accepted_words_def by simp

lemma schar_consts [simp]: "schar CR = 13" "schar LF = 10" "schar (CHR ''$'') = 36" "schar (CHR ''*'') = 42"
  by (simp_all add: schar_def)

lemma read_no_CR:
  assumes "command_read (map lower_char w) = Some d"
  shows "CR \<notin> set w"
proof
  assume "CR \<in> set w"
  then have "CR \<in> set (map lower_char w)"
    by (force simp: lower_char_def)
  moreover have "(map lower_char w, d) \<in> set accepted_words"
    using assms unfolding map_of_accepted [symmetric] by (rule map_of_SomeD)
  ultimately show False
    using accepted_no_CR by (force simp: list_all_iff)
qed


end
