(* ===== verification/Redis_Requests.thy ===== *)
theory Redis_Requests
  imports Redis_Words
begin

text \<open>
  Whole requests. The first part runs the byte-wise machine over the parts of a request (numbers,
  header, arguments); the second relates \<^verbatim>\<open>parse\<close> on a buffer to the byte-wise machine, with the
  invariant of the parser between two buffers; then come the properties.
\<close>

section \<open>Numbers\<close>

definition push_digit :: "u32 \<Rightarrow> char \<Rightarrow> u32" where
  "push_digit w c = w * 10 + word_of_int (schar c - 48)"

definition digit_char :: "char \<Rightarrow> bool" where
  "digit_char c \<longleftrightarrow> 48 \<le> schar c \<and> schar c \<le> 57"

lemma schar_digit: "n < 10 \<Longrightarrow> schar (char_of (48 + n :: nat)) = 48 + int n"
  using schar_char_of [of "48 + n"] by simp

lemma decimal_digits: "list_all digit_char (decimal n)"
proof (induction n rule: decimal.induct)
  case (1 n)
  have "digit_char (char_of (48 + k))" if "k < 10" for k :: nat
    using that by (simp add: digit_char_def schar_digit)
  then show ?case
    using 1 by (subst decimal.simps) simp
qed

lemma decimal_not_Nil: "decimal n \<noteq> []"
  by (subst decimal.simps) simp

lemma fold_decimal: "foldl push_digit 0 (decimal n) = of_nat n"
proof (induction n rule: decimal.induct)
  case (1 n)
  show ?case
  proof (cases "n < 10")
    case True
    then show ?thesis
      by (subst decimal.simps) (simp add: push_digit_def schar_digit)
  next
    case False
    have "decimal n = decimal (n div 10) @ [char_of (48 + n mod 10)]"
      using False by (subst decimal.simps) simp
    then have "foldl push_digit 0 (decimal n) = push_digit (of_nat (n div 10)) (char_of (48 + n mod 10))"
      using 1 False by simp
    also have "\<dots> = of_nat (n div 10) * 10 + of_nat (n mod 10)"
      by (simp add: push_digit_def schar_digit)
    also have "\<dots> = of_nat (n div 10 * 10 + n mod 10)"
      by (simp only: of_nat_add of_nat_mult of_nat_numeral)
    finally show ?thesis
      by simp
  qed
qed

text \<open>The three places of the grammar with a number: its first state, and the state of its digits.\<close>

definition number_states :: "(int \<times> int \<times> int) list" where
  "number_states = [(2, 3, 4), (6, 7, 8), (18, 19, 20)]"

lemma header_lookups:
  "fsm_case 1 = Some [Is 42 0]" "fsm_trans 0 = Some ([Set_ok], 2)"
  "fsm_case 2 = Some [Between 48 57 2]" "fsm_trans 2 = Some ([Zero_u32, Digit_u32, Set_ok], 3)"
  "fsm_case 3 = Some [Is 13 3, Between 48 57 4]" "fsm_trans 4 = Some ([Digit_u32, Set_ok], 3)"
  "fsm_trans 3 = Some ([Take_args_count, Set_ok], 4)"
  "fsm_case 4 = Some [Is 10 5]" "fsm_trans 5 = Some ([Take_args_count, Set_ok], 5)"
  "fsm_case 5 = Some [Is 36 6]" "fsm_trans 6 = Some ([Set_ok], 6)"
  "fsm_case 6 = Some [Between 48 57 7]" "fsm_trans 7 = Some ([Zero_u32, Digit_u32, Set_ok], 7)"
  "fsm_case 7 = Some [Is 13 8, Between 48 57 9]" "fsm_trans 9 = Some ([Digit_u32, Set_ok], 7)"
  "fsm_trans 8 = Some ([Take_arg_size, Set_ok], 8)"
  "fsm_case 8 = Some [Is 10 10]" "fsm_trans 10 = Some ([Take_arg_size, Set_ok], 9)"
  "fsm_case 16 = Some [Is 10 34]" "fsm_trans 34 = Some ([Set_ok], 17)"
  "fsm_case 17 = Some [Is 36 35]" "fsm_trans 35 = Some ([Set_ok], 18)"
  "fsm_case 18 = Some [Between 48 57 36]" "fsm_trans 36 = Some ([Zero_u32, Digit_u32, Set_ok], 19)"
  "fsm_case 19 = Some [Is 13 37, Between 48 57 38]" "fsm_trans 38 = Some ([Digit_u32, Set_ok], 19)"
  "fsm_trans 37 = Some ([Take_arg_size, Set_ok], 20)"
  "fsm_case 20 = Some [Is 10 39]" "fsm_trans 39 = Some ([Take_arg_size, Call_blob 21, Set_ok], 21)"
  "fsm_case 21 = Some [Is 13 40]" "fsm_trans 40 = Some ([Set_ok], 22)"
  "fsm_case 22 = Some [Is 10 41]" "fsm_trans 41 = Some ([Set_ok], 367)"
  "fsm_case 367 = Some [Is 36 35]"
  by (simp_all add: fsm_lookups)

lemma byte_run_one:
  assumes "fsm_cs a = n" and "\<not> blob_case n" and "fsm_case n = Some ts"
    and "pick_test ts (schar c) = Some t" and "fsm_trans t = Some (acts, m)"
  shows "byte_run a (c # ys) = byte_run (run_effects acts m (schar c) a) ys"
proof -
  have "plain_byte a (schar c) = Some (run_effects acts m (schar c) a)"
    using assms by (simp add: plain_byte_def)
  then show ?thesis
    using byte_run_plain [of a c ys] assms(1,2) by simp
qed

lemma digits_run:
  assumes "list_all digit_char ds" and "(s, d, e) \<in> set number_states" and "fsm_cs a = d"
  shows "byte_run a (ds @ ys) = byte_run (if ds = [] then a else
    a\<lparr>p_u32 := foldl push_digit (p_u32 a) ds, p_state := State_ok, fsm_cs := d\<rparr>) ys"
  using assms
proof (induction ds arbitrary: a)
  case (Cons c ds)
  let ?a = "a\<lparr>p_u32 := push_digit (p_u32 a) c, p_state := State_ok, fsm_cs := d\<rparr>"
  have "byte_run a (c # (ds @ ys)) = byte_run ?a (ds @ ys)"
    using Cons.prems
    by (auto simp: number_states_def blob_case_def byte_run_plain plain_byte_def header_lookups
        digit_char_def plain_effect_def push_digit_def
        simp del: byte_run.simps)
  then show ?case
    using Cons.IH [of ?a] Cons.prems by (cases "ds = []") (simp_all del: byte_run.simps)
qed simp

lemma number_run:
  assumes "(s, d, e) \<in> set number_states" and "fsm_cs a = s"
  shows "byte_run a (decimal n @ ys) =
    byte_run (a\<lparr>p_u32 := of_nat n, p_state := State_ok, fsm_cs := d\<rparr>) ys"
proof -
  obtain c ds where cds: "decimal n = c # ds"
    using decimal_not_Nil by (cases "decimal n") auto
  have dig: "digit_char c" "list_all digit_char ds"
    using decimal_digits [of n] by (simp_all add: cds)
  let ?a = "a\<lparr>p_u32 := push_digit 0 c, p_state := State_ok, fsm_cs := d\<rparr>"
  have "byte_run a (c # (ds @ ys)) = byte_run ?a (ds @ ys)"
    using assms dig(1)
    by (auto simp: number_states_def blob_case_def byte_run_plain plain_byte_def header_lookups
        digit_char_def plain_effect_def push_digit_def
        simp del: byte_run.simps)
  also have "\<dots> = byte_run (if ds = [] then ?a else
      ?a\<lparr>p_u32 := foldl push_digit (push_digit 0 c) ds, p_state := State_ok, fsm_cs := d\<rparr>) ys"
    using digits_run [OF dig(2) assms(1), of ?a ys] by (simp del: byte_run.simps)
  also have "(if ds = [] then ?a else
      ?a\<lparr>p_u32 := foldl push_digit (push_digit 0 c) ds, p_state := State_ok, fsm_cs := d\<rparr>) =
      a\<lparr>p_u32 := foldl push_digit 0 (decimal n), p_state := State_ok, fsm_cs := d\<rparr>"
    by (simp add: cds)
  finally have "byte_run a (c # (ds @ ys)) = byte_run (a\<lparr>p_u32 := of_nat n,
      p_state := State_ok, fsm_cs := d\<rparr>) ys"
    by (simp only: fold_decimal)
  then show ?thesis
    by (simp only: cds append_Cons)
qed

section \<open>Requests\<close>

text \<open>An argument, announced with the size \<open>k\<close>.\<close>

definition arg_text :: "nat \<Rightarrow> string \<Rightarrow> string" where
  "arg_text k x = CHR ''$'' # decimal k @ [CR, LF] @ x @ [CR, LF]"

definition request_text :: "nat \<Rightarrow> nat \<Rightarrow> string \<Rightarrow> (nat \<times> string) list \<Rightarrow> string" where
  "request_text n m w args = CHR ''*'' # decimal n @ [CR, LF] @
     CHR ''$'' # decimal m @ [CR, LF] @ w @ [CR, LF] @ concat (map (\<lambda>(k, x). arg_text k x) args)"

lemmas step_simps = byte_run_one blob_case_def header_lookups plain_effect_def number_states_def

lemma arg_header_run:
  assumes "fsm_cs a = 17 \<or> fsm_cs a = 367"
  shows "byte_run a (CHR ''$'' # decimal k @ [CR, LF] @ ys) =
    byte_run (a\<lparr>p_u32 := of_nat k, p_arg_size := of_nat k, p_state := State_ok,
      fsm_stack := 21 # fsm_stack a, fsm_cs := 366\<rparr>) ys"
proof -
  have "byte_run a (CHR ''$'' # (decimal k @ [CR, LF] @ ys)) =
      byte_run (a\<lparr>p_state := State_ok, fsm_cs := 18\<rparr>) (decimal k @ [CR, LF] @ ys)"
    using assms by (auto simp: step_simps simp del: byte_run.simps)
  also have "\<dots> = byte_run (a\<lparr>p_u32 := of_nat k, p_state := State_ok, fsm_cs := 19\<rparr>) ([CR, LF] @ ys)"
    by (subst number_run [of 18 19 20]) (simp_all add: number_states_def del: byte_run.simps)
  also have "\<dots> = byte_run (a\<lparr>p_u32 := of_nat k, p_arg_size := of_nat k, p_state := State_ok,
      fsm_stack := 21 # fsm_stack a, fsm_cs := 366\<rparr>) ys"
    by (cases a) (simp add: step_simps del: byte_run.simps)
  finally show ?thesis .
qed

lemma after_blob_run:
  assumes "fsm_cs a = 21"
  shows "byte_run a (CR # LF # ys) = byte_run (a\<lparr>p_state := State_ok, fsm_cs := 367\<rparr>) ys"
  using assms by (simp add: step_simps del: byte_run.simps)

lemma blob_run:
  assumes "fsm_cs a = 366" and "fsm_stack a = [21]" and "p_builder a = []"
    and "length x = unat (p_arg_size a)"
  shows "byte_run a (x @ CR # ys) = byte_run (a\<lparr>p_size_left := 0, p_args_list := p_args_list a @ [x],
    fsm_stack := [], fsm_cs := 21\<rparr>) (CR # ys)"
proof (cases "x = []")
  case True
  then have "p_arg_size a = 0"
    using assms(4) by (simp add: unat_eq_zero)
  then have e: "enter_blob a = a\<lparr>p_size_left := 0, p_args_list := p_args_list a @ [x],
      fsm_stack := [], fsm_cs := 21\<rparr>"
    using assms True by (cases a) (simp add: enter_blob_def pop_arg_def)
  show ?thesis
    using byte_run_enter [OF assms(1), of CR ys] True e by (simp del: byte_run.simps)
next
  case False
  then obtain c cs where x: "x = c # cs"
    by (cases x) auto
  have nz: "p_arg_size a \<noteq> 0"
    using False assms(4) by auto
  let ?b = "a\<lparr>p_size_left := p_arg_size a, fsm_cs := 368\<rparr>"
  have e: "enter_blob a = ?b"
    using nz by (simp add: enter_blob_def Let_def)
  have "byte_run a (c # (cs @ CR # ys)) = byte_run ?b (c # (cs @ CR # ys))"
    using byte_run_enter [OF assms(1), of c "cs @ CR # ys"] unfolding e by simp
  then have "byte_run a (x @ CR # ys) = byte_run ?b (x @ CR # ys)"
    by (simp add: x del: byte_run.simps)
  also have "\<dots> = byte_run (pop_arg (?b\<lparr>p_size_left := 0, p_builder := p_builder ?b @ x\<rparr>)) (CR # ys)"
    by (rule byte_run_blob_whole) (use assms False in simp_all)
  also have "pop_arg (?b\<lparr>p_size_left := 0, p_builder := p_builder ?b @ x\<rparr>) =
      a\<lparr>p_size_left := 0, p_args_list := p_args_list a @ [x], fsm_stack := [], fsm_cs := 21\<rparr>"
    using assms by (cases a) (simp add: pop_arg_def)
  finally show ?thesis .
qed

lemma arg_run:
  assumes "fsm_cs a = 17 \<or> fsm_cs a = 367" and "fsm_stack a = []" and "p_builder a = []"
    and "k mod 2 ^ 32 = length x"
  shows "byte_run a (arg_text k x @ ys) = byte_run (a\<lparr>p_u32 := of_nat k, p_arg_size := of_nat k,
    p_size_left := 0, p_args_list := p_args_list a @ [x], p_state := State_ok, fsm_cs := 367\<rparr>) ys"
proof -
  have len: "length x = unat (of_nat k :: u32)"
    using assms(4) by (simp add: unat_of_nat)
  have "byte_run a (arg_text k x @ ys) = byte_run (a\<lparr>p_u32 := of_nat k, p_arg_size := of_nat k,
      p_state := State_ok, fsm_stack := 21 # fsm_stack a, fsm_cs := 366\<rparr>) (x @ CR # LF # ys)"
    using arg_header_run [OF assms(1), of k "x @ CR # LF # ys"] by (simp add: arg_text_def del: byte_run.simps)
  also have "\<dots> = byte_run (a\<lparr>p_u32 := of_nat k, p_arg_size := of_nat k, p_size_left := 0,
      p_args_list := p_args_list a @ [x], p_state := State_ok, fsm_stack := [], fsm_cs := 21\<rparr>) (CR # LF # ys)"
    by (subst blob_run, use assms len in \<open>simp_all del: byte_run.simps\<close>)
      (cases a, simp del: byte_run.simps)
  also have "\<dots> = byte_run (a\<lparr>p_u32 := of_nat k, p_arg_size := of_nat k,
    p_size_left := 0, p_args_list := p_args_list a @ [x], p_state := State_ok, fsm_cs := 367\<rparr>) ys"
    using assms(2) by (subst after_blob_run) (simp_all del: byte_run.simps, cases a, simp del: byte_run.simps)
  finally show ?thesis .
qed

lemma args_run:
  assumes "fsm_cs a = 17 \<or> fsm_cs a = 367" and "fsm_stack a = []" and "p_builder a = []"
    and "\<forall>(k, x)\<in>set args. k mod 2 ^ 32 = length x"
  shows "\<exists>a'. byte_run a (concat (map (\<lambda>(k, x). arg_text k x) args)) = (a', []) \<and>
    fsm_cs a' = (if args = [] then fsm_cs a else 367) \<and> p_args_list a' = p_args_list a @ map snd args \<and>
    p_command a' = p_command a \<and> p_args_count a' = p_args_count a \<and>
    (p_state a = State_ok \<longrightarrow> p_state a' = State_ok)"
  using assms
proof (induction args arbitrary: a)
  case (Cons kx args)
  obtain k x where kx: "kx = (k, x)"
    by (cases kx)
  let ?a = "a\<lparr>p_u32 := of_nat k, p_arg_size := of_nat k,
    p_size_left := 0, p_args_list := p_args_list a @ [x], p_state := State_ok, fsm_cs := 367\<rparr>"
  obtain a' where "byte_run ?a (concat (map (\<lambda>(k, x). arg_text k x) args)) = (a', [])"
    "fsm_cs a' = 367" "p_args_list a' = (p_args_list a @ [x]) @ map snd args"
    "p_command a' = p_command a" "p_args_count a' = p_args_count a" "p_state a' = State_ok"
    using Cons.IH [of ?a] Cons.prems by auto
  then show ?case
    using arg_run [OF Cons.prems(1-3), of k x] Cons.prems(4) by (simp add: kx)
qed simp

lemma request_run:
  assumes "fsm_cs a = 1" and "fsm_stack a = []" and "p_builder a = []"
    and "map_of accepted_words (map lower_char w) = Some d" and "CR \<notin> set w"
    and "\<forall>(k, x)\<in>set args. k mod 2 ^ 32 = length x"
  shows "\<exists>a'. byte_run a (request_text n m w args) = (a', []) \<and>
    fsm_cs a' = (if args = [] then 17 else 367) \<and> p_args_list a' = p_args_list a @ map snd args \<and>
    p_command a' = d \<and> p_args_count a' = of_nat n \<and> p_state a' = State_ok"
proof -
  let ?args = "concat (map (\<lambda>(k, x). arg_text k x) args)"
  have "byte_run a (request_text n m w args) =
      byte_run (a\<lparr>p_state := State_ok, fsm_cs := 2\<rparr>) (decimal n @ [CR, LF] @
        CHR ''$'' # decimal m @ [CR, LF] @ w @ [CR, LF] @ ?args)"
    using assms(1) by (simp add: request_text_def step_simps del: byte_run.simps)
  also have "\<dots> = byte_run (a\<lparr>p_u32 := of_nat n, p_state := State_ok, fsm_cs := 3\<rparr>)
      ([CR, LF] @ CHR ''$'' # decimal m @ [CR, LF] @ w @ [CR, LF] @ ?args)"
    by (subst number_run [of 2 3 4]) (simp_all add: number_states_def del: byte_run.simps)
  also have "\<dots> = byte_run (a\<lparr>p_u32 := of_nat n, p_args_count := of_nat n, p_state := State_ok, fsm_cs := 6\<rparr>)
      (decimal m @ [CR, LF] @ w @ [CR, LF] @ ?args)"
    by (simp add: step_simps del: byte_run.simps)
  also have "\<dots> = byte_run (a\<lparr>p_u32 := of_nat m, p_args_count := of_nat n, p_state := State_ok, fsm_cs := 7\<rparr>)
      ([CR, LF] @ w @ [CR, LF] @ ?args)"
    by (cases a, subst number_run [of 6 7 8]) (simp_all add: number_states_def del: byte_run.simps)
  also have "\<dots> = byte_run (a\<lparr>p_u32 := of_nat m, p_arg_size := of_nat m, p_args_count := of_nat n,
      p_state := State_ok, fsm_cs := 9\<rparr>) (w @ CR # LF # ?args)"
    by (cases a) (simp add: step_simps del: byte_run.simps)
  also have "\<dots> = byte_run (a\<lparr>p_u32 := of_nat m, p_arg_size := of_nat m, p_args_count := of_nat n,
      p_state := State_ok, p_command := d, fsm_cs := 16\<rparr>) (LF # ?args)"
    using read_command [of "a\<lparr>p_u32 := of_nat m, p_arg_size := of_nat m, p_args_count := of_nat n,
      p_state := State_ok, fsm_cs := 9\<rparr>" w] assms(4,5) by (simp del: byte_run.simps)
  also have "\<dots> = byte_run (a\<lparr>p_u32 := of_nat m, p_arg_size := of_nat m, p_args_count := of_nat n,
      p_state := State_ok, p_command := d, fsm_cs := 17\<rparr>) ?args"
    by (cases a) (simp add: step_simps del: byte_run.simps)
  finally show ?thesis
    using args_run [of "a\<lparr>p_u32 := of_nat m, p_arg_size := of_nat m, p_args_count := of_nat n,
      p_state := State_ok, p_command := d, fsm_cs := 17\<rparr>" args] assms(2,3,6) by auto
qed

section \<open>The parser between two buffers\<close>

definition parser_inv :: "('b \<Rightarrow> string) \<Rightarrow> ('b \<Rightarrow> int option) \<Rightarrow> 'b parser \<Rightarrow> bool" where
  "parser_inv txt start s \<longleftrightarrow> start (p_builder s) = None \<and> (fsm_cs s = 0 \<or> fsm_case (fsm_cs s) \<noteq> None) \<and>
     (if fsm_cs s = 368 then fsm_stack s = [21] \<and> p_size_left s \<noteq> 0 \<and> txt (p_builder s) \<noteq> []
      else fsm_stack s = (if fsm_cs s = 366 then [21] else []) \<and> txt (p_builder s) = [])"

definition abs_parser :: "('b \<Rightarrow> string) \<Rightarrow> 'b parser \<Rightarrow> string parser" where
  "abs_parser txt s = with_builder (txt (p_builder s)) s"

definition byte_parse :: "string parser \<Rightarrow> string \<Rightarrow> string parser \<times> string" where
  "byte_parse a buf = (if fsm_cs a = 0 \<and> buf \<noteq> [] then (a\<lparr>fsm_cs := 1\<rparr>, buf) else byte_run a buf)"

definition parse_result :: "string \<Rightarrow> string parser \<times> string \<Rightarrow> int option" where
  "parse_result buf r = (if p_state (fst r) \<noteq> State_error
     then Some (int (length buf) - int (length (snd r)))
     else if snd r \<noteq> [] then Some (int (length buf)) else None)"

lemma fsm_case_1: "fsm_case 1 \<noteq> None"
  by (simp add: header_lookups)

lemma parse_core:
  assumes laws: "builder_laws sb txt start" and inv: "parser_inv txt start s"
    and len: "length buf < 2 ^ 32"
  shows "\<exists>s'. parse sb buf s = rok (parse_result buf (byte_parse (abs_parser txt s) buf), s') \<and>
    parser_inv txt start s' \<and> abs_parser txt s' = fst (byte_parse (abs_parser txt s) buf)"
proof -
  define b1 s1 where "b1 = sb_guard sb buf 0 (p_builder s)" and "s1 = s\<lparr>p_builder := b1\<rparr>"
  have b1: "txt b1 = txt (p_builder s)" "start b1 = (if txt b1 = [] then None else Some 0)"
    using builder_lawsD(3,4) [OF laws] inv by (simp_all add: b1_def parser_inv_def)
  have leave: "txt (sb_unguard sb buf b) = txt b" "start (sb_unguard sb buf b) = None"
    if "start b = None" for b
    using builder_unguard(1,2) [OF laws that] by simp_all
  have par: "parse sb buf s = rbind (if buf = [] then rok (s1, 0) else exec_loop sb buf (fsm_cs s1) s1 0)
      (\<lambda>(s2, p). rok (if p_state s2 \<noteq> State_error then Some p else if p \<noteq> int (length buf)
         then Some (int (length buf)) else None, s2\<lparr>p_builder := sb_unguard sb buf (p_builder s2)\<rparr>))"
    by (simp add: parse_def Let_def s1_def b1_def)
  show ?thesis
  proof (cases "fsm_cs s = 0")
    case True
    then have clean: "txt (p_builder s) = []" "fsm_stack s = []"
      using inv by (simp_all add: parser_inv_def)
    have cs1: "fsm_cs s1 = 0"
      using True by (simp add: s1_def)
    define s2 where "s2 = (if buf = [] then s1 else s1\<lparr>fsm_cs := 1\<rparr>)"
    have ex: "(if buf = [] then rok (s1, 0) else exec_loop sb buf (fsm_cs s1) s1 0) = rok (s2, 0)"
      by (simp add: s2_def cs1 exec_loop_continue exec_case_def fsm_case_0 continue_def)
    have bp: "byte_parse (abs_parser txt s) buf = (if buf = [] then abs_parser txt s
        else (abs_parser txt s)\<lparr>fsm_cs := 1\<rparr>, buf)"
      using True by (simp add: byte_parse_def abs_parser_def)
    have "start (p_builder s2) = None" "txt (p_builder s2) = []"
      using b1 clean by (simp_all add: s2_def s1_def)
    then show ?thesis
      unfolding par ex bp using leave clean True b1
      by (cases "buf = []") (simp_all add: parse_result_def parser_inv_def abs_parser_def s2_def s1_def header_lookups(1))
  next
    case False
    have tr: "tracks txt start buf (fsm_cs s1) s1 0 (abs_parser txt s)"
      using inv False b1 by (auto simp: tracks_def parser_inv_def abs_parser_def s1_def)
    have bp: "byte_parse (abs_parser txt s) buf = byte_run (abs_parser txt s) buf"
      using False by (simp add: byte_parse_def abs_parser_def)
    obtain a' rest where run: "byte_run (abs_parser txt s) buf = (a', rest)"
      by (cases "byte_run (abs_parser txt s) buf")
    have "int (length buf) < 2 ^ 32"
      using len by simp
    from resume_run [OF laws this tr] obtain s2 p where
      res: "resume sb buf (fsm_cs s1) s1 0 = rok (s2, p)" and e: "ended txt start buf s2 p a' rest"
      using run by auto
    have ex: "(if buf = [] then rok (s1, 0) else exec_loop sb buf (fsm_cs s1) s1 0) = rok (s2, p)"
      using res by (simp add: resume_def split: if_splits)
    have p: "p + int (length rest) = int (length buf)"
      using e by (simp add: ended_def)
    let ?s' = "s2\<lparr>p_builder := sb_unguard sb buf (p_builder s2)\<rparr>"
    have st: "p_state a' = p_state s2"
      using e by (auto simp: ended_def tracks_def split: if_splits)
    have fin: "parser_inv txt start ?s' \<and> abs_parser txt ?s' = a'"
    proof (cases "fsm_cs s2 = 368")
      case True
      then obtain q where q: "fsm_stack s2 = [21]" "p_size_left s2 \<noteq> 0" "start (p_builder s2) = Some q"
        "0 \<le> q" "q \<le> p" "a' = with_builder (txt (p_builder s2) @ sub_block buf q p) (s2\<lparr>fsm_cs := 368\<rparr>)"
        "p_builder a' \<noteq> []" and "rest = []"
        using e by (auto simp: ended_def tracks_def)
      then have "p = int (length buf)"
        using p by simp
      then have "txt (sb_unguard sb buf (p_builder s2)) = p_builder a'"
        "start (sb_unguard sb buf (p_builder s2)) = None"
        using builder_unguard(3,4) [OF laws q(3,4)] q(5,6) by simp_all
      moreover have "a' = with_builder (p_builder a') s2"
        using q(6) True by (simp add: with_builder_def)
      ultimately show ?thesis
        using q True by (simp add: parser_inv_def abs_parser_def blob_lookups)
    next
      case False
      then have "fsm_stack s2 = (if fsm_cs s2 = 366 then [21] else [])" "start (p_builder s2) = None"
        "txt (p_builder s2) = []" "a' = with_builder [] s2" "fsm_cs s2 = 0 \<or> fsm_case (fsm_cs s2) \<noteq> None"
        using e by (auto simp: ended_def tracks_def split: if_splits)
      then show ?thesis
        using leave False by (auto simp: parser_inv_def abs_parser_def)
    qed
    have "parse_result buf (a', rest) = (if p_state s2 \<noteq> State_error then Some p
        else if p \<noteq> int (length buf) then Some (int (length buf)) else None)"
      using p st by (auto simp: parse_result_def)
    then show ?thesis
      unfolding par ex bp run using fin by simp
  qed
qed

lemma init_inv:
  assumes "builder_laws sb txt start"
  shows "parser_inv txt start (init sb s)" and "abs_parser txt (init sb s) = with_builder [] (init sb s)"
    and "fsm_cs (init sb s) = 1" "fsm_stack (init sb s) = []" "p_args_list (init sb s) = []"
    "p_state (init sb s) = State_error"
  using builder_lawsD(1,2) [OF assms] fsm_case_1
  by (simp_all add: parser_inv_def init_def abs_parser_def)

lemma byte_run_append:
  "snd (byte_run a xs) = [] \<Longrightarrow> byte_run a (xs @ ys) = byte_run (fst (byte_run a xs)) ys"
  by (induction xs arbitrary: a) (auto split: prod.splits if_splits)

lemma plain_effect_ok: "a = Set_ok \<or> p_state s = State_ok \<Longrightarrow> p_state (plain_effect a c s) = State_ok"
  by (cases a) (auto simp: plain_effect_def)

lemma run_effects_ok: "p_state s = State_ok \<Longrightarrow> p_state (run_effects acts m c s) = State_ok"
proof (induction acts arbitrary: s)
  case (Cons a acts)
  then show ?case
    by (cases a) (simp_all add: plain_effect_ok)
qed simp

lemma byte_step_ok: "p_state a = State_ok \<Longrightarrow> p_state (fst (byte_step a c)) = State_ok"
  by (auto simp: byte_step_def Let_def enter_blob_def pop_arg_def blob_byte_def plain_byte_def
      run_effects_ok split: option.splits prod.splits)

lemma byte_run_ok: "p_state a = State_ok \<Longrightarrow> p_state (fst (byte_run a xs)) = State_ok"
proof (induction xs arbitrary: a)
  case (Cons c xs)
  then show ?case
    using byte_step_ok [OF Cons.prems, of c] by (auto split: prod.splits)
qed simp

section \<open>A builder\<close>

text \<open>The documented behaviour of the seastar class, as text and start of the open part.\<close>

definition text_builder :: "(string \<times> int option) sstring_builder" where
  "text_builder = \<lparr>
     sb_reset = (\<lambda>b. ([], None)),
     sb_guard = (\<lambda>buf p b. (fst b, if fst b = [] then snd b else Some p)),
     sb_unguard = (\<lambda>buf b. case snd b of None \<Rightarrow> b
        | Some q \<Rightarrow> (fst b @ sub_block buf q (int (length buf)), None)),
     sb_mark_start = (\<lambda>p b. (fst b, Some p)),
     sb_mark_end = (\<lambda>buf p b. case snd b of None \<Rightarrow> b | Some q \<Rightarrow> (fst b @ sub_block buf q p, None)),
     sb_get = (\<lambda>b. (fst b, ([], snd b)))\<rparr>"

lemma text_builder_laws: "builder_laws text_builder fst snd"
  by (simp add: builder_laws_def text_builder_def)

lemma byte_run_rest: "snd (byte_run a xs) \<noteq> [] \<Longrightarrow> fsm_cs (fst (byte_run a xs)) = 0"
  by (induction xs arbitrary: a) (auto simp: byte_step_def Let_def split: prod.splits if_splits option.splits)

lemma request_core:
  assumes laws: "builder_laws sb txt start" and w: "command_read (map lower_char w) = Some d"
    and args: "\<forall>(k, x)\<in>set args. k mod 2 ^ 32 = length x"
    and len: "length (request_text n m w args) < 2 ^ 32"
  shows "\<exists>s'. parse sb (request_text n m w args) (init sb s) =
      rok (Some (int (length (request_text n m w args))), s') \<and>
    p_args_list s' = map snd args \<and> p_command s' = d \<and> p_args_count s' = of_nat n \<and>
    p_state s' = State_ok \<and> fsm_cs s' = (if args = [] then 17 else 367)"
proof -
  let ?buf = "request_text n m w args" and ?a = "abs_parser txt (init sb s)"
  have a: "fsm_cs ?a = 1" "fsm_stack ?a = []" "p_builder ?a = []" "p_args_list ?a = []"
    unfolding init_inv(2) [OF laws] by (simp_all add: init_inv [OF laws])
  obtain a' where run: "byte_run ?a ?buf = (a', [])" and
    a': "fsm_cs a' = (if args = [] then 17 else 367)" "p_args_list a' = map snd args"
      "p_command a' = d" "p_args_count a' = of_nat n" "p_state a' = State_ok"
    using request_run [OF a(1-3) w [folded map_of_accepted] read_no_CR [OF w] args, of n m] a(4) by auto
  obtain s' where s': "parse sb ?buf (init sb s) = rok (parse_result ?buf (byte_parse ?a ?buf), s')"
    "abs_parser txt s' = fst (byte_parse ?a ?buf)"
    using parse_core [OF laws init_inv(1) [OF laws] len] by blast
  have bp: "byte_parse ?a ?buf = (a', [])"
    using a(1) run by (simp add: byte_parse_def)
  have e: "abs_parser txt s' = a'"
    using s'(2) unfolding bp by simp
  have "parse_result ?buf (a', []) = Some (int (length ?buf))"
    by (simp add: parse_result_def a')
  moreover have "p_args_list s' = p_args_list a'" "p_command s' = p_command a'" "p_args_count s' = p_args_count a'"
    "p_state s' = p_state a'" "fsm_cs s' = fsm_cs a'"
    unfolding e [symmetric] by (simp_all add: abs_parser_def)
  ultimately show ?thesis
    using s'(1) a' unfolding bp by simp
qed

section \<open>Properties\<close>

text \<open>A parser object with arbitrary old contents, for the witnesses.\<close>

definition blank_parser :: "(string \<times> int option) parser" where
  "blank_parser = \<lparr>fsm_cs = 5, fsm_stack = [3], p_state = State_ok, p_command = Cmd_quit, p_u32 = 9,
     p_arg_size = 8, p_args_count = 7, p_size_left = 6, p_args_list = [''x''],
     p_builder = (''y'', Some 4)\<rparr>"

text \<open>
  C10. \<^verbatim>\<open>parse\<close> on a buffer of less than 4 GiB returns, without reading outside the buffer or popping
  an empty stack, and does what the machine that reads one byte at a time does: it ends in the same
  state with the same fields, the text kept in the builder is the part of the argument read so far, and
  the position returned is where that machine stops. The invariant of the parser between two buffers is
  kept, so this holds for every later buffer.
\<close>

theorem parse_refines_bytes:
  assumes "builder_laws sb txt start" and "parser_inv txt start s" and "length buf < 2 ^ 32"
  shows "\<exists>s'. parse sb buf s = rok (parse_result buf (byte_parse (abs_parser txt s) buf), s') \<and>
    parser_inv txt start s' \<and> abs_parser txt s' = fst (byte_parse (abs_parser txt s) buf)"
  by (rule parse_core [OF assms])

theorem parse_refines_bytes_witness:
  "\<exists>s'. parse text_builder ''*1'' (init text_builder blank_parser) =
      rok (parse_result ''*1'' (byte_parse (abs_parser fst (init text_builder blank_parser)) ''*1''), s') \<and>
    parser_inv fst snd s' \<and>
    abs_parser fst s' = fst (byte_parse (abs_parser fst (init text_builder blank_parser)) ''*1'')"
  by (rule parse_refines_bytes [OF text_builder_laws init_inv(1) [OF text_builder_laws]]) simp

text \<open>
  C31. The parser does not depend on how the network cuts its input: when \<^verbatim>\<open>parse\<close> has read a
  buffer \<open>xs\<close> to its end (it is not in the error state), parsing \<open>ys\<close> next leaves the same state,
  arguments, command and pending text as parsing \<open>xs @ ys\<close> in one buffer, wherever the cut is, inside
  an argument or a number included.
\<close>

theorem parse_split:
  assumes laws: "builder_laws sb txt start" and inv: "parser_inv txt start s" and "fsm_cs s \<noteq> 0"
    and len: "length (xs @ ys) < 2 ^ 32"
    and first: "parse sb xs s = rok (r1, s1)" and "fsm_cs s1 \<noteq> 0"
  shows "\<exists>r2 s2 r s'. parse sb ys s1 = rok (r2, s2) \<and> parse sb (xs @ ys) s = rok (r, s') \<and>
    abs_parser txt s2 = abs_parser txt s'"
proof -
  have lens: "length xs < 2 ^ 32" "length ys < 2 ^ 32"
    using len by simp_all
  let ?a = "abs_parser txt s"
  have bp: "byte_parse ?a zs = byte_run ?a zs" for zs
    using assms(3) by (simp add: byte_parse_def abs_parser_def)
  have s1: "parser_inv txt start s1" "abs_parser txt s1 = fst (byte_run ?a xs)"
    using parse_core [OF laws inv lens(1)] first unfolding bp by auto
  have cs1: "fsm_cs (abs_parser txt s1) \<noteq> 0"
    using assms(6) by (simp add: abs_parser_def)
  then have "snd (byte_run ?a xs) = []"
    using byte_run_rest unfolding s1(2) by blast
  then have app: "byte_run ?a (xs @ ys) = byte_run (abs_parser txt s1) ys"
    unfolding s1(2) by (rule byte_run_append)
  have bp1: "byte_parse (abs_parser txt s1) ys = byte_run (abs_parser txt s1) ys"
    using cs1 by (simp add: byte_parse_def)
  show ?thesis
    using parse_core [OF laws s1(1) lens(2)] parse_core [OF laws inv len]
    unfolding bp bp1 app by metis
qed

theorem parse_split_witness:
  "\<exists>r1 s1 r2 s2 r s'. parse text_builder ''*1'' (init text_builder blank_parser) = rok (r1, s1) \<and>
    parse text_builder ''2'' s1 = rok (r2, s2) \<and>
    parse text_builder (''*1'' @ ''2'') (init text_builder blank_parser) = rok (r, s') \<and>
    abs_parser fst s2 = abs_parser fst s'"
proof -
  let ?s = "init text_builder blank_parser"
  note inv = init_inv [OF text_builder_laws, of blank_parser]
  obtain r1 s1 where first: "parse text_builder ''*1'' ?s = rok (r1, s1)"
    and s1: "abs_parser fst s1 = fst (byte_parse (abs_parser fst ?s) ''*1'')"
    using parse_core [OF text_builder_laws inv(1), of "''*1''"] by auto
  have c: "schar (CHR ''*'') = 42" "schar (CHR ''1'') = 49"
    by (simp_all add: schar_def)
  have "fsm_cs (abs_parser fst s1) = 3"
    unfolding s1 by (simp add: byte_parse_def byte_step_def Let_def plain_byte_def header_lookups c
      plain_effect_def inv abs_parser_def)
  then have "fsm_cs s1 \<noteq> 0"
    by (simp add: abs_parser_def)
  then show ?thesis
    using parse_split [OF text_builder_laws inv(1) _ _ first, of "''2''"] first inv(3) by fastforce
qed

text \<open>
  C12. The command word. In state 9, where the word of the command begins, \<^verbatim>\<open>parse\<close> of a word and a
  carriage return reaches state 16 exactly for the words of \<open>command_read\<close>, in any mixture of upper and
  lower case, and leaves that command in \<^verbatim>\<open>_command\<close>; for every other word it ends in the error state.
  \<open>command_read\<close> is the enumerator of the same name, with the exceptions its definition lists:
  \<^verbatim>\<open>incr\<close>, \<^verbatim>\<open>decr\<close>, \<^verbatim>\<open>hincrby\<close> and \<^verbatim>\<open>zunion\<close> are taken for another command, \<^verbatim>\<open>zdiff\<close> is refused.
\<close>

theorem parse_command_word:
  assumes laws: "builder_laws sb txt start" and inv: "parser_inv txt start s"
    and cs: "fsm_cs s = 9" and w: "CR \<notin> set w" "length w + 1 < 2 ^ 32"
  shows "\<exists>r s'. parse sb (w @ [CR]) s = rok (r, s') \<and>
    (case command_read (map lower_char w) of
      Some c \<Rightarrow> fsm_cs s' = 16 \<and> p_command s' = c \<and> p_args_list s' = p_args_list s
    | None \<Rightarrow> fsm_cs s' = 0)"
proof -
  let ?a = "abs_parser txt s"
  have a: "fsm_cs ?a = 9" "p_args_list ?a = p_args_list s"
    using cs by (simp_all add: abs_parser_def)
  have "length (w @ [CR]) < 2 ^ 32"
    using w(2) by simp
  from parse_core [OF laws inv this] obtain r s' where
    p: "parse sb (w @ [CR]) s = rok (r, s')" and s': "abs_parser txt s' = fst (byte_parse ?a (w @ [CR]))"
    by blast
  have bp: "byte_parse ?a (w @ [CR]) = byte_run ?a (w @ [CR])"
    using a by (simp add: byte_parse_def)
  have f: "fsm_cs s' = fsm_cs (abs_parser txt s')" "p_command s' = p_command (abs_parser txt s')"
    "p_args_list s' = p_args_list (abs_parser txt s')"
    by (simp_all add: abs_parser_def)
  show ?thesis
    using p read_command [OF a(1) w(1), of "[]"] a(2) unfolding f s' bp map_of_accepted
    by (auto simp: s' bp f split: option.splits)
qed

theorem parse_command_word_witness:
  "\<exists>r s'. parse text_builder (''iNCr'' @ [CR]) ((init text_builder blank_parser)\<lparr>fsm_cs := 9\<rparr>) = rok (r, s') \<and>
    (case command_read (map lower_char ''iNCr'') of
      Some c \<Rightarrow> fsm_cs s' = 16 \<and> p_command s' = c \<and>
        p_args_list s' = p_args_list ((init text_builder blank_parser)\<lparr>fsm_cs := 9\<rparr>)
    | None \<Rightarrow> fsm_cs s' = 0) \<and> command_read (map lower_char ''iNCr'') = Some Cmd_incrby"
proof -
  have "parser_inv fst snd ((init text_builder blank_parser)\<lparr>fsm_cs := 9\<rparr>)"
    using init_inv(1,4) [OF text_builder_laws, of blank_parser] word_state_exists [of 9]
    by (auto simp: parser_inv_def word_state_def init_inv(3) [OF text_builder_laws])
  moreover have "command_read (map lower_char ''iNCr'') = Some Cmd_incrby"
    by (simp add: command_read_def lower_char_def schar_def char_of_def bit_Suc_0_iff)
  ultimately show ?thesis
    using parse_command_word [OF text_builder_laws, of "(init text_builder blank_parser)\<lparr>fsm_cs := 9\<rparr>" "''iNCr''"]
    by simp
qed

lemma request_read:
  assumes "builder_laws sb txt start" and "command_read (map lower_char w) = Some d"
    and "length (request_text n m w (map (\<lambda>x. (length x, x)) args)) < 2 ^ 32"
    and "\<forall>x\<in>set args. length x < 2 ^ 32"
  shows "\<exists>s'. parse sb (request_text n m w (map (\<lambda>x. (length x, x)) args)) (init sb s) =
      rok (Some (int (length (request_text n m w (map (\<lambda>x. (length x, x)) args)))), s') \<and>
    p_args_list s' = args \<and> p_command s' = d \<and> p_args_count s' = of_nat n \<and> p_state s' = State_ok"
  using request_core [OF assms(1,2) _ assms(3), of s] assms(4) by (auto simp: comp_def)

text \<open>
  C11. Round trip: after \<^verbatim>\<open>init\<close>, parsing the text of a request in one buffer gives back the
  arguments byte for byte, whatever bytes they hold, and the command of its word; \<^verbatim>\<open>parse\<close> has read the
  whole buffer and reports no error. The two announced numbers \<open>n\<close> (how many parts the request has) and
  \<open>m\<close> (the size of the command word) are arbitrary: the parser stores the first and ignores both.
\<close>

theorem parse_request:
  assumes "builder_laws sb txt start" and "command_read (map lower_char w) = Some d"
    and "length (request_text n m w (map (\<lambda>x. (length x, x)) args)) < 2 ^ 32"
    and "\<forall>x\<in>set args. length x < 2 ^ 32"
  shows "\<exists>s'. parse sb (request_text n m w (map (\<lambda>x. (length x, x)) args)) (init sb s) =
      rok (Some (int (length (request_text n m w (map (\<lambda>x. (length x, x)) args)))), s') \<and>
    p_args_list s' = args \<and> p_command s' = d \<and> p_args_count s' = of_nat n \<and> p_state s' = State_ok"
  by (rule request_read [OF assms])

theorem parse_request_witness:
  "\<exists>s'. parse text_builder (request_text 3 3 ''Set'' (map (\<lambda>x. (length x, x)) [''k'', [CR, LF]])) (init text_builder blank_parser) =
      rok (Some (int (length (request_text 3 3 ''Set'' (map (\<lambda>x. (length x, x)) [''k'', [CR, LF]])))), s') \<and>
    p_args_list s' = [''k'', [CR, LF]] \<and> p_command s' = Cmd_set \<and> p_args_count s' = of_nat 3 \<and>
    p_state s' = State_ok"
proof (rule parse_request [OF text_builder_laws])
  show "command_read (map lower_char ''Set'') = Some Cmd_set"
    unfolding map_of_accepted [symmetric] accepted_words_def by (simp add: lower_char_def schar_def char_of_def bit_Suc_0_iff)
qed (simp_all add: request_text_def arg_text_def decimal.simps)

text \<open>
  The announced size of an argument is read modulo \<^verbatim>\<open>2^32\<close>: an argument of \<open>length x\<close> bytes that is
  announced with \<open>j * 2^32\<close> more is accepted as it is.
\<close>

lemma parse_size_wraps:
  assumes "builder_laws sb txt start" and "command_read (map lower_char w) = Some d"
    and "length (request_text n m w [(length x + j * 2 ^ 32, x)]) < 2 ^ 32" and "length x < 2 ^ 32"
  shows "\<exists>r s'. parse sb (request_text n m w [(length x + j * 2 ^ 32, x)]) (init sb s) = rok (r, s') \<and>
    p_args_list s' = [x] \<and> p_state s' = State_ok"
  using request_core [OF assms(1,2) _ assms(3), of s] assms(4) by auto

lemma parse_started:
  assumes laws: "builder_laws sb txt start" and "buf \<noteq> []" and len: "length buf < 2 ^ 32"
  shows "\<exists>p s'. parse sb buf (init sb s) = rok (Some p, s') \<and> 0 \<le> p \<and> p \<le> int (length buf) \<and>
    (hd buf = CHR ''*'' \<longrightarrow> p_state s' = State_ok)"
proof -
  let ?a = "abs_parser txt (init sb s)"
  obtain c cs where buf: "buf = c # cs"
    using assms(2) by (cases buf) auto
  have a: "fsm_cs ?a = 1" "p_state ?a = State_error"
    unfolding init_inv(2) [OF laws] by (simp_all add: init_inv [OF laws])
  obtain s' where s': "parse sb buf (init sb s) = rok (parse_result buf (byte_parse ?a buf), s')"
    "abs_parser txt s' = fst (byte_parse ?a buf)"
    using parse_core [OF laws init_inv(1) [OF laws] len] by blast
  have bp: "byte_parse ?a buf = byte_run ?a buf"
    using a by (simp add: byte_parse_def)
  have st: "p_state s' = p_state (fst (byte_run ?a buf))"
    unfolding s'(2) [unfolded bp, symmetric] by (simp add: abs_parser_def)
  have le: "length (snd (byte_run a xs)) \<le> length xs" for a xs
    by (induction xs arbitrary: a) (auto split: prod.split intro: le_SucI)
  have one: "byte_run ?a (c # cs) = (if schar c = 42 then byte_run (?a\<lparr>p_state := State_ok, fsm_cs := 2\<rparr>) cs
      else (?a\<lparr>fsm_cs := 0\<rparr>, c # cs))"
    using a by (simp add: byte_run_plain blob_case_def plain_byte_def header_lookups plain_effect_def
        del: byte_run.simps)
  show ?thesis
  proof (cases "schar c = 42")
    case True
    have ok: "p_state (fst (byte_run ?a buf)) = State_ok"
      unfolding buf one using True by (simp add: byte_run_ok)
    then show ?thesis
      using s'(1) st le [of ?a buf] unfolding bp by (simp add: parse_result_def)
  next
    case False
    then have "hd buf \<noteq> CHR ''*''"
      by (auto simp: buf)
    moreover have "parse_result buf (byte_run ?a buf) = Some (int (length buf))"
      unfolding buf one using False a(2) by (simp add: parse_result_def)
    ultimately show ?thesis
      using s'(1) unfolding bp by simp
  qed
qed

text \<open>
  C32. After \<^verbatim>\<open>init\<close>, \<^verbatim>\<open>parse\<close> gives \<^verbatim>\<open>nullptr\<close>, the answer that asks for more input, on the empty buffer and on no
  other: on every nonempty buffer it returns a position in it or its end, and as soon as the buffer starts with
  \<^verbatim>\<open>*\<close> it reports \<^verbatim>\<open>state::ok\<close>, however little of the request has come and whatever follows.
\<close>

theorem parse_never_incomplete:
  assumes laws: "builder_laws sb txt start" and len: "length buf < 2 ^ 32"
  shows "\<exists>r s'. parse sb buf (init sb s) = rok (r, s') \<and> (r = None \<longleftrightarrow> buf = []) \<and>
    (\<forall>p. r = Some p \<longrightarrow> 0 \<le> p \<and> p \<le> int (length buf)) \<and>
    (buf \<noteq> [] \<and> hd buf = CHR ''*'' \<longrightarrow> p_state s' = State_ok)"
proof (cases "buf = []")
  case True
  then show ?thesis
    using init_inv(6) [OF laws, of s] by (simp add: parse_def)
next
  case False
  then show ?thesis
    using parse_started [OF laws False len, of s] by auto
qed

theorem parse_never_incomplete_witness:
  "\<exists>r s'. parse text_builder ''*3?'' (init text_builder blank_parser) = rok (r, s') \<and> r \<noteq> None \<and> p_state s' = State_ok"
  using parse_never_incomplete [OF text_builder_laws, of "''*3?''" blank_parser] by auto

end
