(* ===== verification/Redis_Old_Parser.thy ===== *)
theory Redis_Old_Parser
  imports Redis_Rows Redis_Requests
begin

text \<open>
  The older, table-driven parser (\<^verbatim>\<open>src/include/redis_protocol_parser.c\<close>) against the parser of the
  header. \<open>old_state\<close> is the state of the older parser in the place of a state of the newer one: the
  states of the automaton and the enumerators of \<^verbatim>\<open>command\<close> are renumbered. The two loops are
  followed turn by turn, by induction over the runs of the newer one; they only part at the first
  letter of \<^verbatim>\<open>quit\<close>, a word that the older parser does not know.
\<close>

section \<open>The actions\<close>

fun list_acts ::
  "'b sstring_builder \<Rightarrow> string \<Rightarrow> table_action list \<Rightarrow> 'b parser \<Rightarrow> int \<Rightarrow> ('b parser \<times> int) res" where
  "list_acts sb buf [] s p = rok (s, p)"
| "list_acts sb buf (a # as) s p = rbind (table_act sb buf a s p) (\<lambda>(j, s', p').
     if j = Next_action then list_acts sb buf as s' p' else rok (s', p'))"

lemma table_acts_list:
  "act_list i (int n) = rok as \<Longrightarrow> table_acts sb buf n i s p = list_acts sb buf as s p"
proof (induction n arbitrary: i as s p)
  case 0
  then show ?case
    by (simp add: act_list.simps)
next
  case (Suc n)
  have "rbind (cell tab_actions i) (\<lambda>k. rbind (act_list (i + 1) (int n)) (\<lambda>as.
      rok ((case map_of switch_cases k of None \<Rightarrow> [] | Some a \<Rightarrow> [a]) @ as))) = rok as"
    using Suc.prems by (subst (asm) act_list.simps) simp
  then obtain k bs where k: "cell tab_actions i = rok k" and bs: "act_list (i + 1) (int n) = rok bs"
    and as: "as = (case map_of switch_cases k of None \<Rightarrow> [] | Some a \<Rightarrow> [a]) @ bs"
    by (auto elim!: rbind_rokE)
  show ?case
    using Suc.IH [OF bs] by (cases "map_of switch_cases k") (simp_all add: k as cong: if_cong)
qed

lemma table_step_row:
  assumes same: "row_same n" "fsm_case n = Some ts" and cs: "fsm_cs s = ren n" and c: "read_at buf p = rok c"
    and pick: "pick_row (row_tests ts) c = (as, m)"
  shows "table_step sb buf s p = list_acts sb buf as (s\<lparr>fsm_cs := m\<rparr>) p"
proof -
  obtain ss rs d where r: "row_tests ts = (ss, rs, d)"
    by (cases "row_tests ts")
  obtain i t where i: "find_transition (fsm_cs s) c = rok i" and t: "cell tab_indicies i = rok t"
    and y: "old_trans t = rok (as, m)"
    using find_transition_row [of "ren n" ss rs d c] same pick by (auto simp: row_same_def r cs)
  obtain a where m: "cell tab_trans_targs t = rok m" and a: "cell tab_trans_actions t = rok a"
    and acts: "(if a = 0 then rok ([], m) else rbind (cell tab_actions a) (\<lambda>n. rbind (act_list (a + 1) n)
      (\<lambda>as. rok (as, m)))) = rok (as, m)"
    using y unfolding old_trans_def by (auto elim!: rbind_rokE split: if_splits)
  have "(if a = 0 then rok (s\<lparr>fsm_cs := m\<rparr>, p) else rbind (cell tab_actions a) (\<lambda>n.
      table_acts sb buf (nat n) (a + 1) (s\<lparr>fsm_cs := m\<rparr>) p)) = list_acts sb buf as (s\<lparr>fsm_cs := m\<rparr>) p"
  proof (cases "a = 0")
    case False
    then obtain n where n: "cell tab_actions a = rok n" "act_list (a + 1) n = rok as"
      using acts by (auto elim!: rbind_rokE)
    then have "act_list (a + 1) (int (nat n)) = rok as"
      by (cases "0 \<le> n") (simp_all add: act_list.simps)
    then show ?thesis
      using False n by (simp add: table_acts_list)
  qed (use acts in simp)
  then show ?thesis
    unfolding table_step_def c i t m a rbind_simps .
qed

section \<open>The states of the two parsers\<close>

definition old_state :: "int \<Rightarrow> 'b parser \<Rightarrow> 'b parser" where
  "old_state n s = s\<lparr>fsm_cs := ren n, fsm_stack := map ren (fsm_stack s), p_command := ren_command (p_command s)\<rparr>"

lemma old_state_simps [simp]:
  "fsm_cs (old_state n s) = ren n" "fsm_stack (old_state n s) = map ren (fsm_stack s)" "p_state (old_state n s) = p_state s"
  "p_command (old_state n s) = ren_command (p_command s)" "p_u32 (old_state n s) = p_u32 s" "p_arg_size (old_state n s) = p_arg_size s"
  "p_args_count (old_state n s) = p_args_count s" "p_size_left (old_state n s) = p_size_left s"
  "p_args_list (old_state n s) = p_args_list s" "p_builder (old_state n s) = p_builder s"
  by (simp_all add: old_state_def)

lemma old_state_updates [simp]:
  "(old_state n s)\<lparr>fsm_cs := ren m\<rparr> = old_state m s"
  "(old_state n s)\<lparr>p_state := x\<rparr> = old_state n (s\<lparr>p_state := x\<rparr>)"
  "(old_state n s)\<lparr>p_u32 := w\<rparr> = old_state n (s\<lparr>p_u32 := w\<rparr>)"
  "(old_state n s)\<lparr>p_arg_size := w\<rparr> = old_state n (s\<lparr>p_arg_size := w\<rparr>)"
  "(old_state n s)\<lparr>p_args_count := w\<rparr> = old_state n (s\<lparr>p_args_count := w\<rparr>)"
  "(old_state n s)\<lparr>p_size_left := w\<rparr> = old_state n (s\<lparr>p_size_left := w\<rparr>)"
  "(old_state n s)\<lparr>p_args_list := xs\<rparr> = old_state n (s\<lparr>p_args_list := xs\<rparr>)"
  "(old_state n s)\<lparr>p_builder := b\<rparr> = old_state n (s\<lparr>p_builder := b\<rparr>)"
  "(old_state n s)\<lparr>p_command := ren_command k\<rparr> = old_state n (s\<lparr>p_command := k\<rparr>)"
  "(old_state n s)\<lparr>fsm_stack := map ren st\<rparr> = old_state n (s\<lparr>fsm_stack := st\<rparr>)"
  "old_state n (s\<lparr>fsm_cs := m\<rparr>) = old_state n s"
  by (cases s; simp add: old_state_def)+

lemma table_act_same:
  assumes act: "run_act sb buf a s p = rok (j, s1, p1)" and call: "\<And>k. a = Call_blob k \<Longrightarrow> k = m"
  shows "table_act sb buf (ren_act a) (old_state m s) p = (case j of
      Next_action \<Rightarrow> rok (Next_action, old_state m s1, p1)
    | Goto_st q \<Rightarrow> rok (Goto_again, old_state q s1, p1)
    | Goto_again \<Rightarrow> rok (Goto_again, old_state (fsm_cs s1) s1, p1))"
proof (cases a)
  case (Call_blob k)
  then have "j = Goto_st 366" "s1 = s\<lparr>fsm_stack := m # fsm_stack s\<rparr>" "p1 = p"
    using act call by (auto simp: run_act_def)
  moreover have "ren 366 = 363"
    by (simp add: ren_def)
  ultimately show ?thesis
    using Call_blob old_state_updates(10) [where n = m and s = s and st = "m # fsm_stack s"]
        old_state_updates(1) [where n = m and s = "s\<lparr>fsm_stack := m # fsm_stack s\<rparr>" and m = 366]
    by (simp add: table_act_def)
next
  case Advance_blob
  then have adv: "advance_blob sb buf s p = rok (j, s1, p1)"
    using act by (simp add: run_act_def)
  let ?len = "min (word_of_int (int (length buf) - p)) (p_size_left s)"
  obtain str b where sb: "sb_get sb (sb_mark_end sb buf (p + uint ?len) (p_builder s)) = (str, b)"
    by (cases "sb_get sb (sb_mark_end sb buf (p + uint ?len) (p_builder s))")
  show ?thesis
  proof (cases "p_size_left s - ?len = 0")
    case True
    then show ?thesis
      using adv sb Advance_blob
      by (cases "fsm_stack s") (auto simp: advance_blob_def Let_def table_act_def)
  next
    case False
    then show ?thesis
      using adv Advance_blob by (auto simp: advance_blob_def Let_def table_act_def)
  qed
qed (use act in \<open>auto simp: run_act_def table_act_def digit_u32_def start_blob_def elim!: rbind_rokE\<close>)

definition jump_state :: "jump \<Rightarrow> 'b parser \<Rightarrow> int" where
  "jump_state j s = (case j of Goto_st q \<Rightarrow> q | _ \<Rightarrow> fsm_cs s)"

definition calls_21 :: "fsm_act list \<Rightarrow> int \<Rightarrow> bool" where
  "calls_21 acts m \<longleftrightarrow> list_all (\<lambda>a. case a of Call_blob k \<Rightarrow> k = m \<and> k = 21 | _ \<Rightarrow> True) acts"

lemma list_acts_same:
  assumes "run_acts sb buf acts m s p = rok (j, s', p')" and "calls_21 acts m"
  shows "list_acts sb buf (map ren_act acts) (old_state m s) p = rok (old_state (jump_state j s') s', p') \<and> j \<noteq> Next_action"
  using assms
proof (induction acts arbitrary: s p)
  case Nil
  then show ?case
    by (auto simp: jump_state_def)
next
  case (Cons a acts)
  obtain j1 s1 p1 where act: "run_act sb buf a s p = rok (j1, s1, p1)"
    and rest: "(if j1 = Next_action then run_acts sb buf acts m s1 p1 else rok (j1, s1, p1)) = rok (j, s', p')"
    using Cons.prems(1) by (auto elim!: rbind_rokE)
  have call: "\<And>k. a = Call_blob k \<Longrightarrow> k = m" and calls: "calls_21 acts m"
    using Cons.prems(2) by (auto simp: calls_21_def)
  show ?case
  proof (cases "j1 = Next_action")
    case True
    then show ?thesis
      using Cons.IH [OF _ calls, of s1 p1] rest table_act_same [OF act call] by simp
  next
    case False
    then show ?thesis
      using rest table_act_same [OF act call] by (cases j1) (auto simp: jump_state_def)
  qed
qed

text \<open>The stack only ever holds state 21, and the automaton only enters states it has a case for.\<close>

abbreviation stack_21 :: "'b parser \<Rightarrow> bool" where
  "stack_21 s \<equiv> set (fsm_stack s) \<subseteq> {21}"

lemma run_act_stack:
  assumes "run_act sb buf a s p = rok (j, s1, p1)" and "stack_21 s" and "case a of Call_blob k \<Rightarrow> k = 21 | _ \<Rightarrow> True"
  shows "stack_21 s1 \<and> (j = Goto_again \<longrightarrow> fsm_cs s1 = 21) \<and> (\<forall>q. j = Goto_st q \<longrightarrow> q = 366) \<and>
    (case a of Set_command c \<Rightarrow> p_command s1 = c | _ \<Rightarrow> p_command s1 = p_command s)"
  using assms by (cases a)
    (auto 4 4 simp: run_act_def digit_u32_def start_blob_def advance_blob_def Let_def elim!: rbind_rokE split: if_splits prod.splits list.splits)

lemma run_acts_stack:
  assumes "run_acts sb buf acts m s p = rok (j, s', p')" and "stack_21 s" and "calls_21 acts m"
  shows "stack_21 s' \<and> jump_state j s' \<in> {m, 21, 366} \<and>
    (\<forall>c. p_command s = c \<and> list_all (\<lambda>a. case a of Set_command d \<Rightarrow> d = c | _ \<Rightarrow> True) acts \<longrightarrow> p_command s' = c)"
  using assms
proof (induction acts arbitrary: s p)
  case Nil
  then show ?case
    by (auto simp: jump_state_def)
next
  case (Cons a acts)
  obtain j1 s1 p1 where act: "run_act sb buf a s p = rok (j1, s1, p1)"
    and rest: "(if j1 = Next_action then run_acts sb buf acts m s1 p1 else rok (j1, s1, p1)) = rok (j, s', p')"
    using Cons.prems(1) by (auto elim!: rbind_rokE)
  have calls: "calls_21 acts m"
    using Cons.prems(3) by (auto simp: calls_21_def)
  have one: "case a of Call_blob k \<Rightarrow> k = 21 | _ \<Rightarrow> True"
    using Cons.prems(3) by (auto simp: calls_21_def split: fsm_act.splits)
  note act1 = run_act_stack [OF act Cons.prems(2) one]
  show ?case
  proof (cases "j1 = Next_action")
    case True
    then show ?thesis
      using Cons.IH [OF _ _ calls, of s1 p1] rest act1 by (auto split: fsm_act.splits)
  next
    case False
    then show ?thesis
      using rest act1 by (cases j1) (auto simp: jump_state_def split: fsm_act.splits)
  qed
qed

section \<open>One turn\<close>

lemma kept_case: "kept n \<Longrightarrow> \<exists>ts. fsm_case n = Some ts"
  using row_same [of n] by (auto simp: row_same_def split: option.splits)

lemma kept_again: "kept n \<Longrightarrow> n \<in> set again_cases \<and> n \<noteq> 0 \<and> ren n \<noteq> 0"
proof -
  have "set again_cases = {1..22} \<union> {367} \<union> {23..366} \<union> {368}"
    unfolding again_cases_def set_append set_upto by (simp add: Un_assoc)
  then show "kept n \<Longrightarrow> n \<in> set again_cases \<and> n \<noteq> 0 \<and> ren n \<noteq> 0"
    by (auto simp: kept_def ren_def)
qed

lemma st_label_kept:
  "st_label buf n s p = k \<Longrightarrow> k = Stop (s\<lparr>fsm_cs := n\<rparr>) (p + 1) \<and> p + 1 = int (length buf) \<or>
     k = Case n s (p + 1) \<and> p + 1 \<noteq> int (length buf)"
  unfolding st_label_def by (cases "p + 1 = int (length buf)") auto

lemma run_trans_turn:
  assumes "run_trans sb buf l s p = rok k" and l: "fsm_trans l = Some (acts, m)" and "calls_21 acts m" and "stack_21 s"
    and "kept m"
  shows "\<exists>s' q p'. kept q \<and> stack_21 s' \<and> k = st_label buf q s' p' \<and> q \<in> {m, 21, 366} \<and>
    list_acts sb buf (map ren_act acts) (old_state m s) p = rok (old_state q s', p') \<and>
    (\<forall>c. p_command s = c \<and> list_all (\<lambda>a. case a of Set_command d \<Rightarrow> d = c | _ \<Rightarrow> True) acts \<longrightarrow> p_command s' = c)"
proof -
  obtain j s' p' where run: "run_acts sb buf acts m s p = rok (j, s', p')"
    and k: "k = (case j of Goto_st m' \<Rightarrow> st_label buf m' s' p' | _ \<Rightarrow> again buf s' p')"
    using assms(1) l by (auto simp: run_trans_def elim!: rbind_rokE)
  note stack = run_acts_stack [OF run assms(4,3)] and same = list_acts_same [OF run assms(3)]
  have kq: "kept (jump_state j s')"
    using stack assms(5) by (auto simp: kept_def)
  then have "k = st_label buf (jump_state j s') s' p'"
    using k same kept_again [OF kq] by (cases j) (auto simp: jump_state_def again_def)
  then show ?thesis
    using stack same kq by blast
qed

lemma quit_lookups: "fsm_trans 23 = Some ([Set_command Cmd_quit, Set_ok], 191)"
  "\<exists>ts. fsm_case 9 = Some ts \<and> pick_row (row_tests ts) 81 = ([], 0) \<and> pick_row (row_tests ts) 113 = ([], 0) \<and>
     (\<forall>c. pick_test ts c = Some 23 \<longrightarrow> c = 81 \<or> c = 113)"
  by (simp_all add: fsm_lookups pick_row_simps split: if_splits)

lemma targets_kept:
  assumes n: "kept n" and ts: "fsm_case n = Some ts" and l: "pick_test ts c = Some l"
  shows "\<exists>acts m. fsm_trans l = Some (acts, m) \<and> calls_21 acts m \<and> (l \<noteq> 23 \<longrightarrow> kept m) \<and> (l = 23 \<longrightarrow> n = 9)"
proof -
  have "call_fits l" "n = 9 \<or> l \<noteq> 23"
    using row_same [OF n] ts pick_test_trans [OF l] by (auto simp: row_same_def list_all_iff)
  then show ?thesis
    by (auto simp: call_fits_def calls_21_def split: option.splits)
qed

lemma no_test_error:
  "kept n \<Longrightarrow> fsm_case n = Some ts \<Longrightarrow> pick_test ts c = None \<Longrightarrow> pick_row (row_tests ts) c = ([], 0)"
  using row_same [of n] pick_row_tests [of ts c] by (simp add: row_same_def)

section \<open>After quit\<close>

definition quit_states :: "int list" where
  "quit_states = [15, 16, 17, 18, 19, 20, 21, 22, 191, 192, 193, 366, 367, 368]"

definition quit_trans :: "int \<Rightarrow> bool" where
  "quit_trans l = (case fsm_trans l of None \<Rightarrow> False | Some (acts, m) \<Rightarrow> m \<in> set quit_states \<and> calls_21 acts m \<and>
     list_all (\<lambda>a. case a of Set_command d \<Rightarrow> d = Cmd_quit | _ \<Rightarrow> True) acts)"

lemma quit_closed: "list_all (\<lambda>n. case fsm_case n of None \<Rightarrow> False | Some ts \<Rightarrow> list_all (\<lambda>t. quit_trans (test_trans t)) ts) quit_states"
  by (simp add: quit_states_def fsm_lookups quit_trans_def calls_21_def)

definition quitting :: "int \<Rightarrow> 'b parser \<Rightarrow> bool" where
  "quitting n s \<longleftrightarrow> n \<in> set quit_states \<and> p_command s = Cmd_quit \<and> stack_21 s"

lemma run_trans_quitting:
  assumes "run_trans sb buf l s p = rok k" and "quit_trans l" and "p_command s = Cmd_quit" and "stack_21 s"
  shows "case k of Stop s' p' \<Rightarrow> p_command s' = Cmd_quit | Case m s' p' \<Rightarrow> quitting m s'"
proof -
  obtain acts m where l: "fsm_trans l = Some (acts, m)" "m \<in> set quit_states" "calls_21 acts m"
    "list_all (\<lambda>a. case a of Set_command d \<Rightarrow> d = Cmd_quit | _ \<Rightarrow> True) acts"
    using assms(2) by (auto simp: quit_trans_def split: option.splits)
  obtain j s' p' where run: "run_acts sb buf acts m s p = rok (j, s', p')"
    and k: "k = (case j of Goto_st m' \<Rightarrow> st_label buf m' s' p' | _ \<Rightarrow> again buf s' p')"
    using assms(1) l(1) by (auto simp: run_trans_def elim!: rbind_rokE)
  note st = run_acts_stack [OF run assms(4) l(3)]
  have cmd: "p_command s' = Cmd_quit"
    using st l(4) assms(3) by blast
  have "jump_state j s' \<in> set quit_states"
    using st l(2) by (auto simp: quit_states_def)
  then show ?thesis
    using k cmd st by (cases j) (auto simp: jump_state_def st_label_def again_def st0_def quitting_def)
qed

lemma exec_case_quitting:
  assumes "exec_case sb buf n s p = rok k" and "quitting n s"
  shows "case k of Stop s' p' \<Rightarrow> p_command s' = Cmd_quit | Case m s' p' \<Rightarrow> quitting m s'"
proof -
  obtain ts where ts: "fsm_case n = Some ts" "list_all (\<lambda>t. quit_trans (test_trans t)) ts"
    using quit_closed assms(2) by (auto simp: list_all_iff quitting_def split: option.splits)
  obtain c where c: "(case pick_test ts c of None \<Rightarrow> rok (st0 s p) | Some t \<Rightarrow> run_trans sb buf t s p) = rok k"
    using assms(1) ts(1) by (auto simp: exec_case_def elim!: rbind_rokE)
  show ?thesis
  proof (cases "pick_test ts c")
    case None
    then show ?thesis
      using c assms(2) by (auto simp: st0_def quitting_def)
  next
    case (Some l)
    then have "quit_trans l"
      using ts(2) pick_test_trans [OF Some] by (auto simp: list_all_iff)
    then show ?thesis
      using c Some run_trans_quitting [of sb buf l s p k] assms(2) by (auto simp: quitting_def)
  qed
qed

section \<open>One turn of both\<close>

lemma exec_case_turn:
  assumes "exec_case sb buf n s p = rok k" and n: "kept n" and "stack_21 s"
  shows "(\<exists>sc pc. table_step sb buf (old_state n s) p = rok (sc, pc) \<and> (case k of
      Stop s' p' \<Rightarrow> fsm_cs s' = 0 \<and> sc = old_state 0 s' \<and> p' = pc \<or>
        kept (fsm_cs s') \<and> sc = old_state (fsm_cs s') s' \<and> p' = pc + 1 \<and> p' = int (length buf)
    | Case m s' p' \<Rightarrow> kept m \<and> stack_21 s' \<and> sc = old_state m s' \<and> p' = pc + 1 \<and> p' \<noteq> int (length buf))) \<or>
    (\<exists>sc. table_step sb buf (old_state n s) p = rok (sc, p) \<and> fsm_cs sc = 0 \<and>
      (case k of Stop s' p' \<Rightarrow> p_command s' = Cmd_quit | Case m s' p' \<Rightarrow> quitting m s'))"
proof -
  obtain ts where ts: "fsm_case n = Some ts"
    using kept_case [OF n] by blast
  obtain c where c: "read_at buf p = rok c"
    and k: "(case pick_test ts c of None \<Rightarrow> rok (st0 s p) | Some l \<Rightarrow> run_trans sb buf l s p) = rok k"
    using assms(1) ts by (auto simp: exec_case_def elim!: rbind_rokE)
  have ren0: "ren 0 = 0"
    by (simp add: ren_def)
  note step = table_step_row [OF row_same [OF n] ts, where s = "old_state n s" and buf = buf and p = p, OF _ c]
  show ?thesis
  proof (cases "pick_test ts c")
    case None
    have "table_step sb buf (old_state n s) p = rok (old_state 0 s, p)"
      using step [where as = "[]" and m = 0 and sb = sb] no_test_error [OF n ts None] old_state_updates(1) [where n = n and s = s and m = 0] ren0 by simp
    then show ?thesis
      using k None by (auto simp: st0_def)
  next
    case (Some l)
    obtain acts m where l: "fsm_trans l = Some (acts, m)" "calls_21 acts m" "l \<noteq> 23 \<longrightarrow> kept m" "l = 23 \<longrightarrow> n = 9"
      using targets_kept [OF n ts Some] by blast
    have run: "run_trans sb buf l s p = rok k"
      using k Some by simp
    show ?thesis
    proof (cases "l = 23")
      case False
      then have "pick_row (row_tests ts) c = (map ren_act acts, ren m)"
        using pick_row_tests [of ts c] row_same [OF n] ts Some l(1) by (auto simp: row_same_def ren_trans_def)
      then have "table_step sb buf (old_state n s) p = list_acts sb buf (map ren_act acts) (old_state m s) p"
        using step by simp
      then show ?thesis
        using run_trans_turn [OF run l(1,2) assms(3)] l(3) False by (force simp: st_label_def split: if_splits)
    next
      case True
      then have "pick_row (row_tests ts) c = ([], 0)"
        using quit_lookups(2) l(4) ts Some by auto
      then have "table_step sb buf (old_state n s) p = rok (old_state 0 s, p)"
        using step [where as = "[]" and m = 0 and sb = sb] old_state_updates(1) [where n = n and s = s and m = 0] ren0 by simp
      moreover have "case k of Stop s' p' \<Rightarrow> p_command s' = Cmd_quit | Case m s' p' \<Rightarrow> quitting m s'"
        using run True assms(3) quit_lookups(1)
        by (auto simp: run_trans_def run_act_def st_label_def quitting_def quit_states_def)
      ultimately show ?thesis
        using ren0 by auto
    qed
  qed
qed

lemma table_loop_step:
  "table_loop sb buf s p = rbind (table_step sb buf s p) (\<lambda>(s', p').
     if fsm_cs s' = 0 then rok (s', p') else if p' + 1 \<noteq> int (length buf) then table_loop sb buf s' (p' + 1) else rok (s', p' + 1))"
  by (subst table_loop.simps) (auto simp: rbind_def rok_def split: option.splits sum.splits)

definition loop_same :: "'b sstring_builder \<Rightarrow> string \<Rightarrow> int \<Rightarrow> 'b parser \<Rightarrow> int \<Rightarrow> 'b parser \<Rightarrow> int \<Rightarrow> bool" where
  "loop_same sb buf n s p s' p' \<longleftrightarrow> (quitting n s \<longrightarrow> p_command s' = Cmd_quit) \<and>
     (kept n \<and> stack_21 s \<longrightarrow> table_loop sb buf (old_state n s) p = rok (old_state (fsm_cs s') s', p') \<or>
        p_command s' = Cmd_quit \<and> (\<exists>sc pc. table_loop sb buf (old_state n s) p = rok (sc, pc) \<and> fsm_cs sc = 0))"

lemma loop_same_stop:
  assumes k: "exec_case sb buf n s p = rok (Stop s' p')"
  shows "loop_same sb buf n s p s' p'"
proof -
  have "table_loop sb buf (old_state n s) p = rok (old_state (fsm_cs s') s', p') \<or>
      p_command s' = Cmd_quit \<and> (\<exists>sc pc. table_loop sb buf (old_state n s) p = rok (sc, pc) \<and> fsm_cs sc = 0)"
    if n: "kept n" "stack_21 s"
    using exec_case_turn [OF k n] kept_again [of "fsm_cs s'"] ren_def
    by (subst (1 2) table_loop_step) auto
  then show ?thesis
    using exec_case_quitting [OF k] by (simp add: loop_same_def)
qed

lemma loop_same_case:
  assumes k: "exec_case sb buf n s p = rok (Case m s1 p1)" and IH: "loop_same sb buf m s1 p1 s' p'"
  shows "loop_same sb buf n s p s' p'"
proof -
  have "table_loop sb buf (old_state n s) p = rok (old_state (fsm_cs s') s', p') \<or>
      p_command s' = Cmd_quit \<and> (\<exists>sc pc. table_loop sb buf (old_state n s) p = rok (sc, pc) \<and> fsm_cs sc = 0)"
    if n: "kept n" "stack_21 s"
    using exec_case_turn [OF k n] kept_again [of m] IH
    by (subst (1 2) table_loop_step) (auto simp: loop_same_def)
  then show ?thesis
    using exec_case_quitting [OF k] IH by (simp add: loop_same_def)
qed

lemma exec_loop_same:
  "exec_loop sb buf n s p = Some r \<Longrightarrow> r = Inr (s', p') \<Longrightarrow> loop_same sb buf n s p s' p'"
proof (induction sb buf n s p r arbitrary: s' p' rule: exec_loop.raw_induct [rotated, consumes 1, case_names step])
  case (step loop sb buf n s p r)
  from step(2,3) obtain k where k: "exec_case sb buf n s p = rok k"
    by (auto simp: rok_def split: option.splits sum.splits)
  show ?case
  proof (cases k)
    case (Stop s1 p1)
    then show ?thesis
      using step(2,3) k loop_same_stop [of sb buf n s p s1 p1] by (simp add: rok_def)
  next
    case (Case m s1 p1)
    then have "loop sb buf m s1 p1 = Some r"
      using step(2) k by (simp add: rok_def)
    from step(1) [OF this step(3)] show ?thesis
      using k Case loop_same_case by blast
  qed
qed

lemma kept_targets:
  assumes n: "kept n" and ts: "fsm_case n = Some ts" and pick: "pick_row (row_tests ts) c = (as, m)"
  shows "0 \<le> m \<and> m \<le> 365"
proof (cases "pick_test ts c")
  case None
  then show ?thesis
    using no_test_error [OF n ts None] pick by simp
next
  case (Some l)
  show ?thesis
  proof (cases "l = 23")
    case True
    then show ?thesis
      using targets_kept [OF n ts Some] quit_lookups(2) ts Some pick by auto
  next
    case False
    then obtain acts m' where "fsm_trans l = Some (acts, m')" "kept m'"
      using targets_kept [OF n ts Some] by blast
    then show ?thesis
      using pick_row_tests [of ts c] row_same [OF n] ts Some False pick
      by (auto simp: row_same_def ren_trans_def kept_def ren_def)
  qed
qed

section \<open>Commands\<close>

lemma old_names: "old_command_names = tl command_names"
  by (simp add: old_command_names_def command_names_def)

lemma command_read_number:
  assumes "command_read v = Some d"
  shows "\<exists>j < 104. d = Command (int j)"
proof -
  have "(v, d) \<in> set accepted_words"
    using assms map_of_SomeD unfolding map_of_accepted [symmetric] by fast
  then consider "(v, d) \<in> set misread" | "enumerated (v, d)"
    using accepted_enumerated by (auto simp: list_all_iff)
  then show ?thesis
  proof cases
    case 1
    then obtain j :: int where "d = Command j" "0 \<le> j" "j < 104"
      by (auto simp: misread_def)
    then show ?thesis
      by (intro exI [of _ "nat j"]) auto
  next
    case 2
    then show ?thesis
      by (cases d) (auto simp: enumerated_def intro!: exI [of _ "nat _"])
  qed
qed

text \<open>
  At the state where the command word starts, the older parser stops at the first letter of \<^verbatim>\<open>quit\<close>; if it
  has read anything before, it still reports state \<^verbatim>\<open>ok\<close>.
\<close>

lemma old_quit_refused:
  assumes cs: "fsm_cs s = 9" and c: "schar c = 81 \<or> schar c = 113"
  shows "old_parse sb (c # cs') s = rok (if p_state s \<noteq> State_error then Some 0 else Some (int (length (c # cs'))),
    s\<lparr>fsm_cs := 0, p_builder := sb_unguard sb (c # cs') (sb_guard sb (c # cs') 0 (p_builder s))\<rparr>)"
proof -
  let ?s = "s\<lparr>p_builder := sb_guard sb (c # cs') 0 (p_builder s)\<rparr>"
  obtain ts where ts: "fsm_case 9 = Some ts" "pick_row (row_tests ts) (schar c) = ([], 0)"
    using quit_lookups(2) c by auto
  have "table_step sb (c # cs') ?s 0 = list_acts sb (c # cs') [] (?s\<lparr>fsm_cs := 0\<rparr>) 0"
    by (rule table_step_row [where n = 9, OF row_same ts(1) _ _ ts(2)])
      (simp_all add: cs ren_def read_at_def kept_def)
  then show ?thesis
    using cs by (simp add: old_parse_def Let_def table_loop_step)
qed

lemma old_parse_kept:
  assumes laws: "builder_laws sb txt start" and inv: "parser_inv txt start s" and n: "kept (fsm_cs s)"
    and len: "length buf < 2 ^ 32"
  shows "\<exists>q s' qc sc. parse sb buf s = rok (q, s') \<and> old_parse sb buf (old_state (fsm_cs s) s) = rok (qc, sc) \<and>
    (qc = q \<and> sc = old_state (fsm_cs s') s' \<or> p_command s' = Cmd_quit \<and> fsm_cs sc = 0)"
proof -
  obtain q s' where p: "parse sb buf s = rok (q, s')"
    using parse_core [OF laws inv len] by blast
  define s1 where "s1 = s\<lparr>p_builder := sb_guard sb buf 0 (p_builder s)\<rparr>"
  obtain s2 p2 where loop: "(if buf = [] then rok (s1, 0) else exec_loop sb buf (fsm_cs s1) s1 0) = rok (s2, p2)"
    and q: "q = (if p_state s2 \<noteq> State_error then Some p2 else if p2 \<noteq> int (length buf) then Some (int (length buf)) else None)"
    and s': "s' = s2\<lparr>p_builder := sb_unguard sb buf (p_builder s2)\<rparr>"
    using p unfolding parse_def Let_def s1_def [symmetric] by (auto elim!: rbind_pair_rokE)
  have old: "old_parse sb buf (old_state (fsm_cs s) s) = rbind (if buf = [] then rok (old_state (fsm_cs s) s1, 0)
      else table_loop sb buf (old_state (fsm_cs s) s1) 0) (\<lambda>(s2, p). rok (if p_state s2 \<noteq> State_error then Some p
        else if p \<noteq> int (length buf) then Some (int (length buf)) else None,
        s2\<lparr>p_builder := sb_unguard sb buf (p_builder s2)\<rparr>))"
    using kept_again [OF n] by (simp add: old_parse_def Let_def s1_def)
  show ?thesis
  proof (cases "buf = []")
    case True
    then show ?thesis
      using p q s' loop old by (auto simp: s1_def)
  next
    case False
    have "stack_21 s1" "kept (fsm_cs s1)" "fsm_cs s1 = fsm_cs s"
      using inv n by (auto simp: s1_def parser_inv_def split: if_splits)
    moreover have "exec_loop sb buf (fsm_cs s1) s1 0 = Some (Inr (s2, p2))"
      using loop False by (simp add: rok_def)
    from exec_loop_same [OF this refl]
    have "loop_same sb buf (fsm_cs s1) s1 0 s2 p2" .
    ultimately show ?thesis
      using False p q s' by (auto simp: old loop_same_def)
  qed
qed

lemma known_states: "fsm_case n \<noteq> None \<Longrightarrow> n \<noteq> 191 \<and> n \<noteq> 192 \<and> n \<noteq> 193 \<Longrightarrow> kept n"
proof -
  assume known: "fsm_case n \<noteq> None" and n: "n \<noteq> 191 \<and> n \<noteq> 192 \<and> n \<noteq> 193"
  have "n \<in> set state_labels"
    using known by (auto simp: fsm_case_def state_labels_def map_of_eq_None_iff)
  then show "kept n"
    using n by (auto simp: state_labels_eq kept_def)
qed

text \<open>In the error state the parser of the header goes back to state 1, and the older one stays there.\<close>

lemma old_parse_error_state:
  assumes "fsm_cs s = 0" and "buf \<noteq> []"
  shows "\<exists>q s'. parse sb buf s = rok (q, s') \<and> old_parse sb buf (old_state 0 s) = rok (q, old_state 0 s') \<and> fsm_cs s' = 1"
  using assms
  by (simp add: parse_def old_parse_def Let_def exec_loop_continue exec_case_def fsm_case_0 continue_def ren_def old_state_def)

section \<open>Properties\<close>

text \<open>
  C14. For every state and character the two binary searches stay in the tables and end, they choose the
  transition that a scan of the keys of the state chooses, and its target is a state of the tables.
\<close>

theorem find_transition_scans:
  assumes "1 \<le> cs" and "cs \<le> 365"
  shows "find_transition cs c = scan_transition cs c \<and> (\<exists>i t m. find_transition cs c = rok i \<and>
    cell tab_indicies i = rok t \<and> cell tab_trans_targs t = rok m \<and> 0 \<le> m \<and> m \<le> 365)"
proof -
  obtain n where n: "kept n" "cs = ren n"
    using ren_surj [OF assms] by blast
  obtain ts where ts: "fsm_case n = Some ts"
    using kept_case [OF n(1)] by blast
  obtain ss rs d where r: "row_tests ts = (ss, rs, d)"
    by (cases "row_tests ts")
  have row: "row cs = rok (ss, rs, d)" "successively (<) (map fst ss)" "length rs \<le> 1" "list_all (\<lambda>(lo, hi, _). lo \<le> hi) rs"
    using row_same [OF n(1)] ts by (simp_all add: row_same_def r n(2))
  obtain as m where pick: "pick_row (ss, rs, d) c = (as, m)"
    by (cases "pick_row (ss, rs, d) c")
  show ?thesis
    using find_transition_eq [OF row] find_transition_row [OF row, of c] kept_targets [OF n(1) ts, of c as m] pick
    by (auto simp: r old_trans_def elim!: rbind_rokE split: if_splits)
qed

theorem find_transition_scans_witness:
  "find_transition 9 115 = scan_transition 9 115 \<and> (\<exists>i t m. find_transition 9 115 = rok i \<and>
    cell tab_indicies i = rok t \<and> cell tab_trans_targs t = rok m \<and> 0 \<le> m \<and> m \<le> 365)"
  by (rule find_transition_scans) simp_all

text \<open>
  C13. On every buffer of less than 4 GiB the older parser returns, and it returns what the parser of the
  header returns and leaves the same arguments, counters, builder and stack, in the renumbered state and
  with the renumbered command, with two exceptions: when the command of the request is \<^verbatim>\<open>quit\<close> it may have
  stopped in its error state; and started in the error state, where both take nothing of a nonempty buffer,
  the parser of the header goes back to state 1 and the older one stays in the error state. The three states
  inside the word \<^verbatim>\<open>quit\<close>, 191 to 193, have no counterpart in the tables and are not compared.
\<close>

theorem old_parse_same:
  assumes laws: "builder_laws sb txt start" and inv: "parser_inv txt start s"
    and n: "fsm_cs s \<noteq> 191 \<and> fsm_cs s \<noteq> 192 \<and> fsm_cs s \<noteq> 193" and len: "length buf < 2 ^ 32"
  shows "\<exists>q s' qc sc. parse sb buf s = rok (q, s') \<and> old_parse sb buf (old_state (fsm_cs s) s) = rok (qc, sc) \<and>
    (if fsm_cs s = 0 \<and> buf \<noteq> [] then qc = q \<and> sc = old_state 0 s' \<and> fsm_cs s' = 1
     else qc = q \<and> sc = old_state (fsm_cs s') s' \<or> p_command s' = Cmd_quit \<and> fsm_cs sc = 0)"
proof (cases "fsm_cs s = 0")
  case True
  show ?thesis
  proof (cases "buf = []")
    case empty: True
    then show ?thesis
      using True by (simp add: parse_def old_parse_def Let_def old_state_def)
  next
    case False
    then show ?thesis
      using old_parse_error_state [OF True False, of sb] True by auto
  qed
next
  case False
  then have "kept (fsm_cs s)"
    using known_states [of "fsm_cs s"] inv n by (simp add: parser_inv_def)
  from old_parse_kept [OF laws inv this len] show ?thesis
    using False by simp
qed

theorem old_parse_same_witness:
  "\<exists>q s' qc sc. parse text_builder ''*1'' (init text_builder blank_parser) = rok (q, s') \<and>
    old_parse text_builder ''*1'' (old_state (fsm_cs (init text_builder blank_parser)) (init text_builder blank_parser)) = rok (qc, sc) \<and>
    (qc = q \<and> sc = old_state (fsm_cs s') s' \<or> p_command s' = Cmd_quit \<and> fsm_cs sc = 0)"
  using old_parse_same [OF text_builder_laws init_inv(1) [OF text_builder_laws], of blank_parser "''*1''"]
  by (simp add: init_inv(3) [OF text_builder_laws])

text \<open>
  Round trip for the older parser: after \<^verbatim>\<open>init\<close> it reads the text of every request whose word is
  not \<^verbatim>\<open>quit\<close> back to its arguments, and stores the command that has the same name in its own
  enumeration.
\<close>

lemma old_parse_request:
  assumes laws: "builder_laws sb txt start" and d: "command_read (map lower_char w) = Some d" "d \<noteq> Cmd_quit"
    and len: "length (request_text n m w (map (\<lambda>x. (length x, x)) args)) < 2 ^ 32"
    and args: "\<forall>x\<in>set args. length x < 2 ^ 32"
  shows "\<exists>s'. old_parse sb (request_text n m w (map (\<lambda>x. (length x, x)) args)) (old_init sb s) =
      rok (Some (int (length (request_text n m w (map (\<lambda>x. (length x, x)) args)))), s') \<and>
    p_args_list s' = args \<and> p_args_count s' = of_nat n \<and> p_state s' = State_ok \<and>
    (\<exists>k. d = Command (int (Suc k)) \<and> p_command s' = Command (int k) \<and> old_command_names ! k = command_names ! Suc k)"
proof -
  define s0 where "s0 = s\<lparr>p_command := (case p_command s of Command k \<Rightarrow> Command (k + 1))\<rparr>"
  have cmd: "ren_command (p_command s0) = p_command s"
    by (cases "p_command s") (simp add: s0_def)
  have i: "init sb s0 = (old_init sb s)\<lparr>p_command := p_command s0\<rparr>" "fsm_cs (init sb s0) = 1"
    by (simp_all add: init_def old_init_def s0_def)
  have eq: "old_state (fsm_cs (init sb s0)) (init sb s0) = old_init sb s"
    using cmd by (simp add: i old_state_def old_init_def ren_def)
  have kept: "kept (fsm_cs (init sb s0))"
    unfolding kept_def i(2) by simp
  obtain j where j: "j < 104" "d = Command (int j)"
    using command_read_number [OF d(1)] by blast
  then obtain k where k: "j = Suc k"
    using d(2) by (cases j) simp_all
  have "old_command_names ! k = command_names ! Suc k"
    using j(1) unfolding k old_names length_command_names [symmetric] by (simp add: nth_tl)
  then show ?thesis
    using old_parse_kept [OF laws init_inv(1) [OF laws] kept len] request_read [OF laws d(1) len args, of s0] d(2) j(2)
    unfolding eq k by (fastforce simp: k)
qed

end
