(* ===== verification/Scheduler.thy ===== *)
theory Scheduler
  imports Text "HOL-Library.Sublist"
begin

text \<open>
  The scheduler, \<^verbatim>\<open>src/scheduler.cc\<close> and \<^verbatim>\<open>src/include/scheduler.hh\<close>: the objects of a shard
  (\<open>shard\<close>: its \<^verbatim>\<open>scheduler\<close>, and the tables of contexts of its \<^verbatim>\<open>req_service\<close>, which the theory
  \<open>Service_Runtime\<close> uses), and what the shards share (\<open>sys\<close>): the \<^verbatim>\<open>cores\<close> with their queues and times, the lock
  \<^verbatim>\<open>cores[0].mu\<close> with the shard that holds it, and the statistics of functions and workflows.

  The objects behind the \<^verbatim>\<open>void*\<close> of the maps are values of the maps. The statistics are never
  deleted, so a pointer to one is its key in \<^verbatim>\<open>func_map\<close> or \<^verbatim>\<open>wf_map\<close>; a state in \<^verbatim>\<open>req_map\<close> is
  owned by its entry, and \<open>None\<close> is the null pointer that \<^verbatim>\<open>operator[]\<close> inserts for an absent key.

  Calls that leave the scheduler are appended to \<open>sent\<close>: a task handed to the engine of a shard, a
  call on another shard, a promise that is fulfilled. The readings of \<^verbatim>\<open>rdtsc()\<close> are arguments, in the
  order of the calls. Locking a mutex that is held does not return.
\<close>

section \<open>Types\<close>

type_synonym call = "string \<times> string \<times> string \<times> string \<times> string"
  \<comment> \<open>\<^verbatim>\<open>req_id\<close>, \<^verbatim>\<open>call_id\<close>, \<^verbatim>\<open>service\<close>, \<^verbatim>\<open>function\<close>, \<^verbatim>\<open>jsargs\<close>\<close>

record js_reply =
  r_status :: int
  r_message :: string

datatype req_states =
    Local_reply                 \<comment> \<open>\<^verbatim>\<open>local_reply_states\<close>, \<^verbatim>\<open>local = true\<close>\<close>
  | Remote_reply nat            \<comment> \<open>\<^verbatim>\<open>reply_states\<close>, \<^verbatim>\<open>local = false\<close>, with \<^verbatim>\<open>prev_cpuid\<close>\<close>
  | Callback nat                \<comment> \<open>\<^verbatim>\<open>callback_states\<close> with the JavaScript function\<close>

record func_states =
  f_count :: u32
  f_total :: u64
  f_exec :: u32                 \<comment> \<open>\<^verbatim>\<open>int\<close>\<close>

record wf_states =
  w_fuse :: bool
  w_count :: u32
  w_total :: u64
  w_exec :: u32                 \<comment> \<open>\<^verbatim>\<open>int\<close>\<close>

definition new_func_states :: func_states where
  "new_func_states = \<lparr>f_count = 0, f_total = 0, f_exec = - 1\<rparr>"

definition new_wf_states :: wf_states where
  "new_wf_states = \<lparr>w_fuse = False, w_count = 0, w_total = 0, w_exec = - 1\<rparr>"

datatype task = Run_func call string   \<comment> \<open>\<^verbatim>\<open>local_req_server().run_func(.., function_states)\<close>\<close>

record core_states =
  busy :: bool
  busy_till :: u64
  queue :: "string list"
  task_map :: "string \<rightharpoonup> task"

definition core_init :: core_states where
  "core_init = \<lparr>busy = False, busy_till = 0, queue = [], task_map = Map.empty\<rparr>"

record shard =
  req_map :: "string \<rightharpoonup> req_states option"
  curr_req :: "string set"
  curr_wf :: "string set"
  wf_starts :: "string \<rightharpoonup> u64"
  big_core :: bool
  ctx_map :: "string \<rightharpoonup> nat"              \<comment> \<open>\<^verbatim>\<open>req_service::ctx_map\<close>\<close>
  contexts :: "string list"                 \<comment> \<open>\<^verbatim>\<open>contexts[0 .. unallocated_ctx)\<close>, the service of each\<close>

definition new_shard :: shard where
  "new_shard = \<lparr>req_map = Map.empty, curr_req = {}, curr_wf = {}, wf_starts = Map.empty,
     big_core = False, ctx_map = Map.empty, contexts = []\<rparr>"

datatype event =
    Add_task nat task                        \<comment> \<open>\<^verbatim>\<open>engine().add_task\<close> on a shard\<close>
  | Invoke_run_func nat nat call             \<comment> \<open>\<^verbatim>\<open>invoke_on(core, run_func, prev_cpu, ..)\<close>\<close>
  | Invoke_reply nat nat string string string string
      \<comment> \<open>\<^verbatim>\<open>invoke_on(prev_cpuid, reply, ..).then(dispatch)\<close>, with the shard that dispatches then\<close>
  | Then_dispatch nat                         \<comment> \<open>the \<^verbatim>\<open>dispatch()\<close> that follows a remote reply\<close>
  | Set_value nat string js_reply            \<comment> \<open>\<^verbatim>\<open>res.set_value(rep)\<close> of the entry's promise\<close>

record sys =
  cores :: "core_states list"
  mu :: "nat option"                         \<comment> \<open>the shard that holds \<^verbatim>\<open>cores[0].mu\<close>\<close>
  func_map :: "string \<rightharpoonup> func_states"
  wf_map :: "string \<rightharpoonup> wf_states"
  req_wf_map :: "string \<rightharpoonup> string option"
  shards :: "shard list"
  sent :: "event list"

definition HW_Q_COUNT :: nat where "HW_Q_COUNT = 8"
definition LONG_FUNC :: u64 where "LONG_FUNC = 5 * 2400000"
definition GATE :: u64 where "GATE = 0"

section \<open>Access\<close>

text \<open>\<^verbatim>\<open>cores[i]\<close> and the \<^verbatim>\<open>scheduler\<close> of shard \<open>i\<close>.\<close>

definition core_at :: "nat \<Rightarrow> sys \<Rightarrow> core_states res" where
  "core_at i s = (if i < length (cores s) then rok (cores s ! i) else rfail Out_of_bounds)"

definition set_core :: "nat \<Rightarrow> core_states \<Rightarrow> sys \<Rightarrow> sys" where
  "set_core i c s = s\<lparr>cores := (cores s)[i := c]\<rparr>"

definition shard_at :: "nat \<Rightarrow> sys \<Rightarrow> shard res" where
  "shard_at i s = (if i < length (shards s) then rok (shards s ! i) else rfail Out_of_bounds)"

definition set_shard :: "nat \<Rightarrow> shard \<Rightarrow> sys \<Rightarrow> sys" where
  "set_shard i d s = s\<lparr>shards := (shards s)[i := d]\<rparr>"

definition emit :: "event \<Rightarrow> sys \<Rightarrow> sys" where
  "emit e s = s\<lparr>sent := sent s @ [e]\<rparr>"

definition lock :: "nat \<Rightarrow> sys \<Rightarrow> sys res" where
  "lock i s = (if mu s = None then rok (s\<lparr>mu := Some i\<rparr>) else None)"

definition unlock :: "sys \<Rightarrow> sys" where
  "unlock s = s\<lparr>mu := None\<rparr>"

section \<open>Start\<close>

text \<open>\<^verbatim>\<open>scheduler::start\<close> on a shard, with \<^verbatim>\<open>smp::count\<close> shards.\<close>

definition sched_start :: "nat \<Rightarrow> nat \<Rightarrow> sys \<Rightarrow> sys res" where
  "sched_start n i s = rbind (shard_at i s) (\<lambda>d.
     let s1 = set_shard i (if HW_Q_COUNT \<le> i then d\<lparr>big_core := True\<rparr> else d) s
     in rok (if i = 0 then s1\<lparr>cores := replicate n core_init\<rparr> else s1))"

text \<open>\<^verbatim>\<open>invoke_on_all(&scheduler::start)\<close>, on the shards in the order \<open>is\<close>.\<close>

fun start_all :: "nat \<Rightarrow> nat list \<Rightarrow> sys \<Rightarrow> sys res" where
  "start_all n [] s = rok s"
| "start_all n (i # is) s = rbind (sched_start n i s) (start_all n is)"

text \<open>The state before the start, with the objects of \<open>n\<close> shards constructed.\<close>

definition fresh_sys :: "nat \<Rightarrow> sys" where
  "fresh_sys n = \<lparr>cores = [], mu = None, func_map = Map.empty, wf_map = Map.empty,
     req_wf_map = Map.empty, shards = replicate n new_shard, sent = []\<rparr>"

section \<open>Dispatch\<close>

definition dispatch :: "nat \<Rightarrow> sys \<Rightarrow> sys res" where
  "dispatch i s = rbind (core_at i s) (\<lambda>c. rbind (shard_at i s) (\<lambda>d.
     case queue c of
       [] \<Rightarrow> rok s
     | front # rest \<Rightarrow> rbind (lock i s) (\<lambda>s.
         rok (unlock (if curr_wf d = {} \<and> task_map c front \<noteq> None
           then set_core i (c\<lparr>queue := rest, task_map := (task_map c)(front := None)\<rparr>)
                  (emit (Add_task i (the (task_map c front))) s)
           else s)))))"

section \<open>The states of a request\<close>

definition get_req_states :: "nat \<Rightarrow> string \<Rightarrow> sys \<Rightarrow> (req_states option \<times> sys) res" where
  "get_req_states i key s = rbind (shard_at i s) (\<lambda>d.
     case req_map d key of
       Some p \<Rightarrow> rok (p, s)
     | None \<Rightarrow> rok (None, set_shard i (d\<lparr>req_map := (req_map d)(key \<mapsto> None)\<rparr>) s))"

definition set_req_states :: "nat \<Rightarrow> string \<Rightarrow> req_states \<Rightarrow> sys \<Rightarrow> sys res" where
  "set_req_states i key st s = rbind (shard_at i s) (\<lambda>d.
     rok (set_shard i (d\<lparr>req_map := (req_map d)(key \<mapsto> Some st)\<rparr>) s))"

definition del_req_states :: "nat \<Rightarrow> string \<Rightarrow> sys \<Rightarrow> sys res" where
  "del_req_states i key s = rbind (shard_at i s) (\<lambda>d.
     rok (set_shard i (d\<lparr>req_map := (req_map d)(key := None)\<rparr>) s))"

definition reply_key :: "string \<Rightarrow> string \<Rightarrow> string" where
  "reply_key service call_id = service @ call_id @ ''reply''"

definition callback_key :: "string \<Rightarrow> string \<Rightarrow> string" where
  "callback_key service call_id = service @ call_id @ ''cb''"

text \<open>The first lines of \<^verbatim>\<open>run_func\<close> and \<^verbatim>\<open>schedule\<close>: a reply state and statistics if there are none.\<close>

definition ensure_states :: "nat \<Rightarrow> nat \<Rightarrow> string \<Rightarrow> string \<Rightarrow> sys \<Rightarrow> sys res" where
  "ensure_states i prev_cpu key func s = rbind (shard_at i s) (\<lambda>d.
     let s1 = (if req_map d key = None
           then set_shard i (d\<lparr>req_map := (req_map d)(key \<mapsto> Some (Remote_reply prev_cpu))\<rparr>) s else s)
     in rok (if func_map s1 func = None
           then s1\<lparr>func_map := (func_map s1)(func \<mapsto> new_func_states)\<rparr> else s1))"

text \<open>\<^verbatim>\<open>req_wf_map[req_id]\<close>, dereferenced.\<close>

definition workflow_of :: "string \<Rightarrow> sys \<Rightarrow> (string \<times> wf_states) res" where
  "workflow_of req_id s = (case req_wf_map s req_id of
      Some (Some w) \<Rightarrow> (case wf_map s w of Some ws \<Rightarrow> rok (w, ws) | None \<Rightarrow> rfail Null_deref)
    | _ \<Rightarrow> rfail Null_deref)"

section \<open>Running a function\<close>

text \<open>The region of \<^verbatim>\<open>run_func\<close> under the lock: the task goes to the engine or waits in \<^verbatim>\<open>task_map\<close>.\<close>

definition place_task :: "nat \<Rightarrow> call \<Rightarrow> bool \<Rightarrow> shard \<Rightarrow> sys \<Rightarrow> sys res" where
  "place_task cpu call fuse d s = (case call of (req_id, call_id, service, function, jsargs) \<Rightarrow>
     let t = Run_func call (service @ function) in
     if fuse
     then rok (emit (Add_task cpu t) (set_shard cpu (d\<lparr>curr_wf := insert req_id (curr_wf d)\<rparr>) s))
     else rbind (core_at cpu s) (\<lambda>c.
       rok (set_core cpu (c\<lparr>task_map := (task_map c)(call_id \<mapsto> t)\<rparr>)
              (set_shard cpu (d\<lparr>curr_req := insert call_id (curr_req d)\<rparr>) s))))"

definition run_func :: "nat \<Rightarrow> u64 \<Rightarrow> nat \<Rightarrow> call \<Rightarrow> sys \<Rightarrow> sys res" where
  "run_func cpu now prev_cpu call s = (case call of (req_id, call_id, service, function, jsargs) \<Rightarrow>
     rbind (ensure_states cpu prev_cpu (reply_key service call_id) (service @ function) s) (\<lambda>s.
     rbind (shard_at cpu s) (\<lambda>d0.
     let d = (if req_id = call_id then d0\<lparr>wf_starts := (wf_starts d0)(req_id \<mapsto> now)\<rparr> else d0) in
     rbind (lock cpu (set_shard cpu d s)) (\<lambda>s.
     rbind (workflow_of req_id s) (\<lambda>(w, ws).
     rbind (place_task cpu call (w_fuse ws) d s) (\<lambda>s.
     dispatch cpu (unlock s)))))))"

section \<open>Choosing a core\<close>

text \<open>
  One pass over the cores \<open>is\<close>: the index with the least \<^verbatim>\<open>busy_till\<close> below \<open>min\<close>, the first one of
  equals; \<open>None\<close> is \<^verbatim>\<open>min_index == -1\<close>.
\<close>

fun scan_cores :: "core_states list \<Rightarrow> nat list \<Rightarrow> u64 \<Rightarrow> nat option \<Rightarrow> u64 \<times> nat option" where
  "scan_cores cs [] least ix = (least, ix)"
| "scan_cores cs (i # is) least ix =
     (if busy_till (cs ! i) < least then scan_cores cs is (busy_till (cs ! i)) (Some i)
      else scan_cores cs is least ix)"

text \<open>
  The two loops: the cores without a network queue, then, for a short call, the cores with one. \<open>t1\<close>
  and \<open>t2\<close> are the readings in \<^verbatim>\<open>min < rdtsc()\<close> and in \<^verbatim>\<open>min = rdtsc()\<close>.
\<close>

definition choose_core :: "core_states list \<Rightarrow> u64 \<Rightarrow> u64 \<Rightarrow> u64 \<Rightarrow> nat option" where
  "choose_core cs exec_time t1 t2 = (case scan_cores cs [HW_Q_COUNT..<length cs] (- 1) None of
     (least, ix) \<Rightarrow>
       if exec_time < LONG_FUNC \<and> exec_time \<noteq> - 1
       then snd (scan_cores cs [0..<HW_Q_COUNT] (if least < t1 then t2 else least) ix)
       else ix)"

text \<open>
  The part between the choice and the end of \<^verbatim>\<open>get_core\<close>: the call is queued, and the core is busy for
  \<open>exec_time\<close> longer.
\<close>

definition occupy :: "nat option \<Rightarrow> u64 \<Rightarrow> u64 \<Rightarrow> string \<Rightarrow> sys \<Rightarrow> (nat \<times> sys) res" where
  "occupy core_id current exec_time call_id s = (case core_id of
      None \<Rightarrow> rfail Out_of_bounds
    | Some k \<Rightarrow> rbind (core_at k s) (\<lambda>c.
        let e = (if exec_time = 0 then 1 else exec_time)
        in rok (k, unlock (set_core k (c\<lparr>busy := True, queue := queue c @ [call_id],
             busy_till := max (busy_till c) current + e\<rparr>) s))))"

text \<open>
  \<^verbatim>\<open>get_core\<close>, with the reading \<open>t0\<close> at its start and those of the choice.
\<close>

definition get_core ::
  "nat \<Rightarrow> u64 \<times> u64 \<times> u64 \<Rightarrow> u64 \<Rightarrow> string \<Rightarrow> sys \<Rightarrow> (nat \<times> sys) res" where
  "get_core i clock exec_time call_id s = (case clock of (t0, t1, t2) \<Rightarrow>
     let n = length (cores s) in
     if n \<le> HW_Q_COUNT then occupy (Some i) t0 exec_time call_id s
     else rbind (core_at i s) (\<lambda>c.
       if exec_time < GATE
       then rok (i, set_core i (c\<lparr>busy_till := max (busy_till c) t0 + exec_time\<rparr>) s)
       else rbind (lock i s) (\<lambda>s.
         occupy (choose_core (cores s) exec_time t1 t2) t0 exec_time call_id s)))"

section \<open>Scheduling a call\<close>

definition fused_service :: "string \<Rightarrow> bool" where
  "fused_service service \<longleftrightarrow> service = ''complex.js'' \<or> service = ''post.js'' \<or> service = ''fanout.js''"

text \<open>The bookkeeping of workflows in \<^verbatim>\<open>schedule\<close>.\<close>

definition note_workflow :: "string \<Rightarrow> string \<Rightarrow> string \<Rightarrow> string \<Rightarrow> sys \<Rightarrow> sys" where
  "note_workflow req_id call_id service func s =
     (let s1 = (if req_id = call_id \<and> wf_map s func = None
        then s\<lparr>wf_map := (wf_map s)(func \<mapsto> new_wf_states\<lparr>w_fuse := fused_service service\<rparr>),
               req_wf_map := (req_wf_map s)(req_id \<mapsto> Some func)\<rparr>
        else s)
      in if req_id = call_id then s1\<lparr>req_wf_map := (req_wf_map s1)(req_id \<mapsto> Some func)\<rparr>
         else s1)"

definition schedule ::
  "nat \<Rightarrow> u64 \<times> u64 \<times> u64 \<Rightarrow> u64 \<Rightarrow> nat \<Rightarrow> call \<Rightarrow> sys \<Rightarrow> sys res" where
  "schedule cpu clock now prev_cpu call s = (case call of (req_id, call_id, service, function, jsargs) \<Rightarrow>
     let func = service @ function in
     rbind (ensure_states cpu prev_cpu (reply_key service call_id) func s) (\<lambda>s.
     let s = note_workflow req_id call_id service func s in
     rbind (workflow_of req_id s) (\<lambda>(w, ws).
     rbind (case func_map s func of Some f \<Rightarrow> rok f | None \<Rightarrow> rfail Null_deref) (\<lambda>f.
     rbind (if w_fuse ws
         then (if req_id = call_id then get_core cpu clock (scast (w_exec ws)) call_id s
               else rok (cpu, s))
         else get_core cpu clock (scast (f_exec f)) call_id s) (\<lambda>(core, s).
     if core \<noteq> cpu then rok (emit (Invoke_run_func core prev_cpu call) s)
     else run_func cpu now prev_cpu call s)))))"

text \<open>
  \<^verbatim>\<open>new_req\<close> up to its continuation: the promise of the response is stored and the root call is
  scheduled. The response is written when the promise is fulfilled (theory \<open>Responses\<close>).
\<close>

definition new_req ::
  "nat \<Rightarrow> u64 \<times> u64 \<times> u64 \<Rightarrow> u64 \<Rightarrow> string \<Rightarrow> string \<Rightarrow> string \<Rightarrow> string \<Rightarrow> sys \<Rightarrow> sys res" where
  "new_req cpu clock now req_id service function args s =
     rbind (set_req_states cpu (reply_key service req_id) Local_reply s)
       (schedule cpu clock now cpu (req_id, req_id, service, function, args))"

section \<open>Replies\<close>

text \<open>
  What \<^verbatim>\<open>reply\<close> does under the lock: the call leaves the queue, and a shard with nothing left to
  run is free from now on. \<open>remove1\<close> is the loop that erases the first occurrence.
\<close>

definition retire :: "nat \<Rightarrow> u64 \<Rightarrow> string \<Rightarrow> sys \<Rightarrow> sys res" where
  "retire cpu now call_id s = rbind (lock cpu s) (\<lambda>s.
     rbind (core_at cpu s) (\<lambda>c. rbind (shard_at cpu s) (\<lambda>d.
       let d = d\<lparr>curr_req := curr_req d - {call_id}\<rparr>;
           c = c\<lparr>queue := remove1 call_id (queue c)\<rparr>;
           c = (if curr_req d = {} then c\<lparr>busy := False, busy_till := now\<rparr> else c)
       in rok (unlock (set_core cpu c (set_shard cpu d s))))))"

text \<open>The statistics of a workflow, reset after 1000 requests.\<close>

definition add_wf_sample :: "u64 \<Rightarrow> wf_states \<Rightarrow> wf_states" where
  "add_wf_sample t ws =
     (let ws = (if w_count ws = 1000 then ws\<lparr>w_count := 0, w_total := 0\<rparr> else ws);
          ws = ws\<lparr>w_count := w_count ws + 1\<rparr>;
          ws = ws\<lparr>w_total := w_total ws + t\<rparr>
      in ws\<lparr>w_exec := ucast (w_total ws div ucast (w_count ws))\<rparr>)"

definition drop_wf :: "nat \<Rightarrow> string \<Rightarrow> sys \<Rightarrow> sys res" where
  "drop_wf cpu req_id s = rbind (lock cpu s) (\<lambda>s. rbind (shard_at cpu s) (\<lambda>d.
     rok (unlock (set_shard cpu (d\<lparr>curr_wf := curr_wf d - {req_id}\<rparr>) s))))"

text \<open>The reply to another shard: the time of the workflow is noted, and the reply is sent on.\<close>

definition pass_on ::
  "nat \<Rightarrow> nat \<Rightarrow> u64 \<Rightarrow> string \<Rightarrow> string \<Rightarrow> string \<Rightarrow> string \<Rightarrow> sys \<Rightarrow> sys res" where
  "pass_on prev_cpuid cpu now req_id call_id service ret s =
     rbind (workflow_of req_id s) (\<lambda>(w, ws).
     rbind (shard_at cpu s) (\<lambda>d.
       let start = (case wf_starts d req_id of None \<Rightarrow> 0 | Some t \<Rightarrow> t);
           s = s\<lparr>wf_map := (wf_map s)(w \<mapsto> add_wf_sample (now - start) ws)\<rparr>;
           s = set_shard cpu (d\<lparr>wf_starts := (wf_starts d)(req_id := None)\<rparr>) s in
       rbind (if w_fuse ws then drop_wf cpu req_id s else rok s) (\<lambda>s.
         rok (emit (Invoke_reply prev_cpuid cpu req_id call_id service ret) s))))"

text \<open>
  \<^verbatim>\<open>reply\<close>. \<open>json\<close> is the boost JSON reader with the two \<^verbatim>\<open>get\<close>s, a failure is the exception it throws;
  \<open>callback\<close> is \<^verbatim>\<open>run_callback\<close> of the service runtime, which runs JavaScript. \<open>now1\<close> and \<open>now2\<close>
  are the readings for the core and for the workflow. A callback state read as a reply state is a
  bad access.
\<close>

definition answer ::
  "(string \<Rightarrow> fault + js_reply) \<Rightarrow> (string \<Rightarrow> string \<Rightarrow> string \<Rightarrow> sys \<Rightarrow> sys res) \<Rightarrow>
   nat \<Rightarrow> u64 \<Rightarrow> string \<Rightarrow> string \<Rightarrow> string \<Rightarrow> string \<Rightarrow> req_states option \<Rightarrow> sys \<Rightarrow> sys res" where
  "answer json callback cpu now req_id call_id service ret states s = (case states of
       None \<Rightarrow> rfail Null_deref
     | Some (Callback f) \<Rightarrow> rfail (Bad_address 0)
     | Some Local_reply \<Rightarrow> (case json ret of
           Inl e \<Rightarrow> rfail e
         | Inr rep \<Rightarrow> rbind (drop_wf cpu req_id (emit (Set_value cpu (reply_key service call_id) rep) s))
             (dispatch cpu))
     | Some (Remote_reply prev_cpuid) \<Rightarrow>
         if prev_cpuid = cpu then rbind (callback call_id service ret s) (dispatch cpu)
         else pass_on prev_cpuid cpu now req_id call_id service ret s)"

definition reply ::
  "(string \<Rightarrow> fault + js_reply) \<Rightarrow> (string \<Rightarrow> string \<Rightarrow> string \<Rightarrow> sys \<Rightarrow> sys res) \<Rightarrow>
   nat \<Rightarrow> u64 \<Rightarrow> u64 \<Rightarrow> string \<Rightarrow> string \<Rightarrow> string \<Rightarrow> string \<Rightarrow> sys \<Rightarrow> sys res" where
  "reply json callback cpu now1 now2 req_id call_id service ret s = rbind (shard_at cpu s) (\<lambda>d.
     let key = reply_key service call_id;
         states = (case req_map d key of None \<Rightarrow> None | Some p \<Rightarrow> p) in
     rbind (retire cpu now1 call_id (set_shard cpu (d\<lparr>req_map := (req_map d)(key := None)\<rparr>) s))
       (answer json callback cpu now2 req_id call_id service ret states))"

section \<open>The invariant\<close>

named_theorems sched_simps \<open>how the accessors act on the parts of the state\<close>

definition wf_refs :: "sys \<Rightarrow> bool" where
  "wf_refs s \<longleftrightarrow> (\<forall>r p. req_wf_map s r = Some p \<longrightarrow> (\<exists>w. p = Some w \<and> wf_map s w \<noteq> None))"

definition stats_ok :: "sys \<Rightarrow> bool" where
  "stats_ok s \<longleftrightarrow> (\<forall>w ws. wf_map s w = Some ws \<longrightarrow> unat (w_count ws) \<le> 1000) \<and>
     (\<forall>f fs. func_map s f = Some fs \<longrightarrow> unat (f_count fs) < 100)"

fun kind_ok :: "string \<Rightarrow> req_states \<Rightarrow> bool" where
  "kind_ok key (Callback f) \<longleftrightarrow> suffix ''cb'' key"
| "kind_ok key st \<longleftrightarrow> suffix ''reply'' key"

definition keys_ok :: "shard \<Rightarrow> bool" where
  "keys_ok d \<longleftrightarrow> (\<forall>key st. req_map d key = Some (Some st) \<longrightarrow> kind_ok key st)"

definition core_inv :: "nat \<Rightarrow> sys \<Rightarrow> bool" where
  "core_inv n s \<longleftrightarrow> length (cores s) = n \<and> length (shards s) = n \<and> wf_refs s \<and> stats_ok s \<and>
     list_all keys_ok (shards s)"

definition sched_inv :: "nat \<Rightarrow> sys \<Rightarrow> bool" where
  "sched_inv n s \<longleftrightarrow> core_inv n s \<and> mu s = None"

lemma core_inv_irrelevant [simp, sched_simps]:
  "core_inv n (set_core i c s) = core_inv n s"
  "core_inv n (emit e s) = core_inv n s"
  "core_inv n (unlock s) = core_inv n s"
  "core_inv n (s\<lparr>mu := m\<rparr>) = core_inv n s"
  by (simp_all add: core_inv_def set_core_def emit_def unlock_def wf_refs_def stats_ok_def)

lemma accessor_simps [simp, sched_simps]:
  "mu (set_core i c s) = mu s" "mu (set_shard i d s) = mu s" "mu (emit e s) = mu s" "mu (unlock s) = None"
  "cores (set_shard i d s) = cores s" "cores (emit e s) = cores s" "cores (unlock s) = cores s"
  "shards (set_core i c s) = shards s" "shards (emit e s) = shards s" "shards (unlock s) = shards s"
  "func_map (set_core i c s) = func_map s" "func_map (set_shard i d s) = func_map s"
  "func_map (emit e s) = func_map s" "func_map (unlock s) = func_map s"
  "wf_map (set_core i c s) = wf_map s" "wf_map (set_shard i d s) = wf_map s"
  "wf_map (emit e s) = wf_map s" "wf_map (unlock s) = wf_map s"
  "req_wf_map (set_core i c s) = req_wf_map s" "req_wf_map (set_shard i d s) = req_wf_map s"
  "req_wf_map (emit e s) = req_wf_map s" "req_wf_map (unlock s) = req_wf_map s"
  "sent (set_core i c s) = sent s" "sent (set_shard i d s) = sent s"
  "sent (emit e s) = sent s @ [e]" "sent (unlock s) = sent s"
  by (simp_all add: set_core_def set_shard_def emit_def unlock_def)

lemma shards_set_shard [simp]: "shards (set_shard i d s) = (shards s)[i := d]"
  and cores_set_core [simp]: "cores (set_core i c s) = (cores s)[i := c]"
  by (simp_all add: set_shard_def set_core_def)

lemma core_inv_set_shard [intro]: "core_inv n s \<Longrightarrow> keys_ok d \<Longrightarrow> core_inv n (set_shard i d s)"
  by (auto simp: core_inv_def set_shard_def wf_refs_def stats_ok_def list_all_iff dest: set_update_subset_insert [THEN subsetD])

lemma shard_at_rok: "shard_at i s = rok d \<longleftrightarrow> i < length (shards s) \<and> d = shards s ! i"
  by (auto simp: shard_at_def)

lemma core_at_rok: "core_at i s = rok c \<longleftrightarrow> i < length (cores s) \<and> c = cores s ! i"
  by (auto simp: core_at_def)

lemma lock_rok: "lock i s = rok s' \<longleftrightarrow> mu s = None \<and> s' = s\<lparr>mu := Some i\<rparr>"
  by (auto simp: lock_def rok_def)

lemmas step_rok = rbind_rok_iff shard_at_rok core_at_rok lock_rok

lemma core_inv_keys: "core_inv n s \<Longrightarrow> i < length (shards s) \<Longrightarrow> keys_ok (shards s ! i)"
  by (simp add: core_inv_def list_all_length)

lemma keys_ok_updates [simp]:
  "keys_ok (d\<lparr>curr_req := x\<rparr>) = keys_ok d" "keys_ok (d\<lparr>curr_wf := y\<rparr>) = keys_ok d"
  "keys_ok (d\<lparr>wf_starts := z\<rparr>) = keys_ok d" "keys_ok (d\<lparr>big_core := b\<rparr>) = keys_ok d"
  "keys_ok (d\<lparr>ctx_map := cm\<rparr>) = keys_ok d" "keys_ok (d\<lparr>contexts := cs\<rparr>) = keys_ok d"
  by (simp_all add: keys_ok_def)

lemma keys_ok_put: "keys_ok d \<Longrightarrow> kind_ok key st \<Longrightarrow> keys_ok (d\<lparr>req_map := (req_map d)(key \<mapsto> Some st)\<rparr>)"
  and keys_ok_null: "keys_ok d \<Longrightarrow> keys_ok (d\<lparr>req_map := (req_map d)(key \<mapsto> None)\<rparr>)"
  and keys_ok_erase: "keys_ok d \<Longrightarrow> keys_ok (d\<lparr>req_map := (req_map d)(key := None)\<rparr>)"
  by (auto simp: keys_ok_def)

lemma kind_ok_reply: "kind_ok (reply_key service call_id) (Remote_reply p)"
    "kind_ok (reply_key service call_id) Local_reply"
  and kind_ok_callback: "kind_ok (callback_key service call_id) (Callback f)"
  by (auto simp: reply_key_def callback_key_def suffix_def)

lemma new_states_ok [simp]: "unat (f_count new_func_states) < 100" "unat (w_count new_wf_states) \<le> 1000"
  by (simp_all add: new_func_states_def new_wf_states_def)

section \<open>Every operation keeps it\<close>

lemma dispatch_inv: "sched_inv n s \<Longrightarrow> dispatch i s = rok s' \<Longrightarrow> sched_inv n s'"
  by (auto simp: dispatch_def sched_inv_def step_rok split: list.splits)

lemma ensure_states_inv:
  assumes "core_inv n s" and "ensure_states i p (reply_key service call_id) func s = rok s'"
  shows "core_inv n s'" and "mu s' = mu s" and "func_map s' func \<noteq> None"
proof -
  have fm: "core_inv n (s\<lparr>func_map := (func_map s)(func \<mapsto> new_func_states)\<rparr>)" if "core_inv n s" for s
    using that by (auto simp: core_inv_def wf_refs_def stats_ok_def)
  have i: "i < length (shards s)"
    using assms(2) by (auto simp: ensure_states_def step_rok)
  define s1 where "s1 = (if req_map (shards s ! i) (reply_key service call_id) = None
           then set_shard i ((shards s ! i)\<lparr>req_map := (req_map (shards s ! i))(reply_key service call_id
             \<mapsto> Some (Remote_reply p))\<rparr>) s else s)"
  have s1: "core_inv n s1" "mu s1 = mu s"
    using assms(1) core_inv_keys [OF assms(1) i] by (auto simp: s1_def intro!: keys_ok_put kind_ok_reply)
  have s': "s' = (if func_map s1 func = None then s1\<lparr>func_map := (func_map s1)(func \<mapsto> new_func_states)\<rparr> else s1)"
    using assms(2) i by (auto simp: ensure_states_def step_rok Let_def s1_def shard_at_def)
  show "core_inv n s'" "mu s' = mu s" "func_map s' func \<noteq> None"
    unfolding s' using s1 fm [OF s1(1)] by auto
qed

lemma core_inv_lengths: "core_inv n s \<Longrightarrow> length (cores s) = n \<and> length (shards s) = n"
  by (simp add: core_inv_def)

lemma place_task_inv:
  assumes "core_inv n s" and "keys_ok d" and "place_task cpu call fuse d s = rok s'"
  shows "core_inv n s'"
proof -
  obtain req_id call_id service fn jsargs where call: "call = (req_id, call_id, service, fn, jsargs)"
    by (cases call)
  show ?thesis
    using assms by (cases fuse)
      (auto simp: place_task_def call Let_def rbind_rok_iff intro!: core_inv_set_shard)
qed

lemma run_func_inv:
  assumes "sched_inv n s" and "run_func cpu now p call s = rok s'"
  shows "sched_inv n s'"
proof -
  obtain req_id call_id service fn jsargs where call: "call = (req_id, call_id, service, fn, jsargs)"
    by (cases call)
  obtain s1 d0 s2 and ws :: wf_states and s3 where
    s1: "ensure_states cpu p (reply_key service call_id) (service @ fn) s = rok s1" and
    d0: "shard_at cpu s1 = rok d0" and
    s2: "lock cpu (set_shard cpu (if req_id = call_id then d0\<lparr>wf_starts := (wf_starts d0)(req_id \<mapsto> now)\<rparr>
      else d0) s1) = rok s2" and
    s3: "place_task cpu call (w_fuse ws) (if req_id = call_id
      then d0\<lparr>wf_starts := (wf_starts d0)(req_id \<mapsto> now)\<rparr> else d0) s2 = rok s3" and
    fin: "dispatch cpu (unlock s3) = rok s'"
    using assms(2) unfolding run_func_def call Let_def prod.case
    by (elim rbind_pair_rokE rbind_rokE) (rule that [unfolded call])
  have inv1: "core_inv n s1"
    using ensure_states_inv [OF _ s1] assms(1) by (simp add: sched_inv_def)
  have keys: "keys_ok (if req_id = call_id then d0\<lparr>wf_starts := (wf_starts d0)(req_id \<mapsto> now)\<rparr> else d0)"
    using core_inv_keys [OF inv1] d0 by (simp add: shard_at_rok)
  then have "core_inv n s2"
    using core_inv_set_shard [OF inv1 keys] s2 by (simp add: lock_rok)
  then have "sched_inv n (unlock s3)"
    using place_task_inv [OF _ keys s3] by (simp add: sched_inv_def)
  then show ?thesis
    using fin by (rule dispatch_inv)
qed

lemma occupy_inv: "core_inv n s \<Longrightarrow> occupy k t e c s = rok (j, s') \<Longrightarrow> sched_inv n s' \<and> j < n"
  using core_inv_lengths [of n s]
  by (auto simp: occupy_def sched_inv_def step_rok Let_def split: option.splits)

lemma get_core_inv:
  assumes "sched_inv n s" and "get_core i clock e c s = rok (j, s')"
  shows "sched_inv n s' \<and> j < n"
proof -
  obtain t0 t1 t2 where clock: "clock = (t0, t1, t2)"
    by (cases clock)
  have "\<not> e < GATE"
    by (simp add: GATE_def)
  then show ?thesis
    using assms occupy_inv [of n s] occupy_inv [of n "s\<lparr>mu := Some i\<rparr>"]
    by (auto simp: get_core_def clock Let_def step_rok sched_inv_def split: if_splits prod.splits)
qed

lemma wf_refs_put:
  assumes "wf_refs s" and "\<forall>w. wf_map s w \<noteq> None \<longrightarrow> m w \<noteq> None" and "m func \<noteq> None"
  shows "wf_refs (s\<lparr>wf_map := m, req_wf_map := (req_wf_map s)(r \<mapsto> Some func)\<rparr>)"
  unfolding wf_refs_def
proof (intro allI impI)
  fix q p
  assume q: "req_wf_map (s\<lparr>wf_map := m, req_wf_map := (req_wf_map s)(r \<mapsto> Some func)\<rparr>) q = Some p"
  show "\<exists>w. p = Some w \<and> wf_map (s\<lparr>wf_map := m, req_wf_map := (req_wf_map s)(r \<mapsto> Some func)\<rparr>) w \<noteq> None"
  proof (cases "q = r")
    case True
    then show ?thesis
      using q assms(3) by auto
  next
    case False
    then have "req_wf_map s q = Some p"
      using q by simp
    then obtain w where "p = Some w" "wf_map s w \<noteq> None"
      using assms(1) unfolding wf_refs_def by blast
    then show ?thesis
      using assms(2) by auto
  qed
qed

lemma note_workflow_eq:
  "note_workflow req_id call_id service func s = (if req_id = call_id
     then s\<lparr>wf_map := (if wf_map s func = None
              then (wf_map s)(func \<mapsto> new_wf_states\<lparr>w_fuse := fused_service service\<rparr>) else wf_map s),
            req_wf_map := (req_wf_map s)(req_id \<mapsto> Some func)\<rparr>
     else s)"
  by (simp add: note_workflow_def Let_def)

lemma note_workflow_inv:
  assumes "sched_inv n s"
  shows "sched_inv n (note_workflow req_id call_id service func s)"
proof -
  let ?m = "if wf_map s func = None
      then (wf_map s)(func \<mapsto> new_wf_states\<lparr>w_fuse := fused_service service\<rparr>) else wf_map s"
  have "wf_refs (s\<lparr>wf_map := ?m, req_wf_map := (req_wf_map s)(req_id \<mapsto> Some func)\<rparr>)"
    by (rule wf_refs_put) (use assms in \<open>auto simp: sched_inv_def core_inv_def\<close>)
  moreover have "stats_ok (s\<lparr>wf_map := ?m, req_wf_map := (req_wf_map s)(req_id \<mapsto> Some func)\<rparr>)"
    using assms by (auto simp: sched_inv_def core_inv_def stats_ok_def)
  ultimately show ?thesis
    using assms by (auto simp: note_workflow_eq sched_inv_def core_inv_def)
qed

lemma schedule_inv:
  assumes "sched_inv n s" and "schedule cpu clock now p call s = rok s'"
  shows "sched_inv n s'"
proof -
  obtain req_id call_id service fn jsargs where call: "call = (req_id, call_id, service, fn, jsargs)"
    by (cases call)
  obtain s1 s2 and ws :: wf_states and f :: func_states and core s3 where
    s1: "ensure_states cpu p (reply_key service call_id) (service @ fn) s = rok s1" and
    s2: "s2 = note_workflow req_id call_id service (service @ fn) s1" and
    pick: "(if w_fuse ws then if req_id = call_id then get_core cpu clock (scast (w_exec ws)) call_id s2 else rok (cpu, s2)
       else get_core cpu clock (scast (f_exec f)) call_id s2) = rok (core, s3)" and
    fin: "(if core \<noteq> cpu then rok (emit (Invoke_run_func core p call) s3) else run_func cpu now p call s3) = rok s'"
    using assms(2) unfolding schedule_def call Let_def prod.case
    by (elim rbind_pair_rokE rbind_rokE) (rule that [unfolded call, OF _ refl])
  have "sched_inv n s1"
    using ensure_states_inv [OF _ s1] assms(1) by (auto simp: sched_inv_def)
  then have inv2: "sched_inv n s2"
    unfolding s2 by (rule note_workflow_inv)
  have "sched_inv n s3"
    using pick inv2 get_core_inv [OF inv2] by (auto split: if_splits)
  then show ?thesis
    using fin run_func_inv [of n s3] by (auto simp: sched_inv_def split: if_splits)
qed

lemma retire_inv: "sched_inv n s \<Longrightarrow> retire cpu now call_id s = rok s' \<Longrightarrow> sched_inv n s'"
  using core_inv_keys
  by (auto simp: retire_def sched_inv_def step_rok Let_def intro!: core_inv_set_shard)

lemma drop_wf_inv: "sched_inv n s \<Longrightarrow> drop_wf cpu r s = rok s' \<Longrightarrow> sched_inv n s'"
  using core_inv_keys
  by (auto simp: drop_wf_def sched_inv_def step_rok Let_def intro!: core_inv_set_shard)

lemma add_wf_sample_count:
  assumes "unat (w_count ws) \<le> 1000"
  shows "unat (w_count (add_wf_sample t ws)) \<le> 1000"
proof -
  have "unat (w + 1) = unat w + 1" if "unat w < 1000" for w :: u32
    using that by (simp add: unat_word_ariths)
  moreover have "unat (w_count ws) < 1000" if "w_count ws \<noteq> 1000"
  proof -
    have "unat (w_count ws) \<noteq> unat (1000 :: u32)"
      using that unfolding word_unat_eq_iff .
    moreover have "unat (1000 :: u32) = 1000"
      by simp
    ultimately show ?thesis
      using assms by linarith
  qed
  ultimately show ?thesis
    by (auto simp: add_wf_sample_def Let_def)
qed


lemma workflow_of_rok:
  "workflow_of r s = rok (w, ws) \<longleftrightarrow> req_wf_map s r = Some (Some w) \<and> wf_map s w = Some ws"
  by (auto simp: workflow_of_def split: option.splits)

lemma core_inv_sample:
  assumes "core_inv n s" and "unat (w_count ws) \<le> 1000"
  shows "core_inv n (s\<lparr>wf_map := (wf_map s)(w \<mapsto> ws)\<rparr>)"
proof -
  have "wf_refs (s\<lparr>wf_map := (wf_map s)(w \<mapsto> ws)\<rparr>)"
    unfolding wf_refs_def
  proof (intro allI impI)
    fix r p
    assume "req_wf_map (s\<lparr>wf_map := (wf_map s)(w \<mapsto> ws)\<rparr>) r = Some p"
    then have "req_wf_map s r = Some p"
      by simp
    then obtain v where "p = Some v" "wf_map s v \<noteq> None"
      using assms(1) unfolding core_inv_def wf_refs_def by blast
    then show "\<exists>v. p = Some v \<and> wf_map (s\<lparr>wf_map := (wf_map s)(w \<mapsto> ws)\<rparr>) v \<noteq> None"
      by auto
  qed
  moreover have "stats_ok (s\<lparr>wf_map := (wf_map s)(w \<mapsto> ws)\<rparr>)"
    using assms by (auto simp: core_inv_def stats_ok_def)
  ultimately show ?thesis
    using assms by (simp add: core_inv_def)
qed

lemma pass_on_inv:
  assumes inv: "sched_inv n s" and r: "pass_on prev cpu now req_id call_id service ret s = rok s'"
  shows "sched_inv n s'"
proof -
  let ?t = "\<lambda>d. now - (case wf_starts d req_id of None \<Rightarrow> 0 | Some t \<Rightarrow> t)"
  obtain w and ws :: wf_states and d s2 where w: "workflow_of req_id s = rok (w, ws)" and d: "shard_at cpu s = rok d"
    and s2: "(if w_fuse ws then drop_wf cpu req_id (set_shard cpu (d\<lparr>wf_starts := (wf_starts d)(req_id := None)\<rparr>)
          (s\<lparr>wf_map := (wf_map s)(w \<mapsto> add_wf_sample (?t d) ws)\<rparr>))
        else rok (set_shard cpu (d\<lparr>wf_starts := (wf_starts d)(req_id := None)\<rparr>)
          (s\<lparr>wf_map := (wf_map s)(w \<mapsto> add_wf_sample (?t d) ws)\<rparr>))) = rok s2"
    and s': "rok (emit (Invoke_reply prev cpu req_id call_id service ret) s2) = rok s'"
    using r unfolding pass_on_def Let_def by (elim rbind_pair_rokE rbind_rokE) (rule that)
  have ws: "wf_map s w = Some ws" "req_wf_map s req_id = Some (Some w)"
    using w by (simp_all add: workflow_of_rok)
  have "unat (w_count ws) \<le> 1000"
    using inv ws(1) by (auto simp: sched_inv_def core_inv_def stats_ok_def)
  then have "core_inv n (s\<lparr>wf_map := (wf_map s)(w \<mapsto> add_wf_sample t ws)\<rparr>)" for t
    using inv add_wf_sample_count [of ws t] core_inv_sample unfolding sched_inv_def by blast
  moreover have "keys_ok (d\<lparr>wf_starts := z\<rparr>)" for z
    using d inv core_inv_keys [of n s cpu] by (simp add: shard_at_rok sched_inv_def)
  moreover have "mu s = None"
    using inv by (simp add: sched_inv_def)
  ultimately have "sched_inv n (set_shard cpu (d\<lparr>wf_starts := z\<rparr>) (s\<lparr>wf_map := (wf_map s)(w \<mapsto> add_wf_sample t ws)\<rparr>))" for z t
    by (auto simp: sched_inv_def intro!: core_inv_set_shard)
  then have "sched_inv n s2"
    using s2 by (cases "w_fuse ws") (simp_all, blast intro: drop_wf_inv, metis)
  then show ?thesis
    using s' by (auto simp: sched_inv_def)
qed

lemma answer_local_inv:
  assumes inv: "sched_inv n s"
    and r: "answer json callback cpu now req_id call_id service ret (Some Local_reply) s = rok s'"
  shows "sched_inv n s'"
proof -
  have e: "sched_inv n (emit e s)" for e
    using inv by (simp add: sched_inv_def)
  obtain rep t where "drop_wf cpu req_id (emit (Set_value cpu (reply_key service call_id) rep) s) = rok t"
      and "dispatch cpu t = rok s'"
    using r unfolding answer_def by (cases "json ret") (auto elim!: rbind_rokE)
  then show ?thesis
    using drop_wf_inv [OF e] dispatch_inv by blast
qed

text \<open>
  What a reply needs of the service runtime, which runs the callback of a call: it keeps the
  invariant.
\<close>

locale callback_runtime =
  fixes n :: nat and callback :: "string \<Rightarrow> string \<Rightarrow> string \<Rightarrow> sys \<Rightarrow> sys res"
  assumes callback_inv: "sched_inv n t \<Longrightarrow> callback call_id service ret t = rok t' \<Longrightarrow> sched_inv n t'"
begin

lemma answer_inv:
  assumes inv: "sched_inv n s"
    and r: "answer json callback cpu now req_id call_id service ret states s = rok s'"
  shows "sched_inv n s'"
proof -
  consider "states = Some Local_reply" | prev where "states = Some (Remote_reply prev)" "prev = cpu"
    | prev where "states = Some (Remote_reply prev)" "prev \<noteq> cpu"
    using r unfolding answer_def by (cases states; cases "the states") auto
  then show ?thesis
  proof cases
    case 1
    then show ?thesis
      using answer_local_inv [OF inv] r by simp
  next
    case 2
    obtain t where "callback call_id service ret s = rok t" and "dispatch cpu t = rok s'"
      using r unfolding answer_def 2 by (auto elim!: rbind_rokE)
    then show ?thesis
      using callback_inv [OF inv] dispatch_inv by blast
  next
    case 3
    then show ?thesis
      using r pass_on_inv [OF inv] unfolding answer_def by auto
  qed
qed

lemma reply_inv:
  assumes inv: "sched_inv n s" and r: "reply json callback cpu now1 now2 req_id call_id service ret s = rok s'"
  shows "sched_inv n s'"
proof -
  let ?key = "reply_key service call_id"
  obtain d s1 where d: "shard_at cpu s = rok d"
    and s1: "retire cpu now1 call_id (set_shard cpu (d\<lparr>req_map := (req_map d)(?key := None)\<rparr>) s) = rok s1"
    and fin: "answer json callback cpu now2 req_id call_id service ret
        (case req_map d ?key of None \<Rightarrow> None | Some p \<Rightarrow> p) s1 = rok s'"
    using r unfolding reply_def Let_def by (elim rbind_rokE) (rule that)
  have "keys_ok d"
    using d core_inv_keys [of n s cpu] inv by (auto simp: shard_at_rok sched_inv_def)
  then have "sched_inv n (set_shard cpu (d\<lparr>req_map := (req_map d)(?key := None)\<rparr>) s)"
    using inv by (auto simp: sched_inv_def intro!: core_inv_set_shard keys_ok_erase)
  then have "sched_inv n s1"
    using retire_inv s1 by blast
  then show ?thesis
    using fin by (rule answer_inv)
qed

end

lemma states_inv:
  assumes "sched_inv n s"
  shows "get_req_states i key s = rok (p, s') \<Longrightarrow> sched_inv n s'"
    and "kind_ok key st \<Longrightarrow> set_req_states i key st s = rok s' \<Longrightarrow> sched_inv n s'"
    and "del_req_states i key s = rok s' \<Longrightarrow> sched_inv n s'"
  using assms core_inv_keys [of n s i]
  by (auto simp: get_req_states_def set_req_states_def del_req_states_def sched_inv_def shard_at_rok
      elim!: rbind_rokE intro!: core_inv_set_shard keys_ok_put keys_ok_null keys_ok_erase split: option.splits)

end
