(* ===== verification/Scheduling.thy ===== *)
theory Scheduling
  imports Scheduler
begin

text \<open>
  What the scheduler does: the core a call gets, that calls return, that a shard with a ready call
  always has one in progress, what a reply does on each branch, the averages of execution times.
\<close>

section \<open>The choice of a core\<close>

abbreviation till :: "sys \<Rightarrow> nat \<Rightarrow> u64" where
  "till s k \<equiv> busy_till (cores s ! k)"

text \<open>\<open>first_least f is k\<close>: \<open>k\<close> is the first of the indices \<open>is\<close> at which \<open>f\<close> is least.\<close>

definition first_least :: "(nat \<Rightarrow> u64) \<Rightarrow> nat list \<Rightarrow> nat \<Rightarrow> bool" where
  "first_least f is k \<longleftrightarrow> k \<in> set is \<and> (\<forall>j \<in> set is. f k \<le> f j) \<and> (\<forall>j \<in> set is. f j = f k \<longrightarrow> k \<le> j)"

lemma scan_cores_none:
  "\<forall>i \<in> set is. least \<le> busy_till (cs ! i) \<Longrightarrow> scan_cores cs is least ix = (least, ix)"
  by (induction cs "is" least ix rule: scan_cores.induct) (auto simp: not_less)

lemma scan_cores_some:
  assumes "i \<in> set is" and "busy_till (cs ! i) < least" and "sorted is"
  shows "\<exists>k. scan_cores cs is least ix = (busy_till (cs ! k), Some k) \<and>
           first_least (\<lambda>j. busy_till (cs ! j)) is k \<and> busy_till (cs ! k) < least"
  using assms
proof (induction cs "is" least ix arbitrary: i rule: scan_cores.induct)
  case (1 cs least ix)
  then show ?case by simp
next
  case (2 cs a as least ix)
  let ?f = "\<lambda>j. busy_till (cs ! j)"
  show ?case
  proof (cases "?f a < least")
    case less: True
    show ?thesis
    proof (cases "\<exists>j \<in> set as. ?f j < ?f a")
      case True
      then obtain j where j: "j \<in> set as" "?f j < ?f a" by blast
      obtain k where k: "scan_cores cs as (?f a) (Some a) = (?f k, Some k)" "first_least ?f as k" "?f k < ?f a"
        using "2.IH"(1) [OF less j] "2.prems"(3) by auto
      then have "first_least ?f (a # as) k"
        by (auto simp: first_least_def)
      then show ?thesis
        using k less by auto
    next
      case False
      then have "scan_cores cs as (?f a) (Some a) = (?f a, Some a)"
        by (intro scan_cores_none) (auto simp: not_less)
      moreover have "first_least ?f (a # as) a"
        using False "2.prems"(3) by (auto simp: first_least_def not_less)
      ultimately show ?thesis
        using less by auto
    qed
  next
    case False
    then have "i \<in> set as" "?f i < least"
      using "2.prems" by auto
    then obtain k where k: "scan_cores cs as least ix = (?f k, Some k)" "first_least ?f as k" "?f k < least"
      using "2.IH"(2) [OF False] "2.prems"(3) by auto
    then have "first_least ?f (a # as) k"
      using False by (auto simp: first_least_def)
    then show ?thesis
      using k False by auto
  qed
qed

text \<open>
  What \<^verbatim>\<open>get_core\<close> means to choose on more than \<open>HW_Q_COUNT\<close> cores: the least busy of the
  cores without a network queue, or, for a short call, a core with a queue that is free before it.
\<close>

definition picked :: "u64 \<Rightarrow> u64 \<Rightarrow> u64 \<Rightarrow> sys \<Rightarrow> nat \<Rightarrow> bool" where
  "picked e t1 t2 s k \<longleftrightarrow> (\<exists>b. first_least (till s) [HW_Q_COUNT..<length (cores s)] b \<and>
     (let limit = (if till s b < t1 then t2 else till s b);
          quick = (e < LONG_FUNC \<and> e \<noteq> - 1 \<and> (\<exists>j < HW_Q_COUNT. till s j < limit))
      in if quick then first_least (till s) [0..<HW_Q_COUNT] k else k = b))"

definition queued :: "nat \<Rightarrow> u64 \<Rightarrow> string \<Rightarrow> u64 \<Rightarrow> sys \<Rightarrow> sys" where
  "queued k t0 call_id e s = unlock (set_core k ((cores s ! k)\<lparr>busy := True,
     queue := queue (cores s ! k) @ [call_id],
     busy_till := max (till s k) t0 + (if e = 0 then 1 else e)\<rparr>) s)"

lemma occupy_queued:
  "k < length (cores s) \<Longrightarrow> occupy (Some k) t0 e c s = rok (k, queued k t0 c e s)"
  by (simp add: occupy_def core_at_def queued_def Let_def)

lemma queued_unlocked: "queued k t0 c e (s\<lparr>mu := m\<rparr>) = queued k t0 c e s"
  by (simp add: queued_def set_core_def unlock_def)

lemma choose_core_picked:
  assumes n: "HW_Q_COUNT < length (cores s)"
    and some: "\<exists>k. HW_Q_COUNT \<le> k \<and> k < length (cores s) \<and> till s k \<noteq> - 1"
  shows "\<exists>k. picked e t1 t2 s k \<and> k < length (cores s) \<and> choose_core (cores s) e t1 t2 = Some k"
proof -
  obtain i where i: "i \<in> set [HW_Q_COUNT..<length (cores s)]" "till s i < - 1"
    using some by (auto simp: word_order.not_eq_extremum)
  obtain b where b: "scan_cores (cores s) [HW_Q_COUNT..<length (cores s)] (- 1) None = (till s b, Some b)"
    "first_least (till s) [HW_Q_COUNT..<length (cores s)] b"
    using scan_cores_some [OF i] by auto
  have b_less: "b < length (cores s)"
    using b(2) by (auto simp: first_least_def)
  define limit where "limit = (if till s b < t1 then t2 else till s b)"
  show ?thesis
  proof (cases "e < LONG_FUNC \<and> e \<noteq> - 1 \<and> (\<exists>j < HW_Q_COUNT. till s j < limit)")
    case True
    then obtain j where j: "j \<in> set [0..<HW_Q_COUNT]" "till s j < limit" by auto
    obtain k where k: "scan_cores (cores s) [0..<HW_Q_COUNT] limit (Some b) = (till s k, Some k)"
      "first_least (till s) [0..<HW_Q_COUNT] k"
      using scan_cores_some [OF j] by auto
    have "picked e t1 t2 s k"
      using b(2) k(2) True unfolding picked_def Let_def limit_def by metis
    moreover have "k < length (cores s)"
      using k(2) n by (auto simp: first_least_def)
    moreover have "choose_core (cores s) e t1 t2 = Some k"
      using b(1) k(1) True by (simp add: choose_core_def limit_def)
    ultimately show ?thesis
      by blast
  next
    case False
    then have p: "picked e t1 t2 s b"
      using b(2) unfolding picked_def Let_def limit_def by metis
    have "e < LONG_FUNC \<and> e \<noteq> - 1 \<Longrightarrow> \<forall>j \<in> set [0..<HW_Q_COUNT]. limit \<le> till s j"
      using False unfolding set_upt by (meson atLeastLessThan_iff not_less)
    then have "choose_core (cores s) e t1 t2 = Some b"
      using b(1) scan_cores_none [of "[0..<HW_Q_COUNT]" limit "cores s" "Some b"]
      by (simp add: choose_core_def limit_def)
    then show ?thesis
      using p b_less by blast
  qed
qed

lemma get_core_picks_core:
  assumes inv: "sched_inv n s" and i: "i < n" and n: "HW_Q_COUNT < n"
    and some: "\<exists>k. HW_Q_COUNT \<le> k \<and> k < n \<and> till s k \<noteq> - 1"
  shows "\<exists>k. get_core i (t0, t1, t2) e c s = rok (k, queued k t0 c e s) \<and> k < n \<and> picked e t1 t2 s k"
proof -
  have len: "length (cores s) = n" and mu: "mu s = None"
    using inv by (auto simp: sched_inv_def core_inv_def)
  obtain k where k: "picked e t1 t2 s k" "k < n" "choose_core (cores s) e t1 t2 = Some k"
    using choose_core_picked [of s] n some unfolding len by blast
  have "lock i s = rok (s\<lparr>mu := Some i\<rparr>)" and "\<not> e < GATE"
    using mu by (simp_all add: lock_def GATE_def)
  then have "get_core i (t0, t1, t2) e c s = occupy (Some k) t0 e c (s\<lparr>mu := Some i\<rparr>)"
    using i n k(3) by (simp add: get_core_def len core_at_def Let_def)
  then show ?thesis
    using k(1,2) occupy_queued [of k "s\<lparr>mu := Some i\<rparr>" t0 e c] by (auto simp: len queued_unlocked)
qed


text \<open>A core that is picked for a call of unknown length.\<close>

lemma first_least_unique:
  assumes j: "first_least f is j" and k: "first_least f is k"
  shows "j = k"
proof -
  have "f j = f k"
    using j k unfolding first_least_def by (metis order_antisym)
  then show ?thesis
    using j k unfolding first_least_def by (metis order_antisym)
qed

lemma first_leastI:
  assumes "k \<in> set is" and "\<And>j. j \<in> set is \<Longrightarrow> j \<noteq> k \<Longrightarrow> f k < f j"
  shows "first_least f is k"
  unfolding first_least_def
proof (intro conjI ballI impI)
  fix j assume j: "j \<in> set is"
  show "f k \<le> f j"
    using assms(2) [OF j] by (cases "j = k") auto
  assume "f j = f k"
  then show "k \<le> j"
    using assms(2) [OF j] by (cases "j = k") auto
qed (rule assms(1))

lemma picked_unknown: "picked (- 1) t1 t2 s k \<longleftrightarrow> first_least (till s) [HW_Q_COUNT..<length (cores s)] k"
  by (auto simp: picked_def Let_def)

lemma less_one_lower:
  assumes "(w :: u64) \<noteq> 0"
  shows "w + - 1 < w"
  using measure_unat [OF assms] by (simp add: word_less_nat_alt)

lemma queued_till:
  assumes "k < length (cores s)"
  shows "till (queued k t0 c e s) j = (if j = k then max (till s k) t0 + (if e = 0 then 1 else e) else till s j)"
  using assms by (simp add: queued_def nth_list_update)

lemma unknown_stays_least:
  assumes k: "first_least (till s) [HW_Q_COUNT..<length (cores s)] k" and busy: "t0 \<le> till s k" "till s k \<noteq> 0"
  shows "first_least (till (queued k t0 c (- 1) s)) [HW_Q_COUNT..<length (cores s)] k"
proof -
  have less: "k < length (cores s)"
    using k by (auto simp: first_least_def)
  have "max (till s k) t0 = till s k"
    using busy(1) by (simp add: max_def)
  then have k': "till (queued k t0 c (- 1) s) k = till s k + - 1"
    using queued_till [OF less, of t0 c "- 1" k] by simp
  then have lt: "till (queued k t0 c (- 1) s) k < till s k"
    using less_one_lower [OF busy(2)] by simp
  have oth: "j \<noteq> k \<Longrightarrow> till (queued k t0 c (- 1) s) j = till s j" for j
    using queued_till [OF less, of t0 c "- 1" j] by simp
  show ?thesis
  proof (rule first_leastI)
    show "k \<in> set [HW_Q_COUNT..<length (cores s)]"
      using k by (simp add: first_least_def)
    fix j assume "j \<in> set [HW_Q_COUNT..<length (cores s)]" and j: "j \<noteq> k"
    then have "till s k \<le> till s j"
      using k unfolding first_least_def by blast
    with lt have "till (queued k t0 c (- 1) s) k < till s j"
      by (rule order_less_le_trans)
    then show "till (queued k t0 c (- 1) s) k < till (queued k t0 c (- 1) s) j"
      by (simp only: oth [OF j])
  qed
qed

section \<open>Calls return\<close>

lemma get_core_returns:
  assumes inv: "sched_inv n s" and i: "i < n"
    and some: "HW_Q_COUNT < n \<longrightarrow> (\<exists>k. HW_Q_COUNT \<le> k \<and> k < n \<and> till s k \<noteq> - 1)"
  shows "\<exists>k s'. get_core i clock e c s = rok (k, s')"
proof (cases "HW_Q_COUNT < n")
  case True
  then show ?thesis
    using get_core_picks_core [OF inv i True] some by (cases clock) blast
next
  case False
  then show ?thesis
    using inv i occupy_queued [of i s] by (cases clock) (auto simp: get_core_def sched_inv_def core_inv_def)
qed

lemma dispatch_returns: "sched_inv n s \<Longrightarrow> i < n \<Longrightarrow> \<exists>s'. dispatch i s = rok s'"
  by (auto simp: dispatch_def core_at_def shard_at_def lock_def rok_def [symmetric] sched_inv_def
      core_inv_def split: list.splits)

lemma ensure_states_returns: "i < length (shards s) \<Longrightarrow> \<exists>s'. ensure_states i p k f s = rok s'"
  by (simp add: ensure_states_def shard_at_def Let_def)

lemma ensure_states_same:
  assumes "ensure_states i p k f s = rok s'"
  shows "wf_map s' = wf_map s" and "req_wf_map s' = req_wf_map s" and "cores s' = cores s"
  using assms by (auto simp: ensure_states_def Let_def step_rok)

lemma core_states_lengths: "sched_inv n s \<Longrightarrow> length (cores s) = n \<and> length (shards s) = n \<and> mu s = None"
  by (simp add: sched_inv_def core_inv_def)

lemma place_task_returns: "i < length (cores s) \<Longrightarrow> \<exists>s'. place_task i call fuse d s = rok s'"
  by (cases call) (simp add: place_task_def core_at_def Let_def)

lemma workflow_known:
  assumes "wf_refs s" and "req_wf_map s r \<noteq> None"
  shows "\<exists>w ws. workflow_of r s = rok (w, ws)"
proof -
  obtain p where p: "req_wf_map s r = Some p"
    using assms(2) by auto
  then obtain w where "p = Some w" "wf_map s w \<noteq> None"
    using assms(1) unfolding wf_refs_def by blast
  then show ?thesis
    using p by (auto simp: workflow_of_def)
qed

lemma run_func_returns:
  assumes inv: "sched_inv n s" and i: "i < n" and known: "req_wf_map s req_id \<noteq> None"
  shows "\<exists>s'. run_func i now p (req_id, call_id, service, fn, jsargs) s = rok s'"
proof -
  let ?call = "(req_id, call_id, service, fn, jsargs)"
  have len: "length (cores s) = n" "length (shards s) = n" "mu s = None"
    using core_states_lengths [OF inv] by auto
  obtain s1 where s1: "ensure_states i p (reply_key service call_id) (service @ fn) s = rok s1"
    using ensure_states_returns [of i s] i len by metis
  note inv1 = ensure_states_inv [OF _ s1, of n]
  have core1: "core_inv n s1" and mu1: "mu s1 = None"
    using inv1 inv by (auto simp: sched_inv_def)
  have len1: "length (cores s1) = n" "length (shards s1) = n"
    using core1 by (simp_all add: core_inv_def)
  define d where "d = (if req_id = call_id then (shards s1 ! i)\<lparr>wf_starts := (wf_starts (shards s1 ! i))(req_id \<mapsto> now)\<rparr>
      else shards s1 ! i)"
  define s2 where "s2 = (set_shard i d s1)\<lparr>mu := Some i\<rparr>"
  have keys: "keys_ok d"
    using core_inv_keys [OF core1, of i] len1 i by (simp add: d_def)
  have core2: "core_inv n s2"
    unfolding s2_def using core_inv_set_shard [OF core1 keys] by simp
  have "req_wf_map s2 req_id \<noteq> None"
    using known ensure_states_same [OF s1] by (simp add: s2_def)
  then obtain w ws where w: "workflow_of req_id s2 = rok (w, ws)"
    using workflow_known core2 unfolding core_inv_def by metis
  have len2: "length (cores s2) = n"
    using core2 by (simp add: core_inv_def)
  obtain s3 where s3: "place_task i ?call (w_fuse ws) d s2 = rok s3"
    using place_task_returns [of i s2 ?call "w_fuse ws" d] i len2 by blast
  have "sched_inv n (unlock s3)"
    using place_task_inv [OF core2 keys s3] by (simp add: sched_inv_def)
  then obtain s4 where s4: "dispatch i (unlock s3) = rok s4"
    using dispatch_returns i by blast
  have "shard_at i s1 = rok (shards s1 ! i)" and "lock i (set_shard i d s1) = rok s2"
    using i len1 mu1 by (simp_all add: shard_at_def lock_def s2_def)
  then show ?thesis
    using s1 w s3 s4 by (simp add: run_func_def Let_def d_def [symmetric])
qed

lemma note_workflow_known:
  "(req_id = call_id \<or> req_wf_map s req_id \<noteq> None) \<Longrightarrow>
     req_wf_map (note_workflow req_id call_id service func s) req_id \<noteq> None"
  by (auto simp: note_workflow_eq)

lemma get_core_same:
  assumes "get_core i clock e c s = rok (k, s')"
  shows "req_wf_map s' = req_wf_map s" "wf_map s' = wf_map s" "shards s' = shards s" "func_map s' = func_map s"
proof -
  obtain t0 t1 t2 where clock: "clock = (t0, t1, t2)"
    by (cases clock)
  have occ: "occupy ix t e c u = rok (k, s') \<Longrightarrow> req_wf_map s' = req_wf_map u \<and> wf_map s' = wf_map u \<and>
      shards s' = shards u \<and> func_map s' = func_map u" for ix t u
    by (auto simp: occupy_def step_rok Let_def split: option.splits)
  have "\<not> e < GATE"
    by (simp add: GATE_def)
  then have "req_wf_map s' = req_wf_map s \<and> wf_map s' = wf_map s \<and> shards s' = shards s \<and> func_map s' = func_map s"
    using assms occ [of "Some i" t0 s] occ [of _ t0 "s\<lparr>mu := Some i\<rparr>"] unfolding get_core_def clock
    by (auto simp: step_rok Let_def split: if_splits)
  then show "req_wf_map s' = req_wf_map s" "wf_map s' = wf_map s" "shards s' = shards s" "func_map s' = func_map s"
    by simp_all
qed

lemma schedule_returns:
  assumes inv: "sched_inv n s" and i: "cpu < n"
    and some: "HW_Q_COUNT < n \<longrightarrow> (\<exists>k. HW_Q_COUNT \<le> k \<and> k < n \<and> till s k \<noteq> - 1)"
    and known: "req_id = call_id \<or> req_wf_map s req_id \<noteq> None"
  shows "\<exists>s'. schedule cpu clock now p (req_id, call_id, service, fn, jsargs) s = rok s' \<and> sched_inv n s'"
proof -
  let ?call = "(req_id, call_id, service, fn, jsargs)" and ?func = "service @ fn"
  obtain s1 where s1: "ensure_states cpu p (reply_key service call_id) ?func s = rok s1"
    using ensure_states_returns [of cpu s] i core_states_lengths [OF inv] by metis
  note same1 = ensure_states_same [OF s1]
  have inv1: "sched_inv n s1" and f1: "func_map s1 ?func \<noteq> None"
    using ensure_states_inv [OF _ s1, of n] inv by (auto simp: sched_inv_def)
  define s2 where "s2 = note_workflow req_id call_id service ?func s1"
  have inv2: "sched_inv n s2"
    unfolding s2_def by (rule note_workflow_inv [OF inv1])
  have same2: "cores s2 = cores s" "func_map s2 = func_map s1"
    using same1 by (simp_all add: s2_def note_workflow_eq)
  have known2: "req_wf_map s2 req_id \<noteq> None"
    unfolding s2_def by (rule note_workflow_known) (use known same1 in auto)
  obtain w ws where w: "workflow_of req_id s2 = rok (w, ws)"
    using workflow_known [of s2] known2 inv2 unfolding sched_inv_def core_inv_def by blast
  obtain f where f: "func_map s2 ?func = Some f"
    using f1 same2 by auto
  have g: "\<exists>k s'. get_core cpu clock e call_id s2 = rok (k, s')" for e
    by (rule get_core_returns [OF inv2 i]) (use some same2 in auto)
  obtain k s3 where s3: "(if w_fuse ws
         then (if req_id = call_id then get_core cpu clock (scast (w_exec ws)) call_id s2 else rok (cpu, s2))
         else get_core cpu clock (scast (f_exec f)) call_id s2) = rok (k, s3)"
    using g [of "scast (w_exec ws)"] g [of "scast (f_exec f)"] by (cases "w_fuse ws"; cases "req_id = call_id") auto
  have inv3: "sched_inv n s3" and known3: "req_wf_map s3 req_id \<noteq> None"
    using s3 inv2 get_core_inv [OF inv2] get_core_same(1) known2 by (auto split: if_splits)
  obtain s4 where fin: "(if k \<noteq> cpu then rok (emit (Invoke_run_func k p ?call) s3) else run_func cpu now p ?call s3) = rok s4"
    using run_func_returns [OF inv3 i known3, of now p call_id service fn jsargs] by (cases "k = cpu") auto
  have s4: "schedule cpu clock now p ?call s = rok s4"
    unfolding schedule_def Let_def prod.case s1 rbind_simps s2_def [symmetric] w f option.case s3 by (rule fin)
  with schedule_inv [OF inv s4] show ?thesis
    by blast
qed


section \<open>Work is not lost: a ready task runs while its shard has none running\<close>

text \<open>
  \<open>live i s\<close>: when the call at the head of the queue of core \<open>i\<close> has arrived and no fused workflow
  runs, a call of the shard is in progress, whose reply will dispatch again. \<open>tasks_known\<close>: the calls
  that wait are in \<^verbatim>\<open>curr_req\<close>.
\<close>

definition live :: "nat \<Rightarrow> sys \<Rightarrow> bool" where
  "live i s \<longleftrightarrow> (\<forall>h q. queue (cores s ! i) = h # q \<and> task_map (cores s ! i) h \<noteq> None \<and> curr_wf (shards s ! i) = {}
     \<longrightarrow> (\<exists>c \<in> curr_req (shards s ! i). task_map (cores s ! i) c = None))"

definition tasks_known :: "nat \<Rightarrow> sys \<Rightarrow> bool" where
  "tasks_known i s \<longleftrightarrow> dom (task_map (cores s ! i)) \<subseteq> curr_req (shards s ! i)"

lemma dispatch_rok:
  "dispatch i s = rok s' \<longleftrightarrow> i < length (cores s) \<and> i < length (shards s) \<and>
     (case queue (cores s ! i) of
        [] \<Rightarrow> s' = s
      | h # q \<Rightarrow> mu s = None \<and> s' = (case task_map (cores s ! i) h of
            Some t \<Rightarrow> if curr_wf (shards s ! i) = {}
              then set_core i ((cores s ! i)\<lparr>queue := q, task_map := (task_map (cores s ! i))(h := None)\<rparr>) (emit (Add_task i t) s)
              else s
          | None \<Rightarrow> s))"
  by (auto simp: dispatch_def step_rok unlock_def set_core_def emit_def split: list.splits option.splits if_splits)

lemma dispatch_live:
  assumes "dispatch i s = rok s'" and "tasks_known i s"
  shows "live i s' \<and> tasks_known i s'"
proof (cases "queue (cores s ! i)")
  case Nil
  then show ?thesis
    using assms by (simp add: dispatch_rok live_def)
next
  case (Cons h q)
  have i: "i < length (cores s)"
    using assms(1) by (simp add: dispatch_rok)
  show ?thesis
  proof (cases "curr_wf (shards s ! i) = {} \<and> task_map (cores s ! i) h \<noteq> None")
    case True
    then obtain t where t: "task_map (cores s ! i) h = Some t"
      by auto
    have s': "s' = set_core i ((cores s ! i)\<lparr>queue := q, task_map := (task_map (cores s ! i))(h := None)\<rparr>) (emit (Add_task i t) s)"
      using assms(1) Cons True t by (simp add: dispatch_rok)
    have "h \<in> curr_req (shards s ! i)"
      using assms(2) t by (auto simp: tasks_known_def)
    moreover have "task_map (cores s' ! i) h = None"
      using i by (simp add: s')
    ultimately have "live i s'"
      by (auto simp: live_def s')
    moreover have "tasks_known i s'"
      using assms(2) i by (auto simp: tasks_known_def s')
    ultimately show ?thesis
      by simp
  next
    case False
    then have "s' = s"
      using assms(1) Cons by (auto simp: dispatch_rok split: option.splits if_splits)
    then show ?thesis
      using False Cons assms(2) by (auto simp: live_def)
  qed
qed

lemma unlock_locked: "mu s = None \<Longrightarrow> unlock (set_core i c (set_shard i d (s\<lparr>mu := m\<rparr>))) = set_core i c (set_shard i d s)"
  "mu s = None \<Longrightarrow> unlock (set_shard i d (s\<lparr>mu := m\<rparr>)) = set_shard i d s"
  by (cases s; simp add: unlock_def set_core_def set_shard_def)+

definition freed :: "u64 \<Rightarrow> string \<Rightarrow> shard \<Rightarrow> core_states \<Rightarrow> core_states" where
  "freed now call_id d c = (let c = c\<lparr>queue := remove1 call_id (queue c)\<rparr> in
     if curr_req d - {call_id} = {} then c\<lparr>busy := False, busy_till := now\<rparr> else c)"

lemma task_map_freed [simp]: "task_map (freed now c d k) = task_map k"
  by (simp add: freed_def Let_def)

lemma retire_eq:
  assumes "mu s = None" and "cpu < length (cores s)" and "cpu < length (shards s)"
  shows "retire cpu now call_id s = rok (set_core cpu (freed now call_id (shards s ! cpu) (cores s ! cpu))
     (set_shard cpu ((shards s ! cpu)\<lparr>curr_req := curr_req (shards s ! cpu) - {call_id}\<rparr>) s))"
  using assms by (simp add: retire_def lock_def rok_def [symmetric] core_at_def shard_at_def Let_def unlock_locked freed_def)

lemma drop_wf_eq:
  assumes "mu s = None" and "cpu < length (shards s)"
  shows "drop_wf cpu req_id s = rok (set_shard cpu ((shards s ! cpu)\<lparr>curr_wf := curr_wf (shards s ! cpu) - {req_id}\<rparr>) s)"
  using assms by (simp add: drop_wf_def lock_def rok_def [symmetric] shard_at_def unlock_locked)

text \<open>The state after the first part of \<^verbatim>\<open>reply\<close>: the reply state is gone and the core is freed.\<close>

definition closed :: "nat \<Rightarrow> u64 \<Rightarrow> string \<Rightarrow> string \<Rightarrow> sys \<Rightarrow> sys" where
  "closed cpu now key call_id s = (let d = shards s ! cpu in
     set_core cpu (freed now call_id d (cores s ! cpu))
       (set_shard cpu (d\<lparr>req_map := (req_map d)(key := None), curr_req := curr_req d - {call_id}\<rparr>) s))"

lemma set_shard_twice [simp]: "set_shard i d (set_shard i d' s) = set_shard i d s"
  by (simp add: set_shard_def)

lemma freed_req_map [simp]: "freed now c (d\<lparr>req_map := m\<rparr>) k = freed now c d k"
  by (simp add: freed_def)

lemma reply_eq:
  assumes inv: "sched_inv n s" and i: "cpu < n"
  shows "reply json callback cpu now1 now2 req_id call_id service ret s =
    answer json callback cpu now2 req_id call_id service ret
      (case req_map (shards s ! cpu) (reply_key service call_id) of None \<Rightarrow> None | Some p \<Rightarrow> p)
      (closed cpu now1 (reply_key service call_id) call_id s)"
proof -
  let ?d = "shards s ! cpu" and ?key = "reply_key service call_id"
  have len: "cpu < length (cores s)" "cpu < length (shards s)" "mu s = None"
    using core_states_lengths [OF inv] i by auto
  have "retire cpu now1 call_id (set_shard cpu (?d\<lparr>req_map := (req_map ?d)(?key := None)\<rparr>) s) =
      rok (closed cpu now1 ?key call_id s)"
    using len by (subst retire_eq) (simp_all add: closed_def Let_def)
  then show ?thesis
    using len by (simp add: reply_def shard_at_def Let_def)
qed

lemma closed_inv: "sched_inv n s \<Longrightarrow> cpu < n \<Longrightarrow> sched_inv n (closed cpu now key call_id s)"
proof -
  assume inv: "sched_inv n s" and i: "cpu < n"
  let ?d = "shards s ! cpu"
  have "keys_ok ?d"
    using core_inv_keys [of n s cpu] inv i by (auto simp: sched_inv_def core_inv_def)
  then have "keys_ok (?d\<lparr>req_map := (req_map ?d)(key := None)\<rparr>)"
    by (rule keys_ok_erase)
  then have "keys_ok (?d\<lparr>req_map := (req_map ?d)(key := None), curr_req := curr_req ?d - {call_id}\<rparr>)"
    by simp
  then show ?thesis
    using inv by (auto simp: closed_def Let_def sched_inv_def intro: core_inv_set_shard)
qed

lemma closed_tasks_known:
  "tasks_known cpu s \<Longrightarrow> task_map (cores s ! cpu) call_id = None \<Longrightarrow> cpu < length (cores s) \<Longrightarrow> cpu < length (shards s) \<Longrightarrow>
     tasks_known cpu (closed cpu now key call_id s)"
  by (auto simp: tasks_known_def closed_def Let_def)

section \<open>Replies\<close>

lemma reply_unknown:
  assumes "sched_inv n s" and "cpu < n" and "req_map (shards s ! cpu) (reply_key service call_id) = None"
  shows "reply json callback cpu now1 now2 req_id call_id service ret s = rfail Null_deref"
  using assms by (simp add: reply_eq answer_def)

lemma dispatch_shards: "dispatch i s = rok s' \<Longrightarrow> shards s' = shards s"
  by (auto simp: dispatch_rok split: list.splits option.splits if_splits)

lemma dispatch_sent: "dispatch i s = rok s' \<Longrightarrow> \<exists>es. sent s' = sent s @ es"
  by (auto simp: dispatch_rok split: list.splits option.splits if_splits)

lemma reply_local:
  assumes inv: "sched_inv n s" and i: "cpu < n"
    and st: "req_map (shards s ! cpu) (reply_key service call_id) = Some (Some Local_reply)"
    and json: "json ret = Inr rep"
  shows "\<exists>s'. reply json callback cpu now1 now2 req_id call_id service ret s = rok s' \<and>
    (\<exists>es. sent s' = sent s @ Set_value cpu (reply_key service call_id) rep # es) \<and>
    shards s' = (shards s)[cpu := (shards s ! cpu)\<lparr>
       req_map := (req_map (shards s ! cpu))(reply_key service call_id := None),
       curr_req := curr_req (shards s ! cpu) - {call_id},
       curr_wf := curr_wf (shards s ! cpu) - {req_id}\<rparr>] \<and>
    (tasks_known cpu s \<and> task_map (cores s ! cpu) call_id = None \<longrightarrow> live cpu s')"
proof -
  let ?key = "reply_key service call_id" and ?c = "closed cpu now1 (reply_key service call_id) call_id s"
  have len: "cpu < length (cores s)" "cpu < length (shards s)" "mu s = None"
    using core_states_lengths [OF inv] i by auto
  define s1 where "s1 = emit (Set_value cpu ?key rep) ?c"
  have inv1: "sched_inv n s1"
    using closed_inv [OF inv i] by (simp add: s1_def sched_inv_def)
  define s2 where "s2 = set_shard cpu ((shards s1 ! cpu)\<lparr>curr_wf := curr_wf (shards s1 ! cpu) - {req_id}\<rparr>) s1"
  have s2: "drop_wf cpu req_id s1 = rok s2"
    unfolding s2_def by (rule drop_wf_eq) (use core_states_lengths [OF inv1] i in auto)
  obtain s3 where s3: "dispatch cpu s2 = rok s3"
    using dispatch_returns [OF drop_wf_inv [OF inv1 s2] i] by blast
  have r: "reply json callback cpu now1 now2 req_id call_id service ret s = rok s3"
    using inv i st json s2 s3 by (simp add: reply_eq answer_def s1_def)
  have sh: "shards s2 = (shards s)[cpu := (shards s ! cpu)\<lparr>
       req_map := (req_map (shards s ! cpu))(?key := None),
       curr_req := curr_req (shards s ! cpu) - {call_id},
       curr_wf := curr_wf (shards s ! cpu) - {req_id}\<rparr>]"
    using len by (simp add: s2_def s1_def closed_def Let_def)
  have "sent s2 = sent s @ [Set_value cpu ?key rep]"
    by (simp add: s2_def s1_def closed_def Let_def)
  then have ev: "\<exists>es. sent s3 = sent s @ Set_value cpu ?key rep # es"
    using dispatch_sent [OF s3] by auto
  have "tasks_known cpu s2" if "tasks_known cpu s" "task_map (cores s ! cpu) call_id = None"
    using closed_tasks_known [OF that len(1,2), of now1 ?key] len
    by (simp add: tasks_known_def s2_def s1_def closed_def Let_def)
  then have "tasks_known cpu s \<and> task_map (cores s ! cpu) call_id = None \<longrightarrow> live cpu s3"
    using dispatch_live [OF s3] by blast
  then show ?thesis
    using r ev sh dispatch_shards [OF s3] by metis
qed

lemma pass_on_eq:
  assumes "workflow_of req_id s = rok (w, ws)" and "cpu < length (shards s)" and "mu s = None"
  shows "pass_on prev cpu now req_id call_id service ret s = rok (emit (Invoke_reply prev cpu req_id call_id service ret)
     (set_shard cpu (let d = shards s ! cpu in d\<lparr>wf_starts := (wf_starts d)(req_id := None),
          curr_wf := (if w_fuse ws then curr_wf d - {req_id} else curr_wf d)\<rparr>)
       (s\<lparr>wf_map := (wf_map s)(w \<mapsto> add_wf_sample (now - (case wf_starts (shards s ! cpu) req_id of None \<Rightarrow> 0 | Some t \<Rightarrow> t)) ws)\<rparr>)))"
proof -
  let ?d = "shards s ! cpu"
  let ?s = "set_shard cpu (?d\<lparr>wf_starts := (wf_starts ?d)(req_id := None)\<rparr>)
    (s\<lparr>wf_map := (wf_map s)(w \<mapsto> add_wf_sample (now - (case wf_starts ?d req_id of None \<Rightarrow> 0 | Some t \<Rightarrow> t)) ws)\<rparr>)"
  have "drop_wf cpu req_id ?s = rok (set_shard cpu ((shards ?s ! cpu)\<lparr>curr_wf := curr_wf (shards ?s ! cpu) - {req_id}\<rparr>) ?s)"
    by (rule drop_wf_eq) (use assms in auto)
  then show ?thesis
    using assms by (simp add: pass_on_def shard_at_def Let_def)
qed

lemma reply_remote:
  assumes inv: "sched_inv n s" and i: "cpu < n"
    and st: "req_map (shards s ! cpu) (reply_key service call_id) = Some (Some (Remote_reply prev))" and prev: "prev \<noteq> cpu"
    and w: "req_wf_map s req_id = Some (Some w)" "wf_map s w = Some ws"
  shows "\<exists>s'. reply json callback cpu now1 now2 req_id call_id service ret s = rok s' \<and>
    sent s' = sent s @ [Invoke_reply prev cpu req_id call_id service ret] \<and>
    wf_map s' = (wf_map s)(w \<mapsto> add_wf_sample
       (now2 - (case wf_starts (shards s ! cpu) req_id of None \<Rightarrow> 0 | Some t \<Rightarrow> t)) ws) \<and>
    shards s' = (shards s)[cpu := (shards s ! cpu)\<lparr>
       req_map := (req_map (shards s ! cpu))(reply_key service call_id := None),
       curr_req := curr_req (shards s ! cpu) - {call_id},
       wf_starts := (wf_starts (shards s ! cpu))(req_id := None),
       curr_wf := (if w_fuse ws then curr_wf (shards s ! cpu) - {req_id} else curr_wf (shards s ! cpu))\<rparr>]"
proof -
  let ?key = "reply_key service call_id"
  have len: "cpu < length (cores s)" "cpu < length (shards s)" "mu s = None"
    using core_states_lengths [OF inv] i by auto
  define c where "c = closed cpu now1 ?key call_id s"
  have inv1: "sched_inv n c"
    unfolding c_def by (rule closed_inv [OF inv i])
  have wf: "workflow_of req_id c = rok (w, ws)"
    using w by (simp add: workflow_of_def c_def closed_def Let_def)
  have r: "reply json callback cpu now1 now2 req_id call_id service ret s =
      pass_on prev cpu now2 req_id call_id service ret c"
    using inv i st prev by (simp add: reply_eq answer_def c_def)
  show ?thesis
    unfolding r using core_states_lengths [OF inv1] i len
    by (subst pass_on_eq [OF wf]) (auto simp: c_def closed_def Let_def)
qed

section \<open>Averages\<close>

text \<open>The samples that count: those since the last reset, at most \<open>m\<close>.\<close>

definition window :: "nat \<Rightarrow> u64 list \<Rightarrow> u64 list" where
  "window m ts = (if ts = [] then [] else drop ((length ts - 1) div m * m) ts)"

lemma window_snoc:
  assumes "0 < m"
  shows "window m (ts @ [t]) = (if length (window m ts) = m then [t] else window m ts @ [t])"
proof (cases "ts = []")
  case True
  then show ?thesis
    using assms by (simp add: window_def)
next
  case False
  define q r where "q = (length ts - 1) div m" and "r = (length ts - 1) mod m"
  have l: "length ts = q * m + r + 1"
    using False div_mult_mod_eq [of "length ts - 1" m] by (simp add: q_def r_def)
  have r: "r < m"
    using assms by (simp add: r_def)
  then have "(q * m + r) div m = q"
    by simp
  then have w: "window m ts = drop (q * m) ts" "length (window m ts) = r + 1"
    using False l r by (simp_all add: window_def)
  show ?thesis
  proof (cases "r + 1 = m")
    case True
    then have "length ts = (q + 1) * m"
      using l by simp
    then show ?thesis
      using w True assms by (simp add: window_def)
  next
    case False
    then have "(r + 1) div m = 0" and "m \<noteq> 0"
      using r by auto
    then have "Suc (q * m + r) div m = q"
      using div_mult_self3 [of m q "r + 1"] by simp
    then show ?thesis
      using l w False assms by (simp add: window_def)
  qed
qed

lemma length_window: "0 < m \<Longrightarrow> length (window m ts) \<le> m"
  by (induction ts rule: rev_induct) (auto simp: window_snoc, simp add: window_def)

lemma of_nat_1000: "n \<le> 1000 \<Longrightarrow> (of_nat n = (1000 :: u32)) = (n = 1000)"
proof -
  assume n: "n \<le> 1000"
  have "unat (of_nat n :: u32) = n"
    using n by (simp add: unat_of_nat)
  then show ?thesis
    by (simp add: word_unat_eq_iff)
qed

lemma wf_samples:
  "fold add_wf_sample ts (ws\<lparr>w_count := 0, w_total := 0\<rparr>) =
     (if ts = [] then ws\<lparr>w_count := 0, w_total := 0\<rparr>
      else ws\<lparr>w_count := of_nat (length (window 1000 ts)), w_total := sum_list (window 1000 ts),
              w_exec := ucast (sum_list (window 1000 ts) div of_nat (length (window 1000 ts)))\<rparr>)"
proof (induction ts rule: rev_induct)
  case Nil
  then show ?case by simp
next
  case (snoc t ts)
  have cast: "ucast (of_nat k :: u32) = (of_nat k :: u64)" if "k \<le> 1000" for k
    using that by (simp add: unsigned_of_nat take_bit_nat_eq_self)
  have len: "length (window 1000 ts) \<le> 1000"
    by (simp add: length_window)
  show ?case
  proof (cases "ts = []")
    case True
    then show ?thesis
      by (simp add: add_wf_sample_def window_def Let_def)
  next
    case False
    show ?thesis
    proof (cases "length (window 1000 ts) = 1000")
      case True
      then show ?thesis
        using snoc False by (simp add: add_wf_sample_def window_snoc)
    next
      case short: False
      have "ucast (of_nat (length (window 1000 ts)) + 1 :: u32) = (of_nat (length (window 1000 ts)) + 1 :: u64)"
        using cast [of "length (window 1000 ts) + 1"] len short
        by (simp only: of_nat_add of_nat_1 add.commute)
      moreover have "1 + of_nat (length (window 1000 ts)) = (of_nat (length (window 1000 ts)) + 1 :: u32)"
        "1 + of_nat (length (window 1000 ts)) = (of_nat (length (window 1000 ts)) + 1 :: u64)"
        by simp_all
      moreover have "w_count (fold add_wf_sample ts (ws\<lparr>w_count := 0, w_total := 0\<rparr>)) \<noteq> 1000"
        using snoc False short of_nat_1000 [OF len] by simp
      ultimately show ?thesis
        using snoc False short unfolding fold_append comp_apply fold_simps add_wf_sample_def [of t] Let_def
        by (simp add: window_snoc) (simp add: add.commute)
    qed
  qed
qed

section \<open>Keys\<close>

lemma keys_differ: "reply_key service call_id \<noteq> callback_key service' call_id'"
proof
  assume "reply_key service call_id = callback_key service' call_id'"
  then have "last (reply_key service call_id) = last (callback_key service' call_id')"
    by simp
  then show False
    by (simp add: reply_key_def callback_key_def)
qed

lemma key_inject:
  assumes "length call_id = length call_id'"
  shows "reply_key service call_id = reply_key service' call_id' \<longleftrightarrow> service = service' \<and> call_id = call_id'"
    and "callback_key service call_id = callback_key service' call_id' \<longleftrightarrow> service = service' \<and> call_id = call_id'"
  using assms by (auto simp: reply_key_def callback_key_def)

section \<open>Running a function keeps the shard live\<close>

lemma place_task_known:
  assumes "place_task cpu call fuse d s = rok s'" and "cpu < length (cores s)" and "cpu < length (shards s)"
    and "dom (task_map (cores s ! cpu)) \<subseteq> curr_req d"
    and "fuse \<Longrightarrow> curr_req (shards s ! cpu) = curr_req d"
  shows "tasks_known cpu s'"
proof -
  obtain req_id call_id service fn jsargs where call: "call = (req_id, call_id, service, fn, jsargs)"
    by (cases call)
  show ?thesis
    using assms(1-3,5) subsetD [OF assms(4) domI]
    by (cases fuse) (auto simp: place_task_def call Let_def step_rok tasks_known_def split: if_splits)
qed

lemma ensure_states_shards:
  assumes "ensure_states i p k f s = rok s'"
  shows "\<exists>m. shards s' = (shards s)[i := (shards s ! i)\<lparr>req_map := m\<rparr>]"
proof -
  have "shards s = (shards s)[i := (shards s ! i)\<lparr>req_map := req_map (shards s ! i)\<rparr>]"
    by simp
  moreover have "shards s' = (if req_map (shards s ! i) k = None then (shards s)[i := (shards s ! i)\<lparr>req_map :=
      (req_map (shards s ! i))(k \<mapsto> Some (Remote_reply p))\<rparr>] else shards s)"
    using assms by (auto simp: ensure_states_def Let_def step_rok)
  ultimately show ?thesis
    by metis
qed

lemma run_func_live:
  assumes known: "tasks_known cpu s" and r: "run_func cpu now p call s = rok s'" and len: "cpu < length (cores s)"
  shows "live cpu s' \<and> tasks_known cpu s'"
proof -
  obtain req_id call_id service fn jsargs where call: "call = (req_id, call_id, service, fn, jsargs)"
    by (cases call)
  obtain s1 d0 s2 and ws :: wf_states and s3 where
    s1: "ensure_states cpu p (reply_key service call_id) (service @ fn) s = rok s1" and
    d0: "shard_at cpu s1 = rok d0" and
    s2: "lock cpu (set_shard cpu (if req_id = call_id then d0\<lparr>wf_starts := (wf_starts d0)(req_id \<mapsto> now)\<rparr>
      else d0) s1) = rok s2" and
    s3: "place_task cpu call (w_fuse ws) (if req_id = call_id
      then d0\<lparr>wf_starts := (wf_starts d0)(req_id \<mapsto> now)\<rparr> else d0) s2 = rok s3" and
    fin: "dispatch cpu (unlock s3) = rok s'"
    using r unfolding run_func_def call Let_def prod.case
    by (elim rbind_pair_rokE rbind_rokE) (rule that [unfolded call])
  have cpu: "cpu < length (shards s)"
    using s1 by (auto simp: ensure_states_def step_rok)
  have sh1: "curr_req (shards s1 ! cpu) = curr_req (shards s ! cpu)" "length (shards s1) = length (shards s)"
    using ensure_states_shards [OF s1] cpu by auto
  have co1: "cores s1 = cores s"
    using ensure_states_same [OF s1] by simp
  have d: "d0 = shards s1 ! cpu"
    using d0 by (simp add: shard_at_rok)
  have "cores s2 = cores s" "shards s2 = (shards s1)[cpu := (if req_id = call_id then d0\<lparr>wf_starts := (wf_starts d0)(req_id \<mapsto> now)\<rparr>
      else d0)]"
    using s2 co1 by (simp_all add: lock_rok)
  then have "tasks_known cpu s3"
    using known cpu len sh1 d by (intro place_task_known [OF s3]) (auto simp: tasks_known_def)
  then have "tasks_known cpu (unlock s3)"
    by (simp add: tasks_known_def)
  with fin show ?thesis
    by (rule dispatch_live)
qed

section \<open>Machines with one core for each network queue\<close>

lemma small_machine_no_lock:
  assumes "n \<le> HW_Q_COUNT" and "length (cores s) = n" and "i < n"
  shows "get_core i (t0, t1, t2) e c s = rok (i, queued i t0 c e s)"
  using assms occupy_queued [of i s] by (simp add: get_core_def)

lemma large_machine_lock:
  assumes "HW_Q_COUNT < length (cores s)" and "i < length (cores s)" and "mu s = Some j"
  shows "get_core i (t0, t1, t2) e c s = None"
  using assms by (simp add: get_core_def core_at_def GATE_def lock_def)

section \<open>Start\<close>

definition started :: "nat \<Rightarrow> sys" where
  "started n = (fresh_sys n)\<lparr>cores := replicate n core_init,
     shards := map (\<lambda>i. new_shard\<lparr>big_core := HW_Q_COUNT \<le> i\<rparr>) [0..<n]\<rparr>"

definition half_started :: "nat \<Rightarrow> nat set \<Rightarrow> sys" where
  "half_started n A = (fresh_sys n)\<lparr>cores := (if 0 \<in> A then replicate n core_init else []),
     shards := map (\<lambda>i. new_shard\<lparr>big_core := i \<in> A \<and> HW_Q_COUNT \<le> i\<rparr>) [0..<n]\<rparr>"

lemma half_started_step:
  assumes "i < n"
  shows "sched_start n i (half_started n A) = rok (half_started n (insert i A))"
proof -
  let ?d = "new_shard\<lparr>big_core := i \<in> A \<and> HW_Q_COUNT \<le> i\<rparr>"
  have "(map (\<lambda>i. new_shard\<lparr>big_core := i \<in> A \<and> HW_Q_COUNT \<le> i\<rparr>) [0..<n])[i := if HW_Q_COUNT \<le> i then ?d\<lparr>big_core := True\<rparr> else ?d]
      = map (\<lambda>j. new_shard\<lparr>big_core := j \<in> insert i A \<and> HW_Q_COUNT \<le> j\<rparr>) [0..<n]"
    by (rule nth_equalityI) (use assms in \<open>auto simp: nth_list_update\<close>)
  then show ?thesis
    using assms by (auto simp: sched_start_def shard_at_def Let_def set_shard_def half_started_def insert_commute)
qed

lemma half_started_all:
  "set is \<subseteq> {..<n} \<Longrightarrow> start_all n is (half_started n A) = rok (half_started n (A \<union> set is))"
  by (induction "is" arbitrary: A) (auto simp: half_started_step)

lemma start_all_started:
  assumes "set is = {..<n}"
  shows "start_all n is (fresh_sys n) = rok (started n)" and "sched_inv n (started n)"
proof -
  have "map (\<lambda>i. new_shard) [0..<n] = replicate n new_shard"
    by (simp add: map_replicate_trivial map_replicate_const)
  then have "half_started n {} = fresh_sys n"
    by (simp add: half_started_def fresh_sys_def new_shard_def)
  moreover have "half_started n {..<n} = started n"
    by (auto simp: half_started_def started_def intro!: map_cong)
  ultimately show "start_all n is (fresh_sys n) = rok (started n)"
    using half_started_all [of "is" n "{}"] assms by simp
  show "sched_inv n (started n)"
    by (auto simp: started_def fresh_sys_def sched_inv_def core_inv_def wf_refs_def stats_ok_def list_all_iff
        keys_ok_def new_shard_def)
qed


section \<open>The states of requests are kept\<close>

definition reqs_kept :: "sys \<Rightarrow> sys \<Rightarrow> bool" where
  "reqs_kept s s' \<longleftrightarrow> length (shards s') = length (shards s) \<and>
     (\<forall>i k x. req_map (shards s ! i) k = Some x \<longrightarrow> i < length (shards s) \<longrightarrow> req_map (shards s' ! i) k = Some x)"

lemma reqs_kept_refl [simp]: "reqs_kept s s"
  by (simp add: reqs_kept_def)

lemma reqs_kept_trans [trans]: "reqs_kept s s' \<Longrightarrow> reqs_kept s' s'' \<Longrightarrow> reqs_kept s s''"
  by (simp add: reqs_kept_def)

lemma reqs_kept_same: "shards s' = shards s \<Longrightarrow> reqs_kept s s'"
  by (simp add: reqs_kept_def)

lemma reqs_kept_set_shard:
  assumes "\<And>k x. req_map (shards s ! i) k = Some x \<Longrightarrow> req_map d k = Some x" and "shards s' = (shards s)[i := d]"
  shows "reqs_kept s s'"
  unfolding reqs_kept_def
proof (intro conjI allI impI)
  show "length (shards s') = length (shards s)"
    by (simp add: assms(2))
  fix j k x assume "req_map (shards s ! j) k = Some x" "j < length (shards s)"
  then show "req_map (shards s' ! j) k = Some x"
    using assms(1) by (cases "j = i") (simp_all add: assms(2))
qed

lemma ensure_states_kept: "ensure_states i p k f s = rok s' \<Longrightarrow> reqs_kept s s'"
  by (rule reqs_kept_set_shard [where i = i and d = "shards s' ! i"])
    (auto simp: ensure_states_def Let_def step_rok)

lemma place_task_kept:
  assumes "place_task cpu call fuse d s = rok s'" and "req_map d = req_map (shards s ! cpu)"
  shows "reqs_kept s s'"
proof -
  obtain req_id call_id service fn jsargs where call: "call = (req_id, call_id, service, fn, jsargs)"
    by (cases call)
  have "\<exists>d'. req_map d' = req_map d \<and> shards s' = (shards s)[cpu := d']"
    using assms(1) by (cases fuse) (auto simp: place_task_def call Let_def step_rok
      intro: exI [of _ "d\<lparr>curr_wf := insert req_id (curr_wf d)\<rparr>"] exI [of _ "d\<lparr>curr_req := insert call_id (curr_req d)\<rparr>"])
  then show ?thesis
    using assms(2) reqs_kept_set_shard [of s cpu] by metis
qed

lemma run_func_kept:
  assumes r: "run_func cpu now p call s = rok s'"
  shows "reqs_kept s s'"
proof -
  obtain req_id call_id service fn jsargs where call: "call = (req_id, call_id, service, fn, jsargs)"
    by (cases call)
  obtain s1 d0 s2 and ws :: wf_states and s3 where
    s1: "ensure_states cpu p (reply_key service call_id) (service @ fn) s = rok s1" and
    d0: "shard_at cpu s1 = rok d0" and
    s2: "lock cpu (set_shard cpu (if req_id = call_id then d0\<lparr>wf_starts := (wf_starts d0)(req_id \<mapsto> now)\<rparr>
      else d0) s1) = rok s2" and
    s3: "place_task cpu call (w_fuse ws) (if req_id = call_id
      then d0\<lparr>wf_starts := (wf_starts d0)(req_id \<mapsto> now)\<rparr> else d0) s2 = rok s3" and
    fin: "dispatch cpu (unlock s3) = rok s'"
    using r unfolding run_func_def call Let_def prod.case
    by (elim rbind_pair_rokE rbind_rokE) (rule that [unfolded call])
  have d: "d0 = shards s1 ! cpu" "cpu < length (shards s1)"
    using d0 by (simp_all add: shard_at_rok)
  have "reqs_kept s s1"
    using s1 by (rule ensure_states_kept)
  also have "reqs_kept s1 s2"
    using s2 by (intro reqs_kept_set_shard [where i = cpu and s = s1]) (auto simp: lock_rok d split: if_splits)
  also have "reqs_kept s2 s3"
    by (rule place_task_kept [OF s3]) (use s2 d in \<open>auto simp: lock_rok\<close>)
  also have "reqs_kept s3 s'"
    using dispatch_shards [OF fin] by (intro reqs_kept_same) simp
  finally show ?thesis .
qed

lemma schedule_after_ensure:
  assumes "schedule cpu clock now p call s = rok s'" and call: "call = (req_id, call_id, service, fn, jsargs)"
  shows "\<exists>s1. ensure_states cpu p (reply_key service call_id) (service @ fn) s = rok s1 \<and> reqs_kept s1 s'"
proof -
  obtain s1 s2 and ws :: wf_states and f :: func_states and core s3 where
    s1: "ensure_states cpu p (reply_key service call_id) (service @ fn) s = rok s1" and
    s2: "s2 = note_workflow req_id call_id service (service @ fn) s1" and
    pick: "(if w_fuse ws then if req_id = call_id then get_core cpu clock (scast (w_exec ws)) call_id s2 else rok (cpu, s2)
       else get_core cpu clock (scast (f_exec f)) call_id s2) = rok (core, s3)" and
    fin: "(if core \<noteq> cpu then rok (emit (Invoke_run_func core p call) s3) else run_func cpu now p call s3) = rok s'"
    using assms(1) unfolding schedule_def call Let_def prod.case
    by (elim rbind_pair_rokE rbind_rokE) (rule that [unfolded call, OF _ refl])
  have "reqs_kept s1 s2"
    by (rule reqs_kept_same) (simp add: s2 note_workflow_eq)
  also have "reqs_kept s2 s3"
    using pick get_core_same(3) by (intro reqs_kept_same) (auto split: if_splits)
  also have "reqs_kept s3 s'"
    using fin run_func_kept [of cpu now p call s3 s'] by (auto intro: reqs_kept_same split: if_splits)
  finally show ?thesis
    using s1 by blast
qed

lemma schedule_kept:
  assumes "schedule cpu clock now p call s = rok s'"
  shows "reqs_kept s s'"
proof -
  obtain req_id call_id service fn jsargs where call: "call = (req_id, call_id, service, fn, jsargs)"
    by (cases call)
  show ?thesis
    using schedule_after_ensure [OF assms call] ensure_states_kept reqs_kept_trans by blast
qed

lemma new_req_returns:
  assumes inv: "sched_inv n s" and i: "cpu < n"
    and some: "HW_Q_COUNT < n \<longrightarrow> (\<exists>k. HW_Q_COUNT \<le> k \<and> k < n \<and> till s k \<noteq> - 1)"
  shows "\<exists>s'. new_req cpu clock now req_id service fn args s = rok s' \<and> sched_inv n s' \<and>
    req_map (shards s' ! cpu) (reply_key service req_id) = Some (Some Local_reply)"
proof -
  let ?key = "reply_key service req_id"
  have len: "length (shards s) = n"
    using core_states_lengths [OF inv] by simp
  define s1 where "s1 = set_shard cpu ((shards s ! cpu)\<lparr>req_map := (req_map (shards s ! cpu))(?key \<mapsto> Some Local_reply)\<rparr>) s"
  have s1: "set_req_states cpu ?key Local_reply s = rok s1"
    using i len by (simp add: set_req_states_def shard_at_def s1_def)
  have inv1: "sched_inv n s1"
    using states_inv(2) [OF inv kind_ok_reply(2) s1] .
  obtain s2 where s2: "schedule cpu clock now cpu (req_id, req_id, service, fn, args) s1 = rok s2" "sched_inv n s2"
    using schedule_returns [OF inv1 i, of req_id req_id clock now cpu service fn args] some by (auto simp: s1_def)
  have "req_map (shards s1 ! cpu) ?key = Some (Some Local_reply)" "cpu < length (shards s1)"
    using i len by (simp_all add: s1_def)
  then have "req_map (shards s2 ! cpu) ?key = Some (Some Local_reply)"
    using schedule_kept [OF s2(1)] unfolding reqs_kept_def by blast
  then show ?thesis
    using s1 s2 by (simp add: new_req_def)
qed

section \<open>A state for the witnesses\<close>

text \<open>
  Nine cores after the start. The core \<open>8\<close> is the only one without a network queue. Shard 1 has the request \<open>r\<close> in progress.
\<close>

definition sys9 :: sys where
  "sys9 = (started 9)\<lparr>cores := (replicate 9 core_init)[8 := core_init\<lparr>busy := True, busy_till := 7, queue := [''a'']\<rparr>],
     wf_map := [''s.jsf'' \<mapsto> new_wf_states], req_wf_map := [''r'' \<mapsto> Some ''s.jsf''],
     shards := (replicate 9 new_shard)[1 := new_shard\<lparr>
       req_map := [reply_key ''s.js'' ''r'' \<mapsto> Some Local_reply, reply_key ''t.js'' ''c'' \<mapsto> Some (Remote_reply 3)],
       curr_req := {''c''}\<rparr>]\<rparr>"

lemma sys9_parts [simp]:
  "mu sys9 = None" "length (cores sys9) = 9" "length (shards sys9) = 9"
  "wf_map sys9 = [''s.jsf'' \<mapsto> new_wf_states]" "req_wf_map sys9 = [''r'' \<mapsto> Some ''s.jsf'']"
  "shards sys9 ! 1 = new_shard\<lparr>
       req_map := [reply_key ''s.js'' ''r'' \<mapsto> Some Local_reply, reply_key ''t.js'' ''c'' \<mapsto> Some (Remote_reply 3)],
       curr_req := {''c''}\<rparr>"
  "cores sys9 ! 8 = core_init\<lparr>busy := True, busy_till := 7, queue := [''a'']\<rparr>"
  by (simp_all add: sys9_def started_def fresh_sys_def)

lemma sys9_inv: "sched_inv 9 sys9"
proof -
  have "keys_ok (new_shard\<lparr>
       req_map := [reply_key ''s.js'' ''r'' \<mapsto> Some Local_reply, reply_key ''t.js'' ''c'' \<mapsto> Some (Remote_reply 3)],
       curr_req := {''c''}\<rparr>)"
    using kind_ok_reply by (auto simp: keys_ok_def)
  moreover have "keys_ok new_shard"
    by (simp add: keys_ok_def new_shard_def)
  ultimately have "list_all keys_ok (shards sys9)"
    by (auto simp: sys9_def list_all_iff set_replicate_conv_if dest!: set_update_subset_insert [THEN subsetD])
  then show ?thesis
    by (auto simp: sched_inv_def core_inv_def wf_refs_def stats_ok_def sys9_def started_def fresh_sys_def new_wf_states_def)
qed

lemma sys9_calls:
  "req_map (shards sys9 ! 1) (reply_key ''s.js'' ''r'') = Some (Some Local_reply)"
  "req_map (shards sys9 ! 1) (reply_key ''t.js'' ''c'') = Some (Some (Remote_reply 3))"
  "sent sys9 = []" "wf_starts (shards sys9 ! 1) = Map.empty"
  by (simp_all add: sys9_def started_def fresh_sys_def new_shard_def reply_key_def)

lemma sys9_big: "\<exists>k. HW_Q_COUNT \<le> k \<and> k < 9 \<and> till sys9 k \<noteq> - 1"
  by (rule exI [of _ 8]) (simp add: HW_Q_COUNT_def)

section \<open>Properties\<close>

text \<open>
  C15. On a machine with more than \<open>HW_Q_COUNT\<close> cores \<^verbatim>\<open>get_core\<close> gives a call to the first of
  the least busy cores without a network queue, or, when the call is short and a core with a queue
  is free before that, to the first of the least busy of these; the call is appended to the queue of
  that core, whose time is extended, no other core changes, and the lock is free again.
\<close>

theorem get_core_least:
  assumes "sched_inv n s" and "i < n" and "HW_Q_COUNT < n"
    and "\<exists>k. HW_Q_COUNT \<le> k \<and> k < n \<and> till s k \<noteq> - 1"
  shows "\<exists>k. get_core i (t0, t1, t2) e c s = rok (k, queued k t0 c e s) \<and> k < n \<and> picked e t1 t2 s k"
  by (rule get_core_picks_core [OF assms])

theorem get_core_least_witness:
  "\<exists>k. get_core 1 (20, 21, 22) 100 ''c'' sys9 = rok (k, queued k 20 ''c'' 100 sys9) \<and> k < 9 \<and> picked 100 21 22 sys9 k"
  by (rule get_core_least [OF sys9_inv _ _ sys9_big]) (simp_all add: HW_Q_COUNT_def)

text \<open>
  C16. Scheduling does not deadlock or fault: from a consistent state, with the lock free, \<^verbatim>\<open>schedule\<close>
  returns for the root call of a request and for every call of a request whose workflow is known, as
  long as some core without a network queue has a time below the maximum; the state it leaves is
  consistent and the lock is free.
\<close>

theorem schedule_progress:
  assumes "sched_inv n s" and "cpu < n"
    and "HW_Q_COUNT < n \<longrightarrow> (\<exists>k. HW_Q_COUNT \<le> k \<and> k < n \<and> till s k \<noteq> - 1)"
    and "req_id = call_id \<or> req_wf_map s req_id \<noteq> None"
  shows "\<exists>s'. schedule cpu clock now p (req_id, call_id, service, fn, jsargs) s = rok s' \<and> sched_inv n s'"
  by (rule schedule_returns [OF assms])

theorem schedule_progress_witness:
  "\<exists>s'. schedule 0 (5, 6, 7) 8 0 (''r2'', ''r2'', ''post.js'', ''f'', []) sys9 = rok s' \<and> sched_inv 9 s'"
  by (rule schedule_progress [OF sys9_inv]) (use sys9_big in auto)

text \<open>
  C26. The reply to the root call on the shard that received the request: the promise of the response
  is fulfilled with the status and message of the reply, the state of the call is erased, a fused
  workflow ends, and the shard dispatches, so that a ready call is in progress afterwards.
\<close>

theorem reply_fulfils:
  assumes "sched_inv n s" and "cpu < n"
    and "req_map (shards s ! cpu) (reply_key service call_id) = Some (Some Local_reply)"
    and "json ret = Inr rep"
  shows "\<exists>s'. reply json callback cpu now1 now2 req_id call_id service ret s = rok s' \<and>
    Set_value cpu (reply_key service call_id) rep \<in> set (sent s') \<and>
    shards s' = (shards s)[cpu := (shards s ! cpu)\<lparr>
       req_map := (req_map (shards s ! cpu))(reply_key service call_id := None),
       curr_req := curr_req (shards s ! cpu) - {call_id},
       curr_wf := curr_wf (shards s ! cpu) - {req_id}\<rparr>] \<and>
    (tasks_known cpu s \<and> task_map (cores s ! cpu) call_id = None \<longrightarrow> live cpu s')"
  using reply_local [where json = json, OF assms, of callback now1 now2 req_id] by fastforce

theorem reply_fulfils_witness:
  "\<exists>s'. reply (\<lambda>x. Inr \<lparr>r_status = 200, r_message = x\<rparr>) (\<lambda>c v r s. rok s) 1 30 31 ''r'' ''r'' ''s.js'' ''ok'' sys9 = rok s' \<and>
    Set_value 1 (reply_key ''s.js'' ''r'') \<lparr>r_status = 200, r_message = ''ok''\<rparr> \<in> set (sent s')"
  using reply_fulfils [OF sys9_inv _ sys9_calls(1), of "\<lambda>x. Inr \<lparr>r_status = 200, r_message = x\<rparr>" "''ok''"
      "\<lparr>r_status = 200, r_message = ''ok''\<rparr>" "\<lambda>c v r s. rok s" 30 31 "''r''"] by auto

text \<open>
  C27. The reply to a call that another shard is waiting for: it is passed on to that shard, the state
  of the call is erased here, the execution time of the workflow gets the time since the start noted
  on this shard (the whole time stamp when none is noted), and a fused workflow ends here.
\<close>

theorem reply_passed_on:
  assumes "sched_inv n s" and "cpu < n"
    and "req_map (shards s ! cpu) (reply_key service call_id) = Some (Some (Remote_reply prev))" and "prev \<noteq> cpu"
    and "req_wf_map s req_id = Some (Some w)" and "wf_map s w = Some ws"
  shows "\<exists>s'. reply json callback cpu now1 now2 req_id call_id service ret s = rok s' \<and>
    sent s' = sent s @ [Invoke_reply prev cpu req_id call_id service ret] \<and>
    wf_map s' = (wf_map s)(w \<mapsto> add_wf_sample
       (now2 - (case wf_starts (shards s ! cpu) req_id of None \<Rightarrow> 0 | Some t \<Rightarrow> t)) ws) \<and>
    shards s' = (shards s)[cpu := (shards s ! cpu)\<lparr>
       req_map := (req_map (shards s ! cpu))(reply_key service call_id := None),
       curr_req := curr_req (shards s ! cpu) - {call_id},
       wf_starts := (wf_starts (shards s ! cpu))(req_id := None),
       curr_wf := (if w_fuse ws then curr_wf (shards s ! cpu) - {req_id} else curr_wf (shards s ! cpu))\<rparr>]"
  by (rule reply_remote [OF assms])

theorem reply_passed_on_witness:
  "\<exists>s'. reply (\<lambda>x. Inl Out_of_range) (\<lambda>c v r s. rok s) 1 30 31 ''r'' ''c'' ''t.js'' ''ok'' sys9 = rok s' \<and>
    sent s' = [Invoke_reply 3 1 ''r'' ''c'' ''t.js'' ''ok''] \<and> wf_map s' ''s.jsf'' = Some (add_wf_sample 31 new_wf_states)"
  using reply_passed_on [OF sys9_inv _ sys9_calls(2), of "''r''" "''s.jsf''" new_wf_states
      "\<lambda>x. Inl Out_of_range" "\<lambda>c v r s. rok s" 30 31 "''ok''"] sys9_calls(3,4) by fastforce

text \<open>
  C34. A call is answered once: after the reply to the root call a second reply to it dereferences the
  null pointer that \<^verbatim>\<open>req_map[key]\<close> inserts, as any reply to a call that the shard does not know.
\<close>

theorem reply_once:
  assumes "sched_inv n s" and "cpu < n"
    and "req_map (shards s ! cpu) (reply_key service call_id) = Some (Some Local_reply)"
    and "reply json callback cpu now1 now2 req_id call_id service ret s = rok s'"
  shows "reply json callback cpu now3 now4 req_id call_id service ret' s' = rfail Null_deref"
proof -
  have inv: "sched_inv n (closed cpu now1 (reply_key service call_id) call_id s)"
    by (rule closed_inv [OF assms(1,2)])
  obtain rep where json: "json ret = Inr rep"
    using assms by (cases "json ret") (auto simp: reply_eq answer_def)
  then have "shards s' = (shards s)[cpu := (shards s ! cpu)\<lparr>
       req_map := (req_map (shards s ! cpu))(reply_key service call_id := None),
       curr_req := curr_req (shards s ! cpu) - {call_id},
       curr_wf := curr_wf (shards s ! cpu) - {req_id}\<rparr>]"
    using reply_local [of n s cpu service call_id json ret rep callback now1 now2 req_id] json assms by auto
  then have "req_map (shards s' ! cpu) (reply_key service call_id) = None"
    using core_states_lengths [OF assms(1)] assms(2) by simp
  moreover have "sched_inv n s'"
    using assms(4) answer_local_inv [OF inv] assms(1-3) by (auto simp: reply_eq)
  ultimately show ?thesis
    by (intro reply_unknown [OF _ assms(2)])
qed

theorem reply_once_witness:
  "\<exists>s'. reply (\<lambda>x. Inr \<lparr>r_status = 200, r_message = x\<rparr>) (\<lambda>c v r s. rok s) 1 30 31 ''r'' ''r'' ''s.js'' ''ok'' sys9 = rok s' \<and>
    reply (\<lambda>x. Inr \<lparr>r_status = 200, r_message = x\<rparr>) (\<lambda>c v r s. rok s) 1 40 41 ''r'' ''r'' ''s.js'' ''ok'' s' = rfail Null_deref"
proof -
  let ?json = "\<lambda>x. Inr \<lparr>r_status = 200, r_message = x\<rparr>" and ?cb = "\<lambda>c v r s. rok s"
  note st = sys9_calls(1)
  obtain s' where "reply ?json ?cb 1 30 31 ''r'' ''r'' ''s.js'' ''ok'' sys9 = rok s'"
    using reply_local [OF sys9_inv _ st, of ?json "''ok''" _ ?cb 30 31 "''r''"] by auto
  with reply_once [OF sys9_inv _ st this, of 40 41 "''ok''"] show ?thesis
    by auto
qed


text \<open>
  C25. No ready call is left waiting on an idle shard: after a function is placed on a shard, if the
  call at the head of its queue has arrived and no fused workflow runs, then a call of the shard is
  in progress, and its reply dispatches again.
\<close>

theorem run_func_keeps_live:
  assumes "tasks_known cpu s" and "run_func cpu now p call s = rok s'" and "cpu < length (cores s)"
  shows "live cpu s' \<and> tasks_known cpu s'"
  by (rule run_func_live [OF assms])

theorem run_func_keeps_live_witness:
  "\<exists>s'. run_func 8 3 8 (''r'', ''a'', ''s.js'', ''g'', ''x'') sys9 = rok s' \<and> live 8 s' \<and> tasks_known 8 s'"
proof -
  have known: "tasks_known 8 sys9"
    by (simp add: tasks_known_def core_init_def)
  obtain s' where s': "run_func 8 3 8 (''r'', ''a'', ''s.js'', ''g'', ''x'') sys9 = rok s'"
    using run_func_returns [OF sys9_inv, of 8 "''r''" 3 8 "''a''" "''s.js''" "''g''" "''x''"] by auto
  then show ?thesis
    using run_func_keeps_live [OF known s'] by simp
qed

text \<open>
  The execution time of a workflow is the average of the samples since the last reset, of
  which there are at most 1000: their sum modulo \<open>2 ^ 64\<close>, divided by their number, cut to 32 bits.
\<close>

lemma workflow_average:
  assumes "ts \<noteq> []"
  shows "fold add_wf_sample ts (new_wf_states\<lparr>w_fuse := b\<rparr>) = \<lparr>w_fuse = b,
    w_count = of_nat (length (window 1000 ts)), w_total = sum_list (window 1000 ts),
    w_exec = ucast (sum_list (window 1000 ts) div of_nat (length (window 1000 ts)))\<rparr> \<and>
    window 1000 ts \<noteq> [] \<and> length (window 1000 ts) \<le> 1000 \<and> suffix (window 1000 ts) ts"
proof -
  have "new_wf_states\<lparr>w_fuse := b\<rparr> = (new_wf_states\<lparr>w_fuse := b\<rparr>)\<lparr>w_count := 0, w_total := 0\<rparr>"
    by (simp add: new_wf_states_def)
  moreover have "length (window 1000 ts) \<noteq> 0"
    using assms by (cases ts rule: rev_cases) (simp_all add: window_snoc)
  moreover have "suffix (window 1000 ts) ts"
    by (simp add: window_def suffix_drop)
  ultimately show ?thesis
    using wf_samples [of ts "new_wf_states\<lparr>w_fuse := b\<rparr>"] assms length_window [of 1000 ts]
    by (simp add: new_wf_states_def)
qed

text \<open>
  Whatever the order in which the shards run \<^verbatim>\<open>start\<close>, each has its scheduler with no request,
  the cores without a network queue are marked, and all cores are idle; the state is consistent.
\<close>

lemma start_order:
  assumes "set is = {..<n}"
  shows "start_all n is (fresh_sys n) = rok (started n) \<and> sched_inv n (started n)"
  using start_all_started [OF assms] by simp

text \<open>
  A call of unknown length (\<open>-1\<close>, as for every function that never ran) makes the chosen core
  one cycle less busy instead of busier: while the least busy core is ahead of the clock, the next
  call of unknown length is queued on the same core, whatever waits there.
\<close>

lemma unknown_calls_pile_up:
  assumes inv: "sched_inv n s" and i: "i < n" "i' < n" and n: "HW_Q_COUNT < n"
    and k: "first_least (till s) [HW_Q_COUNT..<n] k"
    and busy: "till s k \<noteq> 0" "till s k \<noteq> - 1" "t0 \<le> till s k"
  shows "\<exists>s1 s2. get_core i (t0, t1, t2) (- 1) c s = rok (k, s1) \<and> till s1 k = till s k - 1 \<and>
    get_core i' (u0, u1, u2) (- 1) c' s1 = rok (k, s2) \<and> queue (cores s2 ! k) = queue (cores s ! k) @ [c, c']"
proof -
  have kn: "HW_Q_COUNT \<le> k" "k < n"
    using k by (auto simp: first_least_def)
  have len: "length (cores s) = n"
    using core_states_lengths [OF inv] by simp
  obtain j where "get_core i (t0, t1, t2) (- 1) c s = rok (j, queued j t0 c (- 1) s)" "picked (- 1) t1 t2 s j"
    using get_core_picks_core [OF inv i(1) n, of t0 t1 t2 "- 1" c] kn busy(2) by blast
  moreover from this have "j = k"
    using k first_least_unique len by (metis picked_unknown)
  ultimately have g1: "get_core i (t0, t1, t2) (- 1) c s = rok (k, queued k t0 c (- 1) s)"
    by simp
  let ?s1 = "queued k t0 c (- 1) s"
  have inv1: "sched_inv n ?s1"
    using get_core_inv [OF inv g1] by simp
  have till1: "till ?s1 k = till s k - 1"
    using queued_till [of k s t0 c "- 1" k] len kn busy(3) by (simp add: max_def)
  have least1: "first_least (till ?s1) [HW_Q_COUNT..<n] k"
    using unknown_stays_least [of s k t0 c] k busy len by simp
  have "till ?s1 k \<noteq> - 1"
    unfolding till1 using busy(1) by (metis diff_eq_eq add.left_inverse)
  then obtain j where g: "get_core i' (u0, u1, u2) (- 1) c' ?s1 = rok (j, queued j u0 c' (- 1) ?s1)" "picked (- 1) u1 u2 ?s1 j"
    using get_core_picks_core [OF inv1 i(2) n, of u0 u1 u2 "- 1" c'] kn by blast
  have "j = k"
    using g(2) least1 first_least_unique core_states_lengths [OF inv1] by (metis picked_unknown)
  then show ?thesis
    using g1 g(1) till1 len kn by (auto simp: queued_def)
qed

text \<open>
  C35. On a machine with at most \<open>HW_Q_COUNT\<close> cores \<^verbatim>\<open>get_core\<close> never takes the lock but releases it:
  a shard that is between lock and unlock loses the lock to the next caller. On larger machines the
  call does not return while another shard holds the lock.
\<close>

theorem get_core_lock:
  assumes "length (cores s) = n" and "i < n"
  shows "(n \<le> HW_Q_COUNT \<longrightarrow> (\<exists>s'. get_core i (t0, t1, t2) e c s = rok (i, s') \<and> mu s' = None)) \<and>
    (HW_Q_COUNT < n \<and> mu s = Some j \<longrightarrow> get_core i (t0, t1, t2) e c s = None)"
  using assms small_machine_no_lock [of n s i t0 t1 t2 e c] large_machine_lock [of s i j t0 t1 t2 e c]
  by (auto simp: queued_def)

theorem get_core_lock_witness:
  "(\<exists>s'. get_core 0 (1, 1, 1) 5 ''c'' ((started 2)\<lparr>mu := Some 1\<rparr>) = rok (0, s') \<and> mu s' = None) \<and>
   get_core 0 (1, 1, 1) 5 ''c'' (sys9\<lparr>mu := Some 1\<rparr>) = None"
  using get_core_lock [of "(started 2)\<lparr>mu := Some 1\<rparr>" 2 0 1 1 1 5 "''c''"]
    get_core_lock [of "sys9\<lparr>mu := Some 1\<rparr>" 9 0 1 1 1 5 "''c''" 1]
  by (simp add: started_def HW_Q_COUNT_def)

text \<open>
  The keys of reply states and of callback states never meet, and for call ids of one length
  (uuids have 36 characters) they determine the service and the call.
\<close>

theorem keys_determine_call:
  assumes "length call_id = length call_id'"
  shows "reply_key service call_id \<noteq> callback_key service' call_id' \<and>
    (reply_key service call_id = reply_key service' call_id' \<longleftrightarrow> service = service' \<and> call_id = call_id') \<and>
    (callback_key service call_id = callback_key service' call_id' \<longleftrightarrow> service = service' \<and> call_id = call_id')"
  using keys_differ [of service call_id] key_inject [OF assms] by blast

text \<open>
  A reply marks its core as free from now on when no call that has arrived is left on the shard,
  even if calls that other shards have queued there are still on their way, or a fused workflow
  (which is never in \<^verbatim>\<open>curr_req\<close>) is running there.
\<close>

lemma reply_frees_core:
  assumes "sched_inv n s" and "cpu < n" and "curr_req (shards s ! cpu) \<subseteq> {call_id}"
    and "retire cpu now call_id s = rok s'"
  shows "till s' cpu = now \<and> \<not> busy (cores s' ! cpu) \<and> queue (cores s' ! cpu) = remove1 call_id (queue (cores s ! cpu)) \<and>
    curr_wf (shards s' ! cpu) = curr_wf (shards s ! cpu)"
proof -
  have len: "mu s = None" "cpu < length (cores s)" "cpu < length (shards s)"
    using core_states_lengths [OF assms(1)] assms(2) by auto
  then show ?thesis
    using assms(3,4) retire_eq [OF len, of now call_id] by (auto simp: freed_def)
qed

end
