(* ===== verification/Http_Handler.thy ===== *)
theory Http_Handler
  imports Scheduling
begin

text \<open>
  The HTTP side of a connection, \<^verbatim>\<open>src/connection_handler.cc\<close>: URL decoding, query parameters, the
  split of the path into service and function, the body of a request, and \<^verbatim>\<open>handle\<close>, which hands the
  request to the scheduler. The HTTP parser, the header table and \<^verbatim>\<open>read_exactly\<close> of seastar, which can throw,
  and the JSON writer of boost, are parameters (\<open>http_lib\<close>); a \<^verbatim>\<open>size_t\<close> is a 64-bit word, and \<^verbatim>\<open>npos\<close> is
  its maximum.
\<close>

section \<open>URL decoding\<close>

definition hex_to_byte :: "char \<Rightarrow> int" where
  "hex_to_byte c = (let n = schar c in
     if schar (CHR ''a'') \<le> n \<and> n \<le> schar (CHR ''z'') then n - schar (CHR ''a'') + 10
     else if schar (CHR ''A'') \<le> n \<and> n \<le> schar (CHR ''Z'') then n - schar (CHR ''A'') + 10
     else n - schar (CHR ''0''))"

definition hexstr_to_char :: "char \<Rightarrow> char \<Rightarrow> char" where
  "hexstr_to_char a b = char_of (nat ((hex_to_byte a * 16 + hex_to_byte b) mod 256))"

text \<open>The loop of \<^verbatim>\<open>url_decode\<close> over the rest of its input; \<open>None\<close> is \<^verbatim>\<open>false\<close>.\<close>

fun url_decode :: "string \<Rightarrow> string option" where
  "url_decode [] = Some []"
| "url_decode (c # r) =
     (if c = CHR ''%'' then (case r of
          a # b # r' \<Rightarrow> map_option ((#) (hexstr_to_char a b)) (url_decode r')
        | _ \<Rightarrow> None)
      else if c = CHR ''+'' then map_option ((#) (CHR '' '')) (url_decode r)
      else map_option ((#) c) (url_decode r))"

section \<open>Query parameters\<close>

text \<open>\<^verbatim>\<open>find\<close>, and its result as a \<^verbatim>\<open>size_t\<close>.\<close>

fun index_of :: "char \<Rightarrow> string \<Rightarrow> nat option" where
  "index_of c [] = None"
| "index_of c (d # r) = (if c = d then Some 0 else map_option Suc (index_of c r))"

definition find_char :: "char \<Rightarrow> string \<Rightarrow> u64" where
  "find_char c s = (case index_of c s of None \<Rightarrow> - 1 | Some i \<Rightarrow> of_nat i)"

type_synonym params = "string \<rightharpoonup> string"

definition add_param :: "string \<Rightarrow> params \<Rightarrow> params" where
  "add_param param m = (let split = find_char (CHR ''='') param in
     if of_nat (length param) - 1 \<le> split
     then (case url_decode (take (unat split) param) of
         Some key \<Rightarrow> m(key \<mapsto> [])
       | None \<Rightarrow> m)
     else (case (url_decode (take (unat split) param), url_decode (drop (unat (split + 1)) param)) of
         (Some key, Some v) \<Rightarrow> m(key \<mapsto> v)
       | _ \<Rightarrow> m))"

lemma index_of_less: "index_of c s = Some i \<Longrightarrow> i < length s"
  by (induction s arbitrary: i) (auto split: if_splits)

text \<open>The loop over the parameters, on the rest of the URL from \<^verbatim>\<open>curr\<close> on.\<close>

function each_param :: "string \<Rightarrow> params \<Rightarrow> params" where
  "each_param r m = (case index_of (CHR ''&'') r of
      None \<Rightarrow> add_param r m
    | Some i \<Rightarrow> each_param (drop (Suc i) r) (add_param (take i r) m))"
  by pat_completeness auto
termination
  by (relation "measure (\<lambda>(r, m). length r)") (auto dest: index_of_less)

declare each_param.simps [simp del]

definition set_query_param :: "string \<Rightarrow> params \<Rightarrow> string \<times> params" where
  "set_query_param url m = (case index_of (CHR ''?'') url of
      None \<Rightarrow> (url, m)
    | Some pos \<Rightarrow> (take pos url, each_param (drop (Suc pos) url) m))"

section \<open>The body of a request\<close>

text \<open>\<^verbatim>\<open>strtol(s, nullptr, 10)\<close>: white space, a sign, digits; the result is cut to the range of \<^verbatim>\<open>long\<close>.\<close>

definition is_space :: "char \<Rightarrow> bool" where
  "is_space c \<longleftrightarrow> c \<in> set [CHR '' '', CHR 0x09, CHR 0x0A, CHR 0x0B, CHR 0x0C, CHR 0x0D]"

definition is_digit :: "char \<Rightarrow> bool" where
  "is_digit c \<longleftrightarrow> 48 \<le> schar c \<and> schar c \<le> 57"

definition strtol10 :: "string \<Rightarrow> int" where
  "strtol10 s = (let r = dropWhile is_space s;
       neg = (r \<noteq> [] \<and> hd r = CHR ''-'');
       r = (if r \<noteq> [] \<and> (hd r = CHR ''-'' \<or> hd r = CHR ''+'') then tl r else r);
       n = int (read_decimal (takeWhile is_digit r))
     in if neg then max (- (2 ^ 63)) (- n) else min (2 ^ 63 - 1) n)"

record http_request =
  q_url :: string
  q_version :: string
  q_headers :: "(string \<times> string) list"     \<comment> \<open>\<^verbatim>\<open>_headers\<close>, in the order of iteration\<close>
  query_parameters :: params
  q_content :: string
  content_length :: u64

text \<open>
  The library: \<^verbatim>\<open>read_exactly\<close> gives the bytes read and those that the connection still delivers. It is documented
  to give as many bytes as asked for, and fewer only at the end of the stream; it fails when it cannot allocate
  them.
\<close>

record http_lib =
  get_header :: "string \<Rightarrow> (string \<times> string) list \<Rightarrow> string"   \<comment> \<open>empty when absent\<close>
  read_exactly :: "nat \<Rightarrow> string \<Rightarrow> (string \<times> string) res"
  iterate :: "params \<Rightarrow> (string \<times> string) list"   \<comment> \<open>the order of iteration over the parameters\<close>
  json_args :: "(string \<times> string) list \<Rightarrow> (string \<times> string) list \<Rightarrow> string \<Rightarrow> string"
    \<comment> \<open>\<^verbatim>\<open>write_json\<close> of the headers, the parameters and the content\<close>

definition read_request_body :: "http_lib \<Rightarrow> string \<Rightarrow> http_request \<Rightarrow> (http_request \<times> string) res" where
  "read_request_body lib stream req = (if content_length req = 0 then rok (req, stream)
     else rbind (read_exactly lib (unat (content_length req)) stream) (\<lambda>(body, stream).
       rok (req\<lparr>q_content := body\<rparr>, stream)))"

section \<open>Handling a request\<close>

text \<open>
  \<^verbatim>\<open>url.substr(1)\<close>, \<^verbatim>\<open>find('/')\<close> and the two \<^verbatim>\<open>substr\<close>, which raise \<^verbatim>\<open>out_of_range\<close> for a start
  beyond the end.
\<close>

definition substr :: "u64 \<Rightarrow> u64 \<Rightarrow> string \<Rightarrow> string res" where
  "substr from len s = (if length s < unat from then rfail Out_of_range
     else rok (take (unat len) (drop (unat from) s)))"

definition split_path :: "string \<Rightarrow> (string \<times> string) res" where
  "split_path url = rbind (substr 1 (- 1) url) (\<lambda>r.
     let split = find_char (CHR ''/'') r in
     rbind (substr 1 split url) (\<lambda>service.
     rbind (substr (split + 2) (- 1) url) (\<lambda>fn. rok (service, fn))))"

text \<open>The JSON text passed to a function; every text is put by its \<^verbatim>\<open>c_str()\<close>.\<close>

definition c_pairs :: "(string \<times> string) list \<Rightarrow> (string \<times> string) list" where
  "c_pairs = map (\<lambda>(k, v). (c_str k, c_str v))"

definition call_args :: "http_lib \<Rightarrow> http_request \<Rightarrow> string" where
  "call_args lib req = json_args lib (c_pairs (q_headers req))
     (c_pairs (iterate lib (query_parameters req))) (c_str (q_content req))"

text \<open>
  \<^verbatim>\<open>handle\<close>: \<open>parsed\<close> is the request of the HTTP parser, \<open>None\<close> at the end of the connection, and
  \<open>stream\<close> the bytes after it; the rest of the stream is returned.
\<close>

definition length_header :: "http_lib \<Rightarrow> http_request \<Rightarrow> u64" where
  "length_header lib req = word_of_int (strtol10 (get_header lib ''Content-Length'' (q_headers req)))"

definition handle ::
  "http_lib \<Rightarrow> nat \<Rightarrow> u64 \<times> u64 \<times> u64 \<Rightarrow> u64 \<Rightarrow> string \<Rightarrow> http_request option \<Rightarrow> string \<Rightarrow> sys \<Rightarrow> (string \<times> sys) res" where
  "handle lib cpu clock now req_id parsed stream s = (case parsed of
      None \<Rightarrow> rok (stream, s)
    | Some req \<Rightarrow>
        rbind (read_request_body lib stream (req\<lparr>content_length := length_header lib req\<rparr>)) (\<lambda>(req, stream).
        let (url, ps) = set_query_param (q_url req) (query_parameters req);
            req = req\<lparr>query_parameters := ps\<rparr> in
        rbind (split_path url) (\<lambda>(service, fn).
        rbind (new_req cpu clock now req_id (service @ ''.js'') fn (call_args lib req) s) (\<lambda>s.
          rok (stream, s)))))"

section \<open>Decoding what was encoded\<close>

definition hex_digit :: "bool \<Rightarrow> nat \<Rightarrow> char" where
  "hex_digit upper n = char_of (if n < 10 then 48 + n else (if upper then 55 else 87) + n)"

text \<open>An encoder that keeps the characters of \<open>keep\<close> and writes the others as two hexadecimal digits.\<close>

definition encode_char :: "(char \<Rightarrow> bool) \<Rightarrow> bool \<Rightarrow> char \<Rightarrow> string" where
  "encode_char keep upper c = (if keep c then [c]
     else [CHR ''%'', hex_digit upper (of_char c div 16), hex_digit upper (of_char c mod 16)])"

definition url_encode :: "(char \<Rightarrow> bool) \<Rightarrow> bool \<Rightarrow> string \<Rightarrow> string" where
  "url_encode keep upper s = concat (map (encode_char keep upper) s)"

lemma schar_letters [simp]:
  "schar (CHR ''a'') = 97" "schar (CHR ''z'') = 122" "schar (CHR ''A'') = 65" "schar (CHR ''Z'') = 90" "schar (CHR ''0'') = 48"
  by (simp_all add: schar_def)

lemma hex_to_byte_digit:
  assumes "n < 16"
  shows "hex_to_byte (hex_digit upper n) = int n"
proof -
  have "(if n < 10 then 48 + n else (if upper then 55 else 87) + n) < 128"
    using assms by simp
  then have "schar (hex_digit upper n) = int (if n < 10 then 48 + n else (if upper then 55 else 87) + n)"
    unfolding hex_digit_def by (rule schar_char_of)
  then show ?thesis
    using assms by (auto simp: hex_to_byte_def Let_def)
qed

lemma hexstr_digits: "hexstr_to_char (hex_digit upper (of_char c div 16)) (hex_digit upper (of_char c mod 16)) = c"
proof -
  define n :: nat where "n = of_char c"
  have "n < 256"
    by (simp add: n_def char_code_less)
  then have "n div 16 < 16"
    by simp
  moreover have "int (n div 16) * 16 + int (n mod 16) = int n"
    by (metis of_nat_add of_nat_mult of_nat_numeral div_mult_mod_eq)
  ultimately have "hex_to_byte (hex_digit upper (n div 16)) * 16 + hex_to_byte (hex_digit upper (n mod 16)) = int n"
    by (simp add: hex_to_byte_digit)
  then show ?thesis
    using \<open>n < 256\<close> by (simp add: hexstr_to_char_def n_def)
qed

lemma url_decode_url_encode:
  assumes "\<And>c. keep c \<Longrightarrow> c \<noteq> CHR ''%'' \<and> c \<noteq> CHR ''+''"
  shows "url_decode (url_encode keep upper s) = Some s"
proof (induction s)
  case Nil
  then show ?case by (simp add: url_encode_def)
next
  case (Cons c s)
  then show ?case
    using assms [of c] by (cases "keep c") (auto simp: url_encode_def encode_char_def hexstr_digits)
qed

section \<open>Query strings\<close>

lemma index_of_append: "c \<notin> set p \<Longrightarrow> index_of c (p @ c # r) = Some (length p)"
  by (induction p) auto

lemma index_of_None: "index_of c s = None \<longleftrightarrow> c \<notin> set s"
  by (induction s) auto

definition pair_text :: "(char \<Rightarrow> bool) \<Rightarrow> bool \<Rightarrow> string \<times> string \<Rightarrow> string" where
  "pair_text keep upper kv = url_encode keep upper (fst kv) @ CHR ''='' # url_encode keep upper (snd kv)"

fun query_text :: "(char \<Rightarrow> bool) \<Rightarrow> bool \<Rightarrow> (string \<times> string) list \<Rightarrow> string" where
  "query_text keep upper [] = []"
| "query_text keep upper [kv] = pair_text keep upper kv"
| "query_text keep upper (kv # kv' # ps) = pair_text keep upper kv @ CHR ''&'' # query_text keep upper (kv' # ps)"

text \<open>Characters a query string can hold as they are.\<close>

definition plain_in_query :: "(char \<Rightarrow> bool) \<Rightarrow> bool" where
  "plain_in_query keep \<longleftrightarrow> (\<forall>c. keep c \<longrightarrow> c \<notin> set ''%+=&'')"

lemma hex_digit_plain:
  assumes "n < 16"
  shows "hex_digit upper n \<notin> set ''%+=&''"
proof
  assume "hex_digit upper n \<in> set ''%+=&''"
  then have "hex_to_byte (hex_digit upper n) \<in> hex_to_byte ` set ''%+=&''"
    by blast
  moreover have "hex_to_byte ` set ''%+=&'' = {- 11, - 5, 13, - 10}"
    by (auto simp: hex_to_byte_def Let_def schar_def)
  moreover have "hex_digit upper n \<noteq> CHR ''=''"
  proof
    assume "hex_digit upper n = CHR ''=''"
    then have "(of_char (hex_digit upper n) :: nat) = 61"
      by simp
    then show False
      using assms by (auto simp: hex_digit_def split: if_splits)
  qed
  ultimately show False
    using assms \<open>hex_digit upper n \<in> set ''%+=&''\<close> hex_to_byte_digit [OF assms, of upper]
    by (auto simp: hex_to_byte_def Let_def schar_def)
qed

lemma url_encode_plain:
  assumes "plain_in_query keep" and "c \<in> set ''+=&''"
  shows "c \<notin> set (url_encode keep upper s)"
proof (induction s)
  case Nil
  then show ?case by (simp add: url_encode_def)
next
  case (Cons d s)
  have "(of_char d :: nat) div 16 < 16"
    by (rule less_mult_imp_div_less) (simp add: char_code_less)
  then have "c \<notin> set (encode_char keep upper d)"
    using assms hex_digit_plain [of "of_char d div 16" upper] hex_digit_plain [of "of_char d mod 16" upper]
    by (auto simp: encode_char_def plain_in_query_def)
  then show ?case
    using Cons by (simp add: url_encode_def)
qed

lemma add_param_pair:
  assumes keep: "plain_in_query keep" and len: "length (pair_text keep upper (k, v)) < 2 ^ 64"
  shows "add_param (pair_text keep upper (k, v)) m = m(k \<mapsto> v)"
proof -
  let ?k = "url_encode keep upper k" and ?v = "url_encode keep upper v"
  have dec: "url_decode (url_encode keep upper x) = Some x" for x
    by (rule url_decode_url_encode) (use keep in \<open>auto simp: plain_in_query_def\<close>)
  have ix: "index_of (CHR ''='') (?k @ CHR ''='' # ?v) = Some (length ?k)"
    by (rule index_of_append) (use url_encode_plain [OF keep] in auto)
  have l: "length ?k + 1 + length ?v < 2 ^ 64"
    using len by (simp add: pair_text_def)
  then have small: "unat (of_nat (length ?k) :: u64) = length ?k" "unat (of_nat (length ?k + length ?v) :: u64) = length ?k + length ?v"
      "unat (of_nat (length ?k + 1) :: u64) = length ?k + 1"
    by (simp_all only: unat_of_nat, simp_all)
  have "of_nat (length (pair_text keep upper (k, v))) - 1 = (of_nat (length ?k + length ?v) :: u64)"
    by (simp add: pair_text_def)
  moreover have "of_nat (length ?k + length ?v) \<le> (of_nat (length ?k) :: u64) \<longleftrightarrow> length ?v = 0"
    unfolding word_le_nat_alt small by simp
  moreover have "of_nat (length ?k) + 1 = (of_nat (length ?k + 1) :: u64)"
    by simp
  moreover have "?v = [] \<longleftrightarrow> v = []"
    by (cases v) (auto simp: url_encode_def encode_char_def)
  ultimately show ?thesis
    using small ix dec [of k] dec [of v]
    by (simp add: add_param_def find_char_def pair_text_def Let_def del: of_nat_add of_nat_Suc)
qed

lemma query_text_nonempty: "ps \<noteq> [] \<Longrightarrow> query_text keep upper ps \<noteq> []"
  by (cases "(keep, upper, ps)" rule: query_text.cases) (auto simp: pair_text_def)

lemma each_param_query:
  assumes keep: "plain_in_query keep" and "ps \<noteq> []" and "length (query_text keep upper ps) < 2 ^ 64"
  shows "each_param (query_text keep upper ps) m = m ++ map_of (rev ps)"
  using assms
proof (induction keep upper ps arbitrary: m rule: query_text.induct)
  case (1 keep upper)
  then show ?case by simp
next
  case (2 keep upper kv)
  have "CHR ''&'' \<notin> set (pair_text keep upper kv)"
    using url_encode_plain [OF 2(1)] by (auto simp: pair_text_def)
  then have "index_of (CHR ''&'') (pair_text keep upper kv) = None"
    by (simp add: index_of_None)
  then show ?case
    using 2 add_param_pair [OF 2(1), of upper "fst kv" "snd kv" m]
    by (subst each_param.simps) simp
next
  case (3 keep upper kv kv' ps)
  let ?r = "query_text keep upper (kv' # ps)"
  have "CHR ''&'' \<notin> set (pair_text keep upper kv)"
    using url_encode_plain [OF 3(2)] by (auto simp: pair_text_def)
  then have ix: "index_of (CHR ''&'') (pair_text keep upper kv @ CHR ''&'' # ?r) = Some (length (pair_text keep upper kv))"
    by (rule index_of_append)
  have len: "length (pair_text keep upper kv) < 2 ^ 64" "length ?r < 2 ^ 64"
    using 3(4) by simp_all
  have "each_param (query_text keep upper (kv # kv' # ps)) m = each_param ?r (add_param (pair_text keep upper kv) m)"
    using ix by (subst each_param.simps) simp
  also have "\<dots> = (add_param (pair_text keep upper kv) m) ++ map_of (rev (kv' # ps))"
    by (rule 3(1) [OF 3(2) _ len(2)]) simp
  also have "add_param (pair_text keep upper kv) m = m(fst kv \<mapsto> snd kv)"
    using add_param_pair [OF 3(2), of upper "fst kv" "snd kv" m] len(1) by simp
  also have "m(fst kv \<mapsto> snd kv) ++ map_of (rev (kv' # ps)) = m ++ map_of (rev (kv # kv' # ps))"
    by (rule ext) (simp add: map_add_def split: option.splits)
  finally show ?case .
qed

lemma add_param_empty: "add_param [] m = m([] \<mapsto> [])"
  by (simp add: add_param_def find_char_def Let_def)

lemma set_query_param_path:
  assumes "CHR ''?'' \<notin> set path"
  shows "set_query_param path m = (path, m)" and "set_query_param (path @ CHR ''?'' # r) m = (path, each_param r m)"
  using assms index_of_append [of "CHR ''?''" path r] index_of_None [of "CHR ''?''" path]
  by (simp_all add: set_query_param_def)

section \<open>Paths and bodies\<close>

lemma unat_max [simp]: "unat (- 1 :: u64) = 2 ^ 64 - 1"
  by (simp add: unsigned_minus_1_eq_mask mask_eq_exp_minus_1)

lemma split_path_two:
  assumes "CHR ''/'' \<notin> set svc" and "length svc + length fn + 2 < 2 ^ 64"
  shows "split_path (CHR ''/'' # svc @ CHR ''/'' # fn) = rok (svc, fn)"
proof -
  have ix: "index_of (CHR ''/'') (svc @ CHR ''/'' # fn) = Some (length svc)"
    using assms(1) by (rule index_of_append)
  have small: "unat (of_nat (length svc) :: u64) = length svc" "unat (of_nat (length svc + 2) :: u64) = length svc + 2"
    using assms(2) by (simp_all only: unat_of_nat, simp_all)
  have "of_nat (length svc) + 2 = (of_nat (length svc + 2) :: u64)"
    by simp
  then show ?thesis
    using ix small assms(2) by (simp add: split_path_def substr_def find_char_def Let_def del: of_nat_add of_nat_Suc)
qed

lemma split_path_one:
  assumes "CHR ''/'' \<notin> set svc" and "length svc < 2 ^ 64 - 1"
  shows "split_path (c # svc) = rok (svc, svc)"
proof -
  have "index_of (CHR ''/'') svc = None"
    using assms(1) by (simp add: index_of_None)
  then show ?thesis
    using assms(2) by (simp add: split_path_def substr_def find_char_def)
qed

lemma split_path_empty: "split_path [] = rfail Out_of_range"
  by (simp add: split_path_def substr_def)

lemma decimal_is_digit: "c \<in> set (decimal n) \<Longrightarrow> is_digit c"
  using decimal_chars [of c n] by (auto simp: is_digit_def schar_code)

lemma digit_not_space: "is_digit c \<Longrightarrow> \<not> is_space c \<and> c \<noteq> CHR ''-'' \<and> c \<noteq> CHR ''+''"
  by (auto simp: is_digit_def is_space_def schar_def)

lemma decimal_cons: "\<exists>c ds. decimal n = c # ds \<and> is_digit c"
  using decimal_is_digit [of _ n] by (subst (asm) decimal.simps, subst decimal.simps) (cases "decimal (n div 10)", auto)

lemma takeWhile_digits: "r = [] \<or> \<not> is_digit (hd r) \<Longrightarrow> takeWhile is_digit (decimal n @ r) = decimal n"
  using decimal_is_digit [of _ n] by (cases r) (auto simp: takeWhile_append)

lemma strtol10_decimal:
  assumes sp: "\<forall>c \<in> set sp. is_space c" and r: "r = [] \<or> \<not> is_digit (hd r)"
  shows "strtol10 (sp @ decimal n @ r) = min (2 ^ 63 - 1) (int n)"
    and "strtol10 (sp @ CHR ''-'' # decimal n @ r) = max (- (2 ^ 63)) (- int n)"
proof -
  obtain c ds where cd: "decimal n = c # ds" "is_digit c"
    using decimal_cons [of n] by auto
  have w: "dropWhile is_space (sp @ x) = dropWhile is_space x" for x
    using sp by (induction sp) auto
  note c = digit_not_space [OF cd(2)]
  have "dropWhile is_space (sp @ decimal n @ r) = decimal n @ r"
    unfolding w using c by (simp add: cd)
  moreover have "hd (decimal n @ r) \<noteq> CHR ''-''" "hd (decimal n @ r) \<noteq> CHR ''+''"
    using c by (simp_all add: cd)
  ultimately show "strtol10 (sp @ decimal n @ r) = min (2 ^ 63 - 1) (int n)"
    using takeWhile_digits [OF r, of n] by (simp add: strtol10_def Let_def)
  have "dropWhile is_space (sp @ CHR ''-'' # decimal n @ r) = CHR ''-'' # decimal n @ r"
    unfolding w by (simp add: is_space_def)
  then show "strtol10 (sp @ CHR ''-'' # decimal n @ r) = max (- (2 ^ 63)) (- int n)"
    using takeWhile_digits [OF r, of n] by (simp add: strtol10_def Let_def)
qed

lemma unat_small_int: "n < 2 ^ 63 \<Longrightarrow> unat (word_of_int (int n) :: u64) = n"
  by (simp add: unsigned_of_nat take_bit_nat_eq_self)

lemma len64: "LENGTH(64) = 64"
  by simp

lemma unat_negative_int:
  assumes "0 < n" and "n \<le> 2 ^ 63"
  shows "unat (word_of_int (- int n) :: u64) = 2 ^ 64 - n"
proof -
  have "(- int n) mod 2 ^ 64 = (- int n + 2 ^ 64) mod 2 ^ 64"
    by (simp only: mod_add_self2)
  also have "\<dots> = 2 ^ 64 - int n"
    using assms by (subst mod_pos_pos_trivial) auto
  finally have "(- int n) mod 2 ^ 64 = 2 ^ 64 - int n" .
  then have "uint (word_of_int (- int n) :: u64) = 2 ^ 64 - int n"
    by (simp only: uint_word_of_int len64)
  then have "unat (word_of_int (- int n) :: u64) = nat (2 ^ 64 - int n)"
    by (simp only: nat_uint_eq [symmetric])
  also have "2 ^ 64 - int n = int (2 ^ 64 - n)"
    using assms by (simp add: of_nat_diff)
  also have "nat (int (2 ^ 64 - n)) = 2 ^ 64 - n"
    by (rule nat_int)
  finally show ?thesis .
qed

lemma handle_body:
  assumes path: "CHR ''?'' \<notin> set path" and url: "q_url req = path @ CHR ''?'' # r"
    and n: "length_header lib req = len"
  shows "handle lib cpu clock now req_id (Some req) stream s =
    rbind (if len = 0 then rok (q_content req, stream) else read_exactly lib (unat len) stream) (\<lambda>(body, rest).
    rbind (split_path path) (\<lambda>(service, fn).
      rbind (new_req cpu clock now req_id (service @ ''.js'') fn (json_args lib (c_pairs (q_headers req))
          (c_pairs (iterate lib (each_param r (query_parameters req)))) (c_str body)) s)
        (\<lambda>s. rok (rest, s))))"
proof (cases "len = 0")
  case True
  then show ?thesis
    using set_query_param_path(2) [OF path] url n by (simp add: handle_def read_request_body_def call_args_def split_def)
next
  case False
  then show ?thesis
    using set_query_param_path(2) [OF path] url n
    by (auto simp: handle_def read_request_body_def call_args_def split_def rbind_def rok_def split: option.split sum.split)
qed

text \<open>The part of \<^verbatim>\<open>handle\<close> after the body has been read: the rest of it depends on the state only through \<open>new_req\<close>.\<close>

definition body_read :: "http_lib \<Rightarrow> http_request \<Rightarrow> string \<Rightarrow> bool" where
  "body_read lib req stream \<longleftrightarrow> (length_header lib req \<noteq> 0 \<longrightarrow>
     (\<exists>body rest. read_exactly lib (unat (length_header lib req)) stream = rok (body, rest)))"

lemma handle_calls:
  assumes "body_read lib req stream"
    and "split_path (fst (set_query_param (q_url req) (query_parameters req))) = rok (service, fn)"
  shows "\<exists>args rest. \<forall>cpu clock now req_id s. handle lib cpu clock now req_id (Some req) stream s =
    rbind (new_req cpu clock now req_id (service @ ''.js'') fn args s) (\<lambda>s. rok (rest, s))"
proof -
  obtain req' rest where body: "read_request_body lib stream (req\<lparr>content_length := length_header lib req\<rparr>) = rok (req', rest)"
    and same: "q_url req' = q_url req" "query_parameters req' = query_parameters req"
    using assms(1) by (cases "length_header lib req = 0") (auto simp: read_request_body_def body_read_def)
  obtain url ps where q: "set_query_param (q_url req) (query_parameters req) = (url, ps)"
    by fastforce
  have "handle lib cpu clock now req_id (Some req) stream s =
      rbind (new_req cpu clock now req_id (service @ ''.js'') fn (call_args lib (req'\<lparr>query_parameters := ps\<rparr>)) s) (\<lambda>s. rok (rest, s))"
    for cpu clock now req_id s
    using assms(2) same q by (simp add: handle_def body Let_def)
  then show ?thesis
    by blast
qed

text \<open>
  Every request whose path is not empty and whose body can be read is accepted: from a consistent state
  \<^verbatim>\<open>handle\<close> returns, the state is consistent, and the promise of the response waits under the key of the request.
\<close>

lemma handle_returns:
  assumes "sched_inv n s" and "cpu < n"
    and "HW_Q_COUNT < n \<longrightarrow> (\<exists>k. HW_Q_COUNT \<le> k \<and> k < n \<and> till s k \<noteq> - 1)"
    and "split_path (fst (set_query_param (q_url req) (query_parameters req))) = rok (svc, fn)" and "body_read lib req stream"
  shows "\<exists>rest s'. handle lib cpu clock now req_id (Some req) stream s = rok (rest, s') \<and> sched_inv n s' \<and>
    req_map (shards s' ! cpu) (reply_key (svc @ ''.js'') req_id) = Some (Some Local_reply)"
proof -
  obtain args rest where h: "\<And>s. handle lib cpu clock now req_id (Some req) stream s =
      rbind (new_req cpu clock now req_id (svc @ ''.js'') fn args s) (\<lambda>s. rok (rest, s))"
    using handle_calls [OF assms(5,4)] by blast
  show ?thesis
    using new_req_returns [OF assms(1-3), of clock now req_id "svc @ ''.js''" fn args] by (fastforce simp: h)
qed

text \<open>A \<^verbatim>\<open>%\<close> with fewer than two characters after it.\<close>

definition cut_percent :: "string \<Rightarrow> bool" where
  "cut_percent s \<longleftrightarrow> (\<exists>p r. s = p @ CHR ''%'' # r \<and> length r < 2)"

lemma cut_percent_append: "cut_percent r \<Longrightarrow> cut_percent (w @ r)"
  unfolding cut_percent_def by (metis append.assoc)

lemma url_decode_None: "url_decode s = None \<Longrightarrow> cut_percent s"
proof (induction s rule: url_decode.induct)
  case 1
  then show ?case by simp
next
  case (2 c r)
  have one: "url_decode r = None \<Longrightarrow> c \<noteq> CHR ''%'' \<Longrightarrow> cut_percent (c # r)"
    using 2(2,3) cut_percent_append [of r "[c]"] by (cases "c = CHR ''+''") simp_all
  show ?case
  proof (cases "c = CHR ''%'' \<and> 2 \<le> length r")
    case True
    then obtain a b r' where r: "r = a # b # r'"
      by (metis Suc_le_length_iff numeral_2_eq_2)
    then have "cut_percent r'"
      using 2(1) [of a "b # r'" b r'] 2(4) True by simp
    then show ?thesis
      using cut_percent_append [of r' "[c, a, b]"] r by simp
  next
    case False
    show ?thesis
    proof (cases "c = CHR ''%''")
      case True
      then have "c # r = [] @ CHR ''%'' # r \<and> length r < 2"
        using False by simp
      then show ?thesis
        unfolding cut_percent_def by blast
    next
      case False
      then show ?thesis
        using one 2(4) by (simp split: if_splits)
    qed
  qed
qed

lemma url_decode_length: "url_decode s = Some t \<Longrightarrow> length t \<le> length s"
proof (induction s arbitrary: t rule: url_decode.induct)
  case 1
  then show ?case by simp
next
  case (2 c r)
  show ?case
  proof (cases "c = CHR ''%''")
    case True
    then obtain a b r' where r: "r = a # b # r'"
      using 2(4) by (cases r; cases "tl r") auto
    then obtain u where "url_decode r' = Some u" "length t = Suc (length u)"
      using 2(4) True by auto
    then show ?thesis
      using 2(1) [OF True r refl] r by fastforce
  next
    case False
    then obtain u where "url_decode r = Some u" "length t = Suc (length u)"
      using 2(4) by (auto split: if_splits)
    then show ?thesis
      using 2(2,3) False by (cases "c = CHR ''+''") fastforce+
  qed
qed

section \<open>Properties\<close>

text \<open>
  \<^verbatim>\<open>url_decode\<close> gives back every text that was encoded with two hexadecimal digits, upper or lower
  case, for the characters that are not kept, whichever are kept as long as \<^verbatim>\<open>%\<close> and \<^verbatim>\<open>+\<close> are not.
\<close>

theorem url_decode_encoded:
  assumes "\<not> keep (CHR ''%'')" and "\<not> keep (CHR ''+'')"
  shows "url_decode (url_encode keep upper s) = Some s"
  by (rule url_decode_url_encode) (use assms in auto)

text \<open>
  C38. The result of \<^verbatim>\<open>url_decode\<close> fits the buffer of the length of its input, and only a \<^verbatim>\<open>%\<close> with
  fewer than two characters after it makes it fail: the two characters need not be hexadecimal
  digits, as every letter up to \<^verbatim>\<open>z\<close> counts as a digit and the value is cut to eight bits.
\<close>

theorem url_decode_bounds:
  "(case url_decode s of Some t \<Rightarrow> length t \<le> length s | None \<Rightarrow> cut_percent s) \<and>
    url_decode (''%zz'' @ s) = map_option ((#) (CHR ''S'')) (url_decode s)"
proof -
  have "hexstr_to_char (CHR ''z'') (CHR ''z'') = CHR ''S''"
    by code_simp
  then show ?thesis
    using url_decode_length [of s] url_decode_None [of s] by (auto split: option.splits)
qed

text \<open>
  C21. \<^verbatim>\<open>set_query_param\<close> reads back every nonempty list of parameters from its query string, the last
  value of a name that occurs twice, and returns the path before the question mark.
\<close>

theorem query_string_read:
  assumes "plain_in_query keep" and "ps \<noteq> []" and "length (query_text keep upper ps) < 2 ^ 64" and "CHR ''?'' \<notin> set path"
  shows "set_query_param (path @ CHR ''?'' # query_text keep upper ps) Map.empty = (path, map_of (rev ps))"
  using set_query_param_path(2) [OF assms(4)] each_param_query [OF assms(1-3)] by simp

theorem query_string_read_witness:
  "set_query_param (''/s/f'' @ CHR ''?'' # query_text (\<lambda>c. c = CHR ''a'') True [(''a'', ''&''), (''b='', ''''), (''a'', ''x'')]) Map.empty
    = (''/s/f'', map_of (rev [(''a'', ''&''), (''b='', ''''), (''a'', ''x'')]))"
  by (rule query_string_read) (simp_all add: plain_in_query_def pair_text_def url_encode_def encode_char_def)

text \<open>
  An empty query string, and an empty part between ampersands, adds a parameter with the empty
  name: the length minus one wraps to the value that \<^verbatim>\<open>find\<close> returns for no match.
\<close>

lemma empty_parameter:
  assumes "CHR ''?'' \<notin> set path"
  shows "set_query_param (path @ ''?'') m = (path, m([] \<mapsto> [])) \<and>
    set_query_param (path @ ''?&'' @ r) m = set_query_param (path @ CHR ''?'' # r) (m([] \<mapsto> []))"
  using set_query_param_path(2) [OF assms] by (simp add: each_param.simps [of "CHR ''&'' # r"] each_param.simps [of "[]"] add_param_empty)

text \<open>
  C39. The path \<^verbatim>\<open>/service/function\<close> is split at the second slash, whatever the function contains; a
  path without a second slash names its only part as the service and as the function, because
  \<^verbatim>\<open>npos + 2\<close> is 1; the empty path raises \<^verbatim>\<open>out_of_range\<close>.
\<close>

theorem split_path_cases:
  assumes "CHR ''/'' \<notin> set svc" and "length svc + length fn + 2 < 2 ^ 64"
  shows "split_path (CHR ''/'' # svc @ CHR ''/'' # fn) = rok (svc, fn) \<and>
    split_path (CHR ''/'' # svc) = rok (svc, svc) \<and> split_path [] = rfail Out_of_range"
  using split_path_two [OF assms] split_path_one [OF assms(1)] assms(2) split_path_empty by simp

theorem split_path_cases_witness: "split_path ''/user/a/b'' = rok (''user'', ''a/b'')"
  using split_path_cases [of "''user''" "''a/b''"] by simp

text \<open>
  C20. A request for \<^verbatim>\<open>/service/function\<close> with parameters and a decimal \<^verbatim>\<open>Content-Length\<close>: exactly
  the announced bytes are taken from the connection, and the scheduler gets a new request for the
  script of the service with the function, the parameters, the headers and the content. Of \<^verbatim>\<open>read_exactly\<close>
  it is relied on that it gives the bytes asked for, or all that there are at the end of the stream.
\<close>

theorem handle_request:
  assumes "q_url req = (CHR ''/'' # svc @ CHR ''/'' # fn) @ CHR ''?'' # query_text keep upper ps"
    and "CHR ''/'' \<notin> set svc" and "CHR ''?'' \<notin> set svc \<union> set fn" and "length svc + length fn + 2 < 2 ^ 64"
    and "plain_in_query keep" and "ps \<noteq> []" and "length (query_text keep upper ps) < 2 ^ 64"
    and "query_parameters req = Map.empty" and "q_content req = []"
    and "get_header lib ''Content-Length'' (q_headers req) = decimal n" and "n < 2 ^ 63"
    and "n \<noteq> 0 \<Longrightarrow> read_exactly lib n stream = rok (take n stream, drop n stream)"
  shows "handle lib cpu clock now req_id (Some req) stream s =
    rbind (new_req cpu clock now req_id (svc @ ''.js'') fn (json_args lib (c_pairs (q_headers req))
        (c_pairs (iterate lib (map_of (rev ps)))) (c_str (take n stream))) s)
      (\<lambda>s. rok (drop n stream, s))"
proof -
  have path: "CHR ''?'' \<notin> set (CHR ''/'' # svc @ CHR ''/'' # fn)"
    using assms(3) by auto
  have "strtol10 (decimal n) = int n"
    using strtol10_decimal(1) [of "[]" "[]" n] assms(11) by simp
  then have len: "length_header lib req = word_of_int (int n)"
    by (simp only: length_header_def assms(10))
  have n: "unat (word_of_int (int n) :: u64) = n"
    by (rule unat_small_int [OF assms(11)])
  then have "(word_of_int (int n) :: u64) = 0 \<longleftrightarrow> n = 0"
    by (metis unat_eq_zero)
  then have "(if (word_of_int (int n) :: u64) = 0 then rok (q_content req, stream)
      else read_exactly lib (unat (word_of_int (int n) :: u64)) stream) = rok (take n stream, drop n stream)"
    using assms(9,12) n by simp
  then show ?thesis
    unfolding handle_body [OF path assms(1) len] using split_path_two [OF assms(2,4)]
      each_param_query [OF assms(5-7), of Map.empty] assms(8) by simp
qed

definition plain_lib :: http_lib where
  "plain_lib = \<lparr>get_header = (\<lambda>k hs. case map_of hs k of None \<Rightarrow> [] | Some v \<Rightarrow> v),
     read_exactly = (\<lambda>n s. if n < 2 ^ 32 then rok (take n s, drop n s) else rfail Bad_alloc), iterate = (\<lambda>m. []), json_args = (\<lambda>hs ps c. c)\<rparr>"

theorem handle_request_witness:
  "handle plain_lib 0 (1, 2, 3) 4 ''r9'' (Some \<lparr>q_url = ''/s/f?a=b'', q_version = ''1.1'',
      q_headers = [(''Content-Length'', decimal 2)], query_parameters = Map.empty, q_content = [], content_length = 0\<rparr>) ''xyz'' sys9
    = rbind (new_req 0 (1, 2, 3) 4 ''r9'' ''s.js'' ''f'' ''xy'' sys9) (\<lambda>s. rok (''z'', s))"
  using handle_request [of "\<lparr>q_url = ''/s/f?a=b'', q_version = ''1.1'',
      q_headers = [(''Content-Length'', decimal 2)], query_parameters = Map.empty, q_content = [], content_length = 0\<rparr>"
      "''s''" "''f''" "\<lambda>c. c \<in> set ''ab''" True "[(''a'', ''b'')]" plain_lib 2 "''xyz''" 0 "(1, 2, 3)" 4 "''r9''" sys9]
  by (simp add: plain_in_query_def pair_text_def url_encode_def encode_char_def plain_lib_def c_str_def)

text \<open>
  C40. A negative \<^verbatim>\<open>Content-Length\<close> is not refused: it becomes a \<^verbatim>\<open>size_t\<close> of at least \<open>2 ^ 63\<close>, and the handler
  asks the connection for a body of that size before it looks at the path. When \<^verbatim>\<open>read_exactly\<close> fails, for
  want of so much memory, its exception ends the handler and no request is made; if it returns, what it
  delivered is the body.
\<close>

theorem negative_length_read:
  assumes "get_header lib ''Content-Length'' (q_headers req) = CHR ''-'' # decimal n" and "0 < n" and "n \<le> 2 ^ 63"
    and "CHR ''?'' \<notin> set path" and "q_url req = path @ CHR ''?'' # r"
  shows "2 ^ 63 \<le> (2 ^ 64 - n :: nat) \<and>
    (\<forall>e. read_exactly lib (2 ^ 64 - n) stream = rfail e \<longrightarrow> handle lib cpu clock now req_id (Some req) stream s = rfail e) \<and>
    (\<forall>body rest. read_exactly lib (2 ^ 64 - n) stream = rok (body, rest) \<longrightarrow>
      handle lib cpu clock now req_id (Some req) stream s =
      rbind (split_path path) (\<lambda>(service, fn).
        rbind (new_req cpu clock now req_id (service @ ''.js'') fn (json_args lib (c_pairs (q_headers req))
            (c_pairs (iterate lib (each_param r (query_parameters req)))) (c_str body)) s)
          (\<lambda>s. rok (rest, s))))"
proof -
  have "strtol10 (CHR ''-'' # decimal n) = - int n"
    using strtol10_decimal(2) [of "[]" "[]" n] assms(3) by simp
  then have len: "length_header lib req = word_of_int (- int n)"
    by (simp only: length_header_def assms(1))
  have u: "unat (word_of_int (- int n) :: u64) = 2 ^ 64 - n"
    by (rule unat_negative_int [OF assms(2,3)])
  moreover have "2 ^ 63 \<le> (2 ^ 64 - n :: nat)"
    using assms(3) by simp
  ultimately have "(word_of_int (- int n) :: u64) \<noteq> 0"
    by (metis not_numeral_le_zero power_eq_0_iff unat_0 zero_neq_numeral le_zero_eq)
  then show ?thesis
    using \<open>2 ^ 63 \<le> (2 ^ 64 - n :: nat)\<close> unfolding handle_body [OF assms(4,5) len] u by simp
qed

text \<open>Minus one byte, with a connection that allocates at most 4 GiB.\<close>

theorem negative_length_read_witness:
  "handle plain_lib 0 (1, 2, 3) 4 ''r9'' (Some \<lparr>q_url = ''/s/f?'', q_version = ''1.1'',
      q_headers = [(''Content-Length'', ''-1'')], query_parameters = Map.empty, q_content = [], content_length = 0\<rparr>) ''xyz'' sys9
    = rfail Bad_alloc"
proof -
  let ?req = "\<lparr>q_url = ''/s/f?'', q_version = ''1.1'', q_headers = [(''Content-Length'', ''-1'')],
      query_parameters = Map.empty, q_content = [], content_length = 0\<rparr>"
  have h: "get_header plain_lib ''Content-Length'' (q_headers ?req) = CHR ''-'' # decimal 1"
    by (simp only: plain_lib_def http_lib.simps http_request.simps) code_simp
  have "read_exactly plain_lib (2 ^ 64 - 1) ''xyz'' = rfail Bad_alloc"
    by (simp add: plain_lib_def)
  then show ?thesis
    using negative_length_read [OF h, of "''/s/f''" "[]" "''xyz''"] by simp
qed

end
