(* ===== verification/Responses.thy ===== *)
theory Responses
  imports Scheduling
begin

text \<open>
  The response to a request: the continuation of \<^verbatim>\<open>scheduler::new_req\<close> (\<^verbatim>\<open>src/scheduler.cc\<close>), which
  runs when the promise of the request is fulfilled, and the headers prepared before. The response
  line and the content that seastar's \<^verbatim>\<open>reply\<close> makes of a status and a message, and the order of
  iteration over its header table, are parameters (\<open>reply_lib\<close>).

  The specification is a reader of responses: a status line, headers up to an empty line, and as many
  bytes of content as \<^verbatim>\<open>Content-Length\<close> says.
\<close>

section \<open>The date\<close>

record tm =
  tm_sec :: nat
  tm_min :: nat
  tm_hour :: nat
  tm_mday :: nat
  tm_mon :: nat
  tm_year :: nat                \<comment> \<open>since 1900\<close>
  tm_wday :: nat

definition days :: "string list" where
  "days = [''Sun'', ''Mon'', ''Tue'', ''Wed'', ''Thu'', ''Fri'', ''Sat'']"

definition months :: "string list" where
  "months = [''Jan'', ''Feb'', ''Mar'', ''Apr'', ''May'', ''Jun'',
     ''Jul'', ''Aug'', ''Sep'', ''Oct'', ''Nov'', ''Dec'']"

text \<open>\<^verbatim>\<open>{:02d}\<close>.\<close>

definition two_digits :: "nat \<Rightarrow> string" where
  "two_digits n = (if n < 10 then ''0'' else []) @ decimal n"

definition http_date :: "tm \<Rightarrow> string res" where
  "http_date t = (if tm_wday t < length days \<and> tm_mon t < length months
     then rok (days ! tm_wday t @ '', '' @ two_digits (tm_mday t) @ '' '' @ months ! tm_mon t @ '' '' @
       decimal (1900 + tm_year t) @ '' '' @ two_digits (tm_hour t) @ '':'' @ two_digits (tm_min t) @ '':'' @
       two_digits (tm_sec t) @ '' GMT'')
     else rfail Out_of_bounds)"

section \<open>The response\<close>

text \<open>The headers of the response; \<open>connection\<close> is the request's \<^verbatim>\<open>Connection\<close> header.\<close>

definition response_headers ::
  "string \<Rightarrow> string option \<Rightarrow> string \<Rightarrow> string \<Rightarrow> (string \<times> string) list" where
  "response_headers version connection date content =
     (if version = ''1.0'' \<and> connection = Some ''Keep-Alive''
      then [(''Connection'', ''Keep-Alive'')] else []) @
     [(''Server'', ''Seastar httpd''), (''Date'', date), (''Content-Length'', decimal (length content))]"

record reply_lib =
  response_line :: "string \<Rightarrow> js_reply \<Rightarrow> string"   \<comment> \<open>of the version, status and message\<close>
  content_of :: "js_reply \<Rightarrow> string"                 \<comment> \<open>\<^verbatim>\<open>_content\<close> after \<^verbatim>\<open>set_status\<close>\<close>
  header_order :: "(string \<times> string) list \<Rightarrow> (string \<times> string) list"

definition write_headers :: "(string \<times> string) list \<Rightarrow> string" where
  "write_headers hs = concat (map (\<lambda>h. fst h @ '': '' @ snd h @ crlf) hs)"

definition response_text ::
  "reply_lib \<Rightarrow> string \<Rightarrow> string option \<Rightarrow> tm \<Rightarrow> js_reply \<Rightarrow> string res" where
  "response_text lib version connection t rep = rbind (http_date t) (\<lambda>date.
     rok (response_line lib version rep @
       write_headers (header_order lib (response_headers version connection date (content_of lib rep))) @
       crlf @ content_of lib rep))"

section \<open>Reading a response\<close>

lemma until_crlf_less: "until_crlf s = Some (l, r) \<Longrightarrow> length r < length s"
  by (induction s arbitrary: l rule: until_crlf.induct) (auto split: if_splits option.splits)

definition read_header :: "string \<Rightarrow> string \<times> string" where
  "read_header l = (takeWhile (\<lambda>c. c \<noteq> CHR '':'') l, drop 2 (dropWhile (\<lambda>c. c \<noteq> CHR '':'') l))"

function read_headers :: "string \<Rightarrow> ((string \<times> string) list \<times> string) option" where
  "read_headers s = (case until_crlf s of
      None \<Rightarrow> None
    | Some (l, r) \<Rightarrow> if l = [] then Some ([], r)
        else map_option (\<lambda>(hs, r). (read_header l # hs, r)) (read_headers r))"
  by pat_completeness auto
termination
  by (relation "measure length") (auto dest: until_crlf_less)

declare read_headers.simps [simp del]

definition read_response :: "string \<Rightarrow> (string \<times> (string \<times> string) list \<times> string \<times> string) option" where
  "read_response s = (case until_crlf s of
      None \<Rightarrow> None
    | Some (l, r) \<Rightarrow> (case read_headers r of
        None \<Rightarrow> None
      | Some (hs, r) \<Rightarrow> (case map_of hs ''Content-Length'' of
          None \<Rightarrow> None
        | Some n \<Rightarrow> if length r < read_decimal n then None
            else Some (l, hs, take (read_decimal n) r, drop (read_decimal n) r))))"

text \<open>Headers that can be written on a line.\<close>

definition plain_header :: "string \<times> string \<Rightarrow> bool" where
  "plain_header h \<longleftrightarrow> fst h \<noteq> [] \<and> CHR '':'' \<notin> set (fst h) \<and> CR \<notin> set (fst h) \<and> CR \<notin> set (snd h)"

lemma read_write_headers:
  assumes "list_all plain_header hs"
  shows "read_headers (write_headers hs @ CR # LF # r) = Some (hs, r)"
  using assms
proof (induction hs)
  case Nil
  then show ?case
    by (subst read_headers.simps) (simp add: write_headers_def)
next
  case (Cons h hs)
  let ?l = "fst h @ '': '' @ snd h"
  have "CR \<notin> set ?l" and key: "CHR '':'' \<notin> set (fst h)"
    using Cons.prems by (auto simp: plain_header_def)
  then have line: "until_crlf (?l @ CR # LF # (write_headers hs @ CR # LF # r)) = Some (?l, write_headers hs @ CR # LF # r)"
    by (intro until_crlf_line)
  have "read_header ?l = h"
    using key by (cases h) (auto simp: read_header_def takeWhile_append dropWhile_append)
  then show ?case
    using Cons line by (subst read_headers.simps) (simp add: write_headers_def)
qed

lemma decimal_year:
  assumes "1000 \<le> n" and "n < 10000"
  shows "length (decimal n) = 4"
proof -
  have step: "10 \<le> k \<Longrightarrow> length (decimal k) = Suc (length (decimal (k div 10)))" for k
    by (subst decimal.simps) simp
  have one: "k < 10 \<Longrightarrow> length (decimal k) = 1" for k
    by (subst decimal.simps) simp
  have "10 \<le> n div 10" "10 \<le> n div 10 div 10" "n div 10 div 10 div 10 < 10"
    using assms by (simp_all add: div_mult2_eq [symmetric] less_mult_imp_div_less)
  then show ?thesis
    using step [of n] step [of "n div 10"] step [of "n div 10 div 10"] one [of "n div 10 div 10 div 10"] assms by simp
qed

lemma length_two_digits: "n < 100 \<Longrightarrow> length (two_digits n) = 2"
proof (cases "n < 10")
  case True
  then show ?thesis
    by (simp add: two_digits_def) (subst decimal.simps, simp)
next
  case False
  assume "n < 100"
  then have "n div 10 < 10"
    by (simp add: less_mult_imp_div_less)
  then have "length (decimal (n div 10)) = 1"
    by (subst decimal.simps) simp
  then show ?thesis
    using False by (simp add: two_digits_def) (subst decimal.simps, simp)
qed

lemma day_month:
  "i < length days \<Longrightarrow> length (days ! i) = 3 \<and> CR \<notin> set (days ! i)"
  "i < length months \<Longrightarrow> length (months ! i) = 3 \<and> CR \<notin> set (months ! i)"
proof -
  have "list_all (\<lambda>d. length d = 3 \<and> CR \<notin> set d) days" "list_all (\<lambda>d. length d = 3 \<and> CR \<notin> set d) months"
    by (simp_all add: days_def months_def)
  then show "i < length days \<Longrightarrow> length (days ! i) = 3 \<and> CR \<notin> set (days ! i)"
    "i < length months \<Longrightarrow> length (months ! i) = 3 \<and> CR \<notin> set (months ! i)"
    by (simp_all add: list_all_length)
qed

text \<open>A time as \<^verbatim>\<open>gmtime_r\<close> gives it, up to the year 9999.\<close>

definition tm_ok :: "tm \<Rightarrow> bool" where
  "tm_ok t \<longleftrightarrow> tm_wday t < 7 \<and> tm_mon t < 12 \<and> tm_mday t < 32 \<and> tm_hour t < 24 \<and> tm_min t < 60 \<and> tm_sec t \<le> 60 \<and>
     tm_year t < 8100"

lemma http_date_format:
  assumes "tm_ok t"
  shows "\<exists>d. http_date t = rok d \<and> length d = 29 \<and> CR \<notin> set d"
proof -
  have l: "length days = 7" "length months = 12"
    by (simp_all add: days_def months_def)
  have dm: "length (days ! tm_wday t) = 3 \<and> CR \<notin> set (days ! tm_wday t)"
    "length (months ! tm_mon t) = 3 \<and> CR \<notin> set (months ! tm_mon t)"
    using day_month assms by (simp_all add: tm_ok_def l)
  have "CR \<notin> set (two_digits n)" for n
    by (simp add: two_digits_def)
  then show ?thesis
    using dm l assms decimal_year [of "1900 + tm_year t"]
    by (simp add: http_date_def tm_ok_def length_two_digits)
qed

lemma response_read_back:
  assumes "tm_ok t" and "response_line lib version rep = l @ crlf" and "CR \<notin> set l"
    and order: "\<And>hs. mset (header_order lib hs) = mset hs"
  shows "\<exists>text hs d. response_text lib version connection t rep = rok text \<and>
    read_response (text @ rest) = Some (l, hs, content_of lib rep, rest) \<and> length d = 29 \<and> http_date t = rok d \<and>
    mset hs = mset (response_headers version connection d (content_of lib rep)) \<and>
    map_of hs ''Content-Length'' = Some (decimal (length (content_of lib rep)))"
proof -
  obtain d where d: "http_date t = rok d" "length d = 29" "CR \<notin> set d"
    using http_date_format [OF assms(1)] by blast
  let ?c = "content_of lib rep"
  define hs0 where "hs0 = response_headers version connection d ?c"
  define hs where "hs = header_order lib hs0"
  have m: "set hs = set hs0" "distinct (map fst hs) = distinct (map fst hs0)"
    unfolding hs_def using order [of hs0] mset_eq_setD mset_eq_imp_distinct_iff mset_map by metis+
  have "list_all plain_header hs0"
    using d(3) by (auto simp: hs0_def response_headers_def plain_header_def)
  then have plain: "list_all plain_header hs"
    using m(1) by (simp add: list_all_iff)
  have "distinct (map fst hs0)"
    by (auto simp: hs0_def response_headers_def)
  moreover have "(''Content-Length'', decimal (length ?c)) \<in> set hs0"
    by (auto simp: hs0_def response_headers_def)
  ultimately have cl: "map_of hs ''Content-Length'' = Some (decimal (length ?c))"
    using m by (simp add: map_of_eq_Some_iff)
  let ?text = "response_line lib version rep @ write_headers hs @ crlf @ ?c"
  have "until_crlf (?text @ rest) = Some (l, write_headers hs @ CR # LF # ?c @ rest)"
    using until_crlf_line [OF assms(3), of "write_headers hs @ CR # LF # ?c @ rest"] assms(2) by simp
  then have "read_response (?text @ rest) = Some (l, hs, ?c, rest)"
    using read_write_headers [OF plain, of "?c @ rest"] cl by (simp add: read_response_def)
  moreover have "response_text lib version connection t rep = rok ?text"
    using d(1) by (simp add: response_text_def hs_def hs0_def)
  ultimately show ?thesis
    using cl d order [of hs0] unfolding hs_def hs0_def by blast
qed

section \<open>Properties\<close>

text \<open>
  C22. A client that reads a status line, the headers and \<^verbatim>\<open>Content-Length\<close> bytes finds the whole
  response and stops exactly at its end, whatever bytes the content has: the headers are the server,
  the date in 29 characters, the length, and \<^verbatim>\<open>Connection: Keep-Alive\<close> exactly for a request of
  version 1.0 that asked for it.
\<close>

theorem response_framed:
  assumes "tm_ok t" and "response_line lib version rep = l @ crlf" and "CR \<notin> set l"
    and order: "\<And>hs. mset (header_order lib hs) = mset hs"
  shows "\<exists>text hs d. response_text lib version connection t rep = rok text \<and>
    read_response (text @ rest) = Some (l, hs, content_of lib rep, rest) \<and> length d = 29 \<and> http_date t = rok d \<and>
    mset hs = mset (response_headers version connection d (content_of lib rep)) \<and>
    map_of hs ''Content-Length'' = Some (decimal (length (content_of lib rep)))"
  by (rule response_read_back [OF assms])

theorem response_framed_witness:
  "\<exists>text hs d. response_text \<lparr>response_line = (\<lambda>v r. ''HTTP/'' @ v @ '' 200 OK'' @ crlf), content_of = r_message, header_order = rev\<rparr>
      ''1.1'' None \<lparr>tm_sec = 37, tm_min = 49, tm_hour = 8, tm_mday = 6, tm_mon = 10, tm_year = 94, tm_wday = 0\<rparr>
      \<lparr>r_status = 200, r_message = ''hi''\<rparr> = rok text \<and>
    read_response (text @ ''HTTP'') = Some (''HTTP/1.1 200 OK'', hs, ''hi'', ''HTTP'') \<and> length (d :: string) = 29"
  using response_framed [of "\<lparr>tm_sec = 37, tm_min = 49, tm_hour = 8, tm_mday = 6, tm_mon = 10, tm_year = 94, tm_wday = 0\<rparr>"
    "\<lparr>response_line = (\<lambda>v r. ''HTTP/'' @ v @ '' 200 OK'' @ crlf), content_of = r_message, header_order = rev\<rparr>" "''1.1''"
    "\<lparr>r_status = 200, r_message = ''hi''\<rparr>" "''HTTP/1.1 200 OK''" None "''HTTP''"]
  by (auto simp: tm_ok_def)

end
