(* ===== verification/Reply_Builder.thy ===== *)
theory Reply_Builder
  imports Text
begin

text \<open>
  The replies of the Redis protocol: \<^verbatim>\<open>src/include/reply_builder.hh\<close> and the message constants of
  \<^verbatim>\<open>src/include/seastarkv.hh\<close>. A message is the text that is sent. \<^verbatim>\<open>to_sstring(double)\<close> is a
  parameter. The specification is a reader of replies, as a Redis client reads them.
\<close>

section \<open>Messages\<close>

definition msg_crlf :: string where "msg_crlf = crlf"
definition msg_str_tag :: string where "msg_str_tag = ''+''"
definition msg_num_tag :: string where "msg_num_tag = '':''"
definition msg_sigle_tag :: string where "msg_sigle_tag = ''*''"
definition msg_batch_tag :: string where "msg_batch_tag = ''$''"

text \<open>The constant messages, each with what it says, in the order of the source.\<close>

datatype resp =
    Status string
  | Error string
  | Number int
  | Bulk "string option"        \<comment> \<open>\<open>None\<close> is the null reply\<close>
  | Multi int                   \<comment> \<open>the number of replies that follow, \<open>-1\<close> for the null reply\<close>

definition messages :: "(string \<times> string) list" where
  "messages = [
     (''msg_ok'', ''+OK'' @ crlf),
     (''msg_pong'', ''+PONG'' @ crlf),
     (''msg_err'', ''-ERR'' @ crlf),
     (''msg_zero'', '':0'' @ crlf),
     (''msg_one'', '':1'' @ crlf),
     (''msg_neg_one'', '':-1'' @ crlf),
     (''msg_neg_two'', '':-2'' @ crlf),
     (''msg_null_blik'', ''$-1'' @ crlf),
     (''msg_null_multi_bulk'', ''*-1'' @ crlf),
     (''msg_empty_multi_bulk'', ''*0'' @ crlf),
     (''msg_type_err'', ''-WRONGTYPE Operation against a key holding the wrong kind of value'' @ crlf),
     (''msg_nokey_err'', ''-ERR no such key'' @ crlf),
     (''msg_syntax_err'', ''-ERR syntax error'' @ crlf),
     (''msg_same_object_err'', ''-ERR source and destination objects are the same'' @ crlf),
     (''msg_out_of_range_err'', ''-ERR index out of range'' @ crlf),
     (''msg_not_integer_err'', ''-ERR ERR hash value is not an integer'' @ crlf),
     (''msg_not_float_err'', ''-ERR ERR hash value is not an float'' @ crlf),
     (''msg_not_found'', ''+(nil)'' @ crlf),
     (''msg_nil'', ''+(nil)'' @ crlf),
     (''msg_type_string'', ''+string'' @ crlf),
     (''msg_type_none'', ''+none'' @ crlf),
     (''msg_type_list'', ''+list'' @ crlf),
     (''msg_type_hll'', ''+hyperloglog'' @ crlf),
     (''msg_type_set'', ''+set'' @ crlf),
     (''msg_type_zset'', ''+zset'' @ crlf),
     (''msg_type_hash'', ''+hash'' @ crlf)]"

section \<open>The builder\<close>

definition build_size :: "nat \<Rightarrow> string" where
  "build_size n = msg_num_tag @ decimal n @ msg_crlf"

definition build_double :: "('d \<Rightarrow> string) \<Rightarrow> 'd \<Rightarrow> string" where
  "build_double to_sstring number = (let n = to_sstring number in
     msg_batch_tag @ decimal (length n) @ msg_crlf @ n @ msg_crlf)"

definition build_message :: "string \<Rightarrow> string" where
  "build_message message = message"

definition build_bulk :: "string \<Rightarrow> nat \<Rightarrow> string" where
  "build_bulk message n = msg_batch_tag @ decimal n @ msg_crlf @ message @ msg_crlf"

definition build_direct :: "string \<Rightarrow> nat \<Rightarrow> string" where
  "build_direct message n =
     (let m = []; m = m @ msg_batch_tag; m = m @ decimal n; m = m @ msg_crlf; m = m @ message; m = m @ msg_crlf in m)"

text \<open>\<^verbatim>\<open>build_local\<close> appends to the output stream.\<close>

definition build_local_size :: "string \<Rightarrow> nat \<Rightarrow> string" where
  "build_local_size out n = out @ msg_num_tag @ decimal n @ msg_crlf"

definition build_local_message :: "string \<Rightarrow> string \<Rightarrow> string" where
  "build_local_message out message = out @ message"

section \<open>Reading replies\<close>

definition read_signed :: "string \<Rightarrow> int" where
  "read_signed l = (if l \<noteq> [] \<and> hd l = CHR ''-'' then - int (read_decimal (tl l)) else int (read_decimal l))"

fun read_reply :: "string \<Rightarrow> (resp \<times> string) option" where
  "read_reply [] = None"
| "read_reply (tag # s) = (case until_crlf s of
      None \<Rightarrow> None
    | Some (l, r) \<Rightarrow>
        if tag = CHR ''+'' then Some (Status l, r)
        else if tag = CHR ''-'' then Some (Error l, r)
        else if tag = CHR '':'' then Some (Number (read_signed l), r)
        else if tag = CHR ''*'' then Some (Multi (read_signed l), r)
        else if tag = CHR ''$'' then
          (if read_signed l < 0 then Some (Bulk None, r)
           else let n = nat (read_signed l) in
             if take 2 (drop n r) = crlf then Some (Bulk (Some (take n r)), drop (n + 2) r) else None)
        else None)"

text \<open>A client that expects so many replies and nothing after them.\<close>

definition read_replies :: "nat \<Rightarrow> string \<Rightarrow> resp list option" where
  "read_replies k s = (case read_many read_reply k s of Some (xs, []) \<Rightarrow> Some xs | _ \<Rightarrow> None)"

lemma decimal_head: "decimal n \<noteq> [] \<and> hd (decimal n) \<noteq> CHR ''-''"
proof
  show "decimal n \<noteq> []"
    by (subst decimal.simps) simp
  then have "hd (decimal n) \<in> set (decimal n)"
    by simp
  then show "hd (decimal n) \<noteq> CHR ''-''"
    using decimal_chars [of "CHR ''-''" n] by auto
qed

lemma read_signed_decimal [simp]: "read_signed (decimal n) = int n"
  using decimal_head [of n] by (simp add: read_signed_def)

lemma read_build_bulk: "read_reply (build_bulk m (length m) @ r) = Some (Bulk (Some m), r)"
  using until_crlf_line [OF decimal_no_CR, of "length m" "m @ CR # LF # r"]
  by (simp add: build_bulk_def msg_batch_tag_def msg_crlf_def)

lemma read_build_size: "read_reply (build_size n @ r) = Some (Number (int n), r)"
  using until_crlf_line [OF decimal_no_CR, of n r]
  by (simp add: build_size_def msg_num_tag_def msg_crlf_def)

lemma build_direct_bulk: "build_direct = build_bulk"
  by (intro ext) (simp add: build_direct_def build_bulk_def)

section \<open>What the replies say\<close>

text \<open>
  What each constant message says, in their order: the statuses, errors, numbers, and the null and empty
  replies that their names say, except that \<^verbatim>\<open>msg_not_found\<close> and \<^verbatim>\<open>msg_nil\<close> are a status with the text
  \<^verbatim>\<open>(nil)\<close>, not a null reply.
\<close>

definition message_meanings :: "resp list" where
  "message_meanings = [
     Status ''OK'', Status ''PONG'', Error ''ERR'', Number 0, Number 1, Number (- 1), Number (- 2),
     Bulk None, Multi (- 1), Multi 0,
     Error ''WRONGTYPE Operation against a key holding the wrong kind of value'',
     Error ''ERR no such key'', Error ''ERR syntax error'',
     Error ''ERR source and destination objects are the same'', Error ''ERR index out of range'',
     Error ''ERR ERR hash value is not an integer'', Error ''ERR ERR hash value is not an float'',
     Status ''(nil)'', Status ''(nil)'', Status ''string'', Status ''none'', Status ''list'',
     Status ''hyperloglog'', Status ''set'', Status ''zset'', Status ''hash'']"

lemma messages_read: "list_all2 (\<lambda>(name, m) x. \<forall>r. read_reply (m @ r) = Some (x, r)) messages message_meanings"
  by (simp add: messages_def message_meanings_def read_signed_def read_decimal_def)

definition message_meaning :: "string \<Rightarrow> resp" where
  "message_meaning m = the (map_of (zip (map snd messages) message_meanings) m)"

lemma read_message:
  assumes "m \<in> snd ` set messages"
  shows "read_reply (m @ r) = Some (message_meaning m, r)"
proof -
  have len: "length messages = length message_meanings"
    using messages_read by (rule list_all2_lengthD)
  then have "set (map fst (zip (map snd messages) message_meanings)) = snd ` set messages"
    by simp
  then obtain x where x: "map_of (zip (map snd messages) message_meanings) m = Some x"
    using assms by (metis map_of_eq_None_iff not_None_eq set_map)
  then obtain k where "k < length messages" "snd (messages ! k) = m" "message_meanings ! k = x"
    using len by (auto dest!: map_of_SomeD simp: in_set_zip)
  then show ?thesis
    using messages_read x by (auto simp: list_all2_conv_all_nth message_meaning_def split_def)
qed

text \<open>
  A call of the builder, what is on the stream after it (\<^verbatim>\<open>build_local\<close> writes to the stream, the caller of the
  others does), and what it means to say.
\<close>

datatype 'd reply_call = Build_size nat | Build_double 'd | Build_message string | Build_bulk string nat
  | Build_direct string nat | Build_local_size nat | Build_local_message string

fun write_reply :: "('d \<Rightarrow> string) \<Rightarrow> string \<Rightarrow> 'd reply_call \<Rightarrow> string" where
  "write_reply f out (Build_size n) = out @ build_size n"
| "write_reply f out (Build_double x) = out @ build_double f x"
| "write_reply f out (Build_message m) = out @ build_message m"
| "write_reply f out (Build_bulk m n) = out @ build_bulk m n"
| "write_reply f out (Build_direct m n) = out @ build_direct m n"
| "write_reply f out (Build_local_size n) = build_local_size out n"
| "write_reply f out (Build_local_message m) = build_local_message out m"

fun meant :: "('d \<Rightarrow> string) \<Rightarrow> 'd reply_call \<Rightarrow> resp" where
  "meant f (Build_size n) = Number (int n)"
| "meant f (Build_double x) = Bulk (Some (f x))"
| "meant f (Build_message m) = message_meaning m"
| "meant f (Build_bulk m n) = Bulk (Some m)"
| "meant f (Build_direct m n) = Bulk (Some m)"
| "meant f (Build_local_size n) = Number (int n)"
| "meant f (Build_local_message m) = message_meaning m"

text \<open>The caller passes a constant message, and the length of a text as its size.\<close>

fun well_called :: "'d reply_call \<Rightarrow> bool" where
  "well_called (Build_message m) \<longleftrightarrow> m \<in> snd ` set messages"
| "well_called (Build_local_message m) \<longleftrightarrow> m \<in> snd ` set messages"
| "well_called (Build_bulk m n) \<longleftrightarrow> n = length m"
| "well_called (Build_direct m n) \<longleftrightarrow> n = length m"
| "well_called c \<longleftrightarrow> True"

lemma write_reply_append: "write_reply f out c = out @ write_reply f [] c"
  by (cases c) (simp_all add: build_local_size_def build_local_message_def)

lemma write_replies: "foldl (write_reply f) out cs = out @ concat (map (write_reply f []) cs)"
proof (induction cs arbitrary: out)
  case Nil
  then show ?case by simp
next
  case (Cons c cs)
  then show ?case
    using write_reply_append [of f out c] by simp
qed

interpretation replies: framed "write_reply f []" read_reply well_called "meant f" for f
proof
  fix c :: "'a reply_call" and r
  assume c: "well_called c"
  show "read_reply (write_reply f [] c @ r) = Some (meant f c, r)"
  proof (cases c)
    case (Build_double d)
    have "build_double f d = build_bulk (f d) (length (f d))"
      by (simp add: build_double_def build_bulk_def Let_def)
    then show ?thesis
      using Build_double read_build_bulk [of "f d" r] by simp
  next
    case (Build_local_size n)
    then show ?thesis
      using read_build_size [of n r] by (simp add: build_local_size_def build_size_def)
  qed (use c in \<open>simp_all add: read_build_size read_build_bulk build_direct_bulk read_message build_message_def build_local_message_def\<close>)
qed

lemma bulk_size_matters:
  "read_reply (build_bulk m n) = Some (Bulk (Some m), []) \<longleftrightarrow> n = length m"
proof
  assume r: "read_reply (build_bulk m n) = Some (Bulk (Some m), [])"
  have "until_crlf (decimal n @ CR # LF # m @ crlf) = Some (decimal n, m @ crlf)"
    by (rule until_crlf_line) simp
  then have "take n (m @ crlf) = m" "take 2 (drop n (m @ crlf)) = crlf"
    using r by (auto simp: build_bulk_def msg_batch_tag_def msg_crlf_def Let_def split: if_splits)
  then have "min n (length m + 2) = length m"
    by (metis length_append length_take min.commute length_Cons list.size(3) numeral_2_eq_2)
  then show "n = length m"
    by (simp add: min_def split: if_splits)
next
  assume "n = length m"
  then show "read_reply (build_bulk m n) = Some (Bulk (Some m), [])"
    using read_build_bulk [of m "[]"] by simp
qed

section \<open>Properties\<close>

text \<open>
  C23. A client reads back every sequence of calls of the builder, each kind of it, written one after the other:
  whatever bytes the texts hold, when the messages are the constants of the code and the size that comes
  with a text is its length. With any other size the client does not read the text back.
\<close>

theorem replies_read_back:
  "(list_all well_called cs \<longrightarrow> read_replies (length cs) (foldl (write_reply f) [] cs) = Some (map (meant f) cs)) \<and>
   (read_reply (build_bulk m n) = Some (Bulk (Some m), []) \<longleftrightarrow> n = length m) \<and>
   (read_reply (build_direct m n) = Some (Bulk (Some m), []) \<longleftrightarrow> n = length m)"
  using replies.stream_whole [of cs f] bulk_size_matters
  by (simp add: read_replies_def write_replies build_direct_bulk)

theorem replies_read_back_witness:
  "read_replies 5 (foldl (write_reply (\<lambda>x. x)) [] [Build_size 12, Build_bulk (''a'' @ crlf) 3, Build_message (''$-1'' @ crlf),
      Build_local_size 0, Build_direct ''b'' 1]) =
    Some [Number 12, Bulk (Some (''a'' @ crlf)), Bulk None, Number 0, Bulk (Some ''b'')]"
  using replies_read_back [of "[Build_size 12, Build_bulk (''a'' @ crlf) 3, Build_message (''$-1'' @ crlf),
      Build_local_size 0, Build_direct ''b'' 1]" "\<lambda>x. x" "[]" 0]
  by (simp add: messages_def message_meaning_def message_meanings_def numeral_eq_Suc)

end
