(* ===== verification/Service_Runtime.thy ===== *)
theory Service_Runtime
  imports Scheduling
begin

text \<open>
  The service runtime, \<^verbatim>\<open>src/req_server.cc\<close>: the registration of services, the bindings \<^verbatim>\<open>Call\<close> and
  \<^verbatim>\<open>Reply\<close> of the scripts, the run of a function with its statistics, and of a callback.

  The JavaScript engine is not part of the repository. What a script does in one run is a list of the
  calls of \<^verbatim>\<open>Call\<close> and \<^verbatim>\<open>Reply\<close> it makes , an argument of the definitions; a \<^verbatim>\<open>Reply\<close> carries
  what the callback that it may run does. The database bindings act on another state (theory
  \<open>Db_Api\<close>). A JavaScript function kept for a callback is a number.
\<close>

section \<open>Registration\<close>

definition NUM_SERVICES :: nat where "NUM_SERVICES = 1024"

text \<open>
  The end of \<^verbatim>\<open>register_service\<close>: the context of the script is entered in the tables. \<open>create_db\<close> is
  in theory \<open>Db_Api\<close>.
\<close>

definition register_service :: "nat \<Rightarrow> string \<Rightarrow> sys \<Rightarrow> sys res" where
  "register_service i service s = rbind (shard_at i s) (\<lambda>d.
     if NUM_SERVICES \<le> length (contexts d) then rfail Out_of_bounds
     else rok (set_shard i (d\<lparr>ctx_map := (ctx_map d)(service \<mapsto> length (contexts d)),
            contexts := contexts d @ [service]\<rparr>) s))"

text \<open>
  \<^verbatim>\<open>contexts[ctx_map[service]]\<close>: the service whose script the context holds; \<^verbatim>\<open>operator[]\<close> enters an
  absent service with context 0, and an empty handle is a null pointer.
\<close>

definition enter_context :: "nat \<Rightarrow> string \<Rightarrow> sys \<Rightarrow> (string \<times> sys) res" where
  "enter_context i service s = rbind (shard_at i s) (\<lambda>d.
     let k = (case ctx_map d service of Some k \<Rightarrow> k | None \<Rightarrow> 0);
         s = set_shard i (d\<lparr>ctx_map := (ctx_map d)(service \<mapsto> k)\<rparr>) s in
     if k < length (contexts d) then rok (contexts d ! k, s) else rfail Null_deref)"

section \<open>Scripts\<close>

text \<open>
  The readings of \<^verbatim>\<open>rdtsc()\<close> in a call of \<^verbatim>\<open>schedule\<close> and of \<^verbatim>\<open>reply\<close> come with the operation, and the
  uuid of the callee with \<open>Call\<close>.
\<close>

datatype js_op =
    Call "u64 \<times> u64 \<times> u64" u64 string string string string nat string
      \<comment> \<open>clock, now, \<^verbatim>\<open>req_id\<close>, callee, \<^verbatim>\<open>service\<close>, \<^verbatim>\<open>function\<close>, callback, \<^verbatim>\<open>jsargs\<close>\<close>
  | Reply u64 u64 string string string string "js_op list"
      \<comment> \<open>\<^verbatim>\<open>now1\<close>, \<^verbatim>\<open>now2\<close>, \<^verbatim>\<open>req_id\<close>, \<^verbatim>\<open>call_id\<close>, \<^verbatim>\<open>service\<close>, \<^verbatim>\<open>ret\<close>, the run of the callback\<close>

definition call_function ::
  "nat \<Rightarrow> u64 \<times> u64 \<times> u64 \<Rightarrow> u64 \<Rightarrow> string \<Rightarrow> string \<Rightarrow> string \<Rightarrow> string \<Rightarrow> nat \<Rightarrow> string \<Rightarrow> sys \<Rightarrow> sys res" where
  "call_function cpu clock now req_id callee service fn callback jsargs s =
     rbind (set_req_states cpu (callback_key service callee) (Callback callback) s)
       (schedule cpu clock now cpu (req_id, callee, service, fn, jsargs))"

text \<open>
  \<^verbatim>\<open>run_callback\<close>, with the run of the script \<open>run\<close>. The state is read before the call and erased
  after it; a null state is dereferenced.
\<close>

definition run_callback ::
  "nat \<Rightarrow> (sys \<Rightarrow> sys res) \<Rightarrow> string \<Rightarrow> string \<Rightarrow> string \<Rightarrow> sys \<Rightarrow> sys res" where
  "run_callback cpu run call_id service ret s =
     rbind (enter_context cpu service s) (\<lambda>(context, s).
     rbind (get_req_states cpu (callback_key service call_id) s) (\<lambda>(states, s).
       case states of
         Some (Callback f) \<Rightarrow> rbind (run s) (del_req_states cpu (callback_key service call_id))
       | Some st \<Rightarrow> rfail (Bad_address 0)
       | None \<Rightarrow> rfail Null_deref))"

fun run_ops :: "(string \<Rightarrow> fault + js_reply) \<Rightarrow> nat \<Rightarrow> js_op list \<Rightarrow> sys \<Rightarrow> sys res" where
  "run_ops json cpu [] s = rok s"
| "run_ops json cpu (Call clock now req_id callee service fn callback jsargs # ops) s =
     rbind (call_function cpu clock now req_id callee service fn callback jsargs s) (run_ops json cpu ops)"
| "run_ops json cpu (Reply now1 now2 req_id call_id service ret nested # ops) s =
     rbind (reply json (run_callback cpu (run_ops json cpu nested)) cpu now1 now2 req_id call_id service ret s)
       (run_ops json cpu ops)"

section \<open>Running a function\<close>

text \<open>The statistics of a function, reset when the count reaches 100.\<close>

definition add_func_sample :: "u64 \<Rightarrow> func_states \<Rightarrow> func_states" where
  "add_func_sample t f =
     (let count = f_count f + 1;
          f = f\<lparr>f_count := count\<rparr>;
          total = f_total f + t;
          f = f\<lparr>f_total := total\<rparr>;
          f = f\<lparr>f_exec := ucast (total div ucast count)\<rparr>
      in if 100 \<le> count then f\<lparr>f_count := 0, f_total := 0\<rparr> else f)"

record run =
  script :: "js_op list"
  thrown :: "(u64 \<times> u64 \<times> js_op list) option"   \<comment> \<open>an exception ends the run: the readings and the callback of the reply\<close>
  started_at :: u64
  ended_at :: u64

text \<open>
  \<^verbatim>\<open>run_func\<close> of the runtime: \<open>has_function\<close> tells whether the global object of a context has the
  function; when it has not, the cast of its value to a function is a bad access.
\<close>

definition run_service ::
  "(string \<Rightarrow> fault + js_reply) \<Rightarrow> (string \<Rightarrow> string \<Rightarrow> bool) \<Rightarrow> nat \<Rightarrow> run \<Rightarrow> task \<Rightarrow> sys \<Rightarrow> sys res" where
  "run_service json has_function cpu r t s = (case t of Run_func (req_id, call_id, service, fn, jsargs) func \<Rightarrow>
     rbind (enter_context cpu service s) (\<lambda>(context, s).
     if \<not> has_function context fn then rfail (Bad_address 0)
     else
       rbind (run_ops json cpu (script r) s) (\<lambda>s.
       rbind (case thrown r of
           None \<Rightarrow> rok s
         | Some (now1, now2, nested) \<Rightarrow>
             reply json (run_callback cpu (run_ops json cpu nested)) cpu now1 now2 req_id call_id service (''error'' @ [LF]) s) (\<lambda>s.
       case func_map s func of
         None \<Rightarrow> rfail Null_deref
       | Some f \<Rightarrow> rok (s\<lparr>func_map := (func_map s)(func \<mapsto> add_func_sample (ended_at r - started_at r) f)\<rparr>)))))"

section \<open>Every run keeps the invariant\<close>

lemma enter_context_inv: "sched_inv n s \<Longrightarrow> enter_context i service s = rok (c, s') \<Longrightarrow> sched_inv n s'"
  using core_inv_keys by (auto simp: enter_context_def Let_def step_rok sched_inv_def split: if_splits
      intro!: core_inv_set_shard)

lemma register_service_inv: "sched_inv n s \<Longrightarrow> register_service i service s = rok s' \<Longrightarrow> sched_inv n s'"
  using core_inv_keys by (auto simp: register_service_def step_rok sched_inv_def split: if_splits
      intro!: core_inv_set_shard)

lemma call_function_inv:
  assumes "sched_inv n s" and "call_function cpu clock now req_id callee service fn callback jsargs s = rok s'"
  shows "sched_inv n s'"
proof -
  obtain s1 where s1: "set_req_states cpu (callback_key service callee) (Callback callback) s = rok s1"
      and s2: "schedule cpu clock now cpu (req_id, callee, service, fn, jsargs) s1 = rok s'"
    using assms(2) unfolding call_function_def by (elim rbind_rokE)
  show ?thesis
    using states_inv(2) [OF assms(1) kind_ok_callback s1] s2 by (rule schedule_inv)
qed

lemma run_callback_inv:
  assumes run: "\<And>t t'. sched_inv n t \<Longrightarrow> run t = rok t' \<Longrightarrow> sched_inv n t'"
  shows "callback_runtime n (run_callback cpu run)"
proof
  fix t t' call_id service ret
  assume inv: "sched_inv n t" and r: "run_callback cpu run call_id service ret t = rok t'"
  obtain c s1 st s2 where s1: "enter_context cpu service t = rok (c, s1)"
    and s2: "get_req_states cpu (callback_key service call_id) s1 = rok (st, s2)"
    and fin: "(case st of Some (Callback f) \<Rightarrow> rbind (run s2) (del_req_states cpu (callback_key service call_id))
       | Some st \<Rightarrow> rfail (Bad_address 0) | None \<Rightarrow> rfail Null_deref) = rok t'"
    using r unfolding run_callback_def by (elim rbind_pair_rokE) (rule that)
  have inv2: "sched_inv n s2"
    using states_inv(1) [OF enter_context_inv [OF inv s1] s2] .
  obtain s3 where "run s2 = rok s3" "del_req_states cpu (callback_key service call_id) s3 = rok t'"
    using fin by (auto split: option.splits req_states.splits elim!: rbind_rokE)
  then show "sched_inv n t'"
    using states_inv(3) [OF run [OF inv2]] by blast
qed

lemma run_ops_inv: "sched_inv n s \<Longrightarrow> run_ops json cpu ops s = rok s' \<Longrightarrow> sched_inv n s'"
proof (induction json cpu ops s arbitrary: s' rule: run_ops.induct)
  case (1 json cpu s)
  then show ?case by simp
next
  case (2 json cpu clock now req_id callee service fn callback jsargs ops s)
  obtain s1 where "call_function cpu clock now req_id callee service fn callback jsargs s = rok s1"
      "run_ops json cpu ops s1 = rok s'"
    using "2.prems"(2) by (auto elim: rbind_rokE)
  then show ?case
    using "2.IH" call_function_inv [OF "2.prems"(1)] by blast
next
  case (3 json cpu now1 now2 req_id call_id service ret nested ops s)
  obtain s1 where s1: "reply json (run_callback cpu (run_ops json cpu nested)) cpu now1 now2 req_id call_id service ret s = rok s1"
      "run_ops json cpu ops s1 = rok s'"
    using "3.prems"(2) by (auto elim: rbind_rokE)
  have rt: "callback_runtime n (run_callback cpu (run_ops json cpu nested))"
    by (rule run_callback_inv) (rule "3.IH"(1))
  have "sched_inv n s1"
    using callback_runtime.reply_inv [OF rt "3.prems"(1) s1(1)] .
  then show ?case
    using "3.IH"(2) s1(2) by blast
qed

interpretation scripts: callback_runtime n "run_callback cpu (run_ops json cpu nested)" for n cpu json nested
  by (rule run_callback_inv) (rule run_ops_inv)

lemma add_func_sample_count:
  assumes "unat (f_count f) < 100"
  shows "unat (f_count (add_func_sample t f)) < 100"
proof -
  have "unat (f_count f + 1) = unat (f_count f) + 1"
    using assms by (simp add: unat_word_ariths)
  then show ?thesis
    by (auto simp: add_func_sample_def Let_def word_le_nat_alt)
qed

lemma core_inv_func_sample:
  assumes "core_inv n s" and "unat (f_count f) < 100"
  shows "core_inv n (s\<lparr>func_map := (func_map s)(func \<mapsto> f)\<rparr>)"
  using assms by (auto simp: core_inv_def wf_refs_def stats_ok_def)

lemma run_service_inv:
  assumes inv: "sched_inv n s" and r: "run_service json has_function cpu r t s = rok s'"
  shows "sched_inv n s'"
proof -
  obtain req_id call_id service fn jsargs func where t: "t = Run_func (req_id, call_id, service, fn, jsargs) func"
    by (metis prod_cases5 task.exhaust)
  obtain c s1 s2 s3 and f :: func_states where s1: "enter_context cpu service s = rok (c, s1)"
    and s2: "run_ops json cpu (script r) s1 = rok s2"
    and s3: "(case thrown r of None \<Rightarrow> rok s2 | Some (now1, now2, nested) \<Rightarrow>
       reply json (run_callback cpu (run_ops json cpu nested)) cpu now1 now2 req_id call_id service (''error'' @ [LF]) s2) = rok s3"
    and f: "func_map s3 func = Some f"
    and s': "s' = s3\<lparr>func_map := (func_map s3)(func \<mapsto> add_func_sample (ended_at r - started_at r) f)\<rparr>"
    using r unfolding run_service_def t prod.case task.case
    by (auto elim!: rbind_pair_rokE rbind_rokE split: if_splits option.splits) 
  have inv2: "sched_inv n s2"
    using run_ops_inv [OF enter_context_inv [OF inv s1] s2] .
  have inv3: "sched_inv n s3"
    using s3 inv2 scripts.reply_inv [OF inv2] by (auto split: option.splits)
  then have "unat (f_count f) < 100"
    using f by (auto simp: sched_inv_def core_inv_def stats_ok_def)
  then show ?thesis
    using inv3 core_inv_func_sample [OF _ add_func_sample_count] by (auto simp: s' sched_inv_def)
qed

section \<open>Contexts\<close>

fun register_all :: "nat \<Rightarrow> string list \<Rightarrow> sys \<Rightarrow> sys res" where
  "register_all i [] s = rok s"
| "register_all i (v # vs) s = rbind (register_service i v s) (register_all i vs)"

lemma register_all_contexts:
  assumes "i < length (shards s)" and "length (contexts (shards s ! i)) + length vs \<le> NUM_SERVICES"
  shows "\<exists>s' d. register_all i vs s = rok s' \<and> length (shards s') = length (shards s) \<and> shards s' ! i = d \<and>
    contexts d = contexts (shards s ! i) @ vs \<and>
    (\<forall>v. v \<notin> set vs \<longrightarrow> ctx_map d v = ctx_map (shards s ! i) v) \<and>
    (\<forall>v \<in> set vs. \<exists>k < length (contexts d). ctx_map d v = Some k \<and> contexts d ! k = v)"
  using assms
proof (induction vs arbitrary: s)
  case Nil
  then show ?case by simp
next
  case (Cons v vs)
  let ?d = "shards s ! i"
  let ?d1 = "?d\<lparr>ctx_map := (ctx_map ?d)(v \<mapsto> length (contexts ?d)), contexts := contexts ?d @ [v]\<rparr>"
  let ?s1 = "set_shard i ?d1 s"
  have r: "register_service i v s = rok ?s1"
    using Cons.prems by (simp add: register_service_def shard_at_def)
  have "length (contexts (shards ?s1 ! i)) + length vs \<le> NUM_SERVICES" "i < length (shards ?s1)"
    using Cons.prems by simp_all
  from Cons.IH [OF this(2,1)] obtain s' where s': "register_all i vs ?s1 = rok s'" "length (shards s') = length (shards s)"
    and ctx: "contexts (shards s' ! i) = contexts ?d @ v # vs"
    and same: "\<forall>w. w \<notin> set vs \<longrightarrow> ctx_map (shards s' ! i) w = ctx_map ?d1 w"
    and own: "\<forall>w \<in> set vs. \<exists>k < length (contexts (shards s' ! i)). ctx_map (shards s' ! i) w = Some k \<and> contexts (shards s' ! i) ! k = w"
    using Cons.prems(1) by auto
  have "\<exists>k < length (contexts (shards s' ! i)). ctx_map (shards s' ! i) w = Some k \<and> contexts (shards s' ! i) ! k = w" if "w \<in> set (v # vs)" for w
  proof (cases "w \<in> set vs")
    case True
    then show ?thesis using own by blast
  next
    case False
    then have "w = v" "ctx_map (shards s' ! i) w = Some (length (contexts ?d))"
      using that same by auto
    then show ?thesis
      by (simp add: ctx nth_append)
  qed
  then show ?case
    using r s' ctx same by simp
qed

lemma enter_context_known:
  assumes "i < length (shards s)" and "ctx_map (shards s ! i) v = Some k" and "k < length (contexts (shards s ! i))"
  shows "enter_context i v s = rok (contexts (shards s ! i) ! k, s)"
proof -
  have "(shards s ! i)\<lparr>ctx_map := (ctx_map (shards s ! i))(v \<mapsto> k)\<rparr> = shards s ! i"
    using assms(2) by (simp add: fun_upd_idem)
  then show ?thesis
    using assms by (simp add: enter_context_def shard_at_def set_shard_def)
qed

text \<open>The services that \<^verbatim>\<open>main\<close> registers, in this order.\<close>

definition main_services :: "string list" where
  "main_services = [''user.js'', ''test.js'', ''compose_post_service.js'', ''media_service.js'',
     ''text_service.js'', ''url_shorten_service.js'', ''user_mention_service.js'', ''user_service.js'',
     ''user_timeline_service.js'', ''user-timeline.js'', ''post.js'', ''social_graph_service.js'',
     ''unique_id_service.js'', ''microbenchmark.js'', ''microbenchmark2.js'', ''microbenchmark3.js'',
     ''microbenchmark4.js'', ''home_timeline_service.js'', ''write_home_timeline_service.js'',
     ''post_storage.js'', ''fanout.js'', ''sched_bench.js'', ''complex.js'']"

section \<open>Calls\<close>

lemma call_registers:
  assumes "call_function cpu clock now req_id callee service fn callback jsargs s = rok s'"
    and fresh: "req_map (shards s ! cpu) (reply_key service callee) = None"
  shows "req_map (shards s' ! cpu) (callback_key service callee) = Some (Some (Callback callback)) \<and>
    req_map (shards s' ! cpu) (reply_key service callee) = Some (Some (Remote_reply cpu))"
proof -
  let ?cb = "callback_key service callee" and ?key = "reply_key service callee"
  obtain s1 where s1: "set_req_states cpu ?cb (Callback callback) s = rok s1"
      and s2: "schedule cpu clock now cpu (req_id, callee, service, fn, jsargs) s1 = rok s'"
    using assms(1) unfolding call_function_def by (elim rbind_rokE)
  have cpu: "cpu < length (shards s)" and "s1 = set_shard cpu ((shards s ! cpu)\<lparr>req_map := (req_map (shards s ! cpu))(?cb \<mapsto> Some (Callback callback))\<rparr>) s"
    using s1 by (auto simp: set_req_states_def step_rok)
  then have r1: "req_map (shards s1 ! cpu) = (req_map (shards s ! cpu))(?cb \<mapsto> Some (Callback callback))" "length (shards s1) = length (shards s)"
    by simp_all
  obtain s2 where e: "ensure_states cpu cpu ?key (service @ fn) s1 = rok s2" and k: "reqs_kept s2 s'"
    using schedule_after_ensure [OF s2 refl] by blast
  have "req_map (shards s2 ! cpu) = (req_map (shards s1 ! cpu))(?key \<mapsto> Some (Remote_reply cpu))"
    using e fresh r1 keys_differ [of service callee service callee] by (auto simp: ensure_states_def Let_def step_rok)
  moreover have "length (shards s2) = length (shards s1)"
    using e by (auto simp: ensure_states_def Let_def step_rok)
  ultimately show ?thesis
    using k cpu r1 keys_differ [of service callee service callee] unfolding reqs_kept_def by (metis fun_upd_other fun_upd_same)
qed

lemma get_req_states_known:
  "i < length (shards s) \<Longrightarrow> req_map (shards s ! i) key = Some p \<Longrightarrow> get_req_states i key s = rok (p, s)"
  by (simp add: get_req_states_def shard_at_def)

lemma run_callback_known:
  assumes "cpu < length (shards s)" and "req_map (shards s ! cpu) (callback_key service call_id) = Some (Some (Callback f))"
    and "ctx_map (shards s ! cpu) service = Some k" and "k < length (contexts (shards s ! cpu))"
  shows "run_callback cpu run call_id service ret s = rbind (run s) (del_req_states cpu (callback_key service call_id))"
  using assms by (simp add: run_callback_def enter_context_known get_req_states_known)

lemma closed_shard:
  assumes "cpu < length (shards s)"
  shows "shards (closed cpu now key call_id s) ! cpu =
    (shards s ! cpu)\<lparr>req_map := (req_map (shards s ! cpu))(key := None), curr_req := curr_req (shards s ! cpu) - {call_id}\<rparr>"
    and "length (shards (closed cpu now key call_id s)) = length (shards s)"
  using assms by (simp_all add: closed_def Let_def)

lemma reply_runs_callback:
  assumes inv: "sched_inv n s" and i: "cpu < n"
    and st: "req_map (shards s ! cpu) (reply_key service call_id) = Some (Some (Remote_reply cpu))"
    and cb: "req_map (shards s ! cpu) (callback_key service call_id) = Some (Some (Callback f))"
    and ctx: "ctx_map (shards s ! cpu) service = Some k" "k < length (contexts (shards s ! cpu))"
  shows "reply json (run_callback cpu run) cpu now1 now2 req_id call_id service ret s =
    rbind (run (closed cpu now1 (reply_key service call_id) call_id s)) (\<lambda>t.
      rbind (del_req_states cpu (callback_key service call_id) t) (dispatch cpu))"
proof -
  let ?t = "closed cpu now1 (reply_key service call_id) call_id s"
  have len: "cpu < length (shards s)"
    using core_states_lengths [OF inv] i by simp
  have "run_callback cpu run call_id service ret ?t = rbind (run ?t) (del_req_states cpu (callback_key service call_id))"
    by (rule run_callback_known) (use len cb ctx keys_differ [of service call_id service call_id] in \<open>simp_all add: closed_shard\<close>)
  moreover have "rbind (rbind m f) g = rbind m (\<lambda>x. rbind (f x) g)" for m :: "sys res" and f g :: "sys \<Rightarrow> sys res"
    by (simp add: rbind_def split: option.splits sum.splits)
  ultimately show ?thesis
    using st by (simp add: reply_eq [OF inv i] answer_def)
qed

lemma callback_completes:
  assumes inv: "sched_inv n s" and i: "cpu < n"
    and st: "req_map (shards s ! cpu) (reply_key service call_id) = Some (Some (Remote_reply cpu))"
    and cb: "req_map (shards s ! cpu) (callback_key service call_id) = Some (Some (Callback f))"
    and ctx: "ctx_map (shards s ! cpu) service = Some k" "k < length (contexts (shards s ! cpu))"
    and run: "run_ops json cpu nested (closed cpu now1 (reply_key service call_id) call_id s) = rok t"
  shows "\<exists>s'. reply json (run_callback cpu (run_ops json cpu nested)) cpu now1 now2 req_id call_id service ret s = rok s' \<and>
    sched_inv n s' \<and> dispatch cpu (set_shard cpu ((shards t ! cpu)\<lparr>
      req_map := (req_map (shards t ! cpu))(callback_key service call_id := None)\<rparr>) t) = rok s'"
proof -
  have invt: "sched_inv n t"
    using run_ops_inv [OF closed_inv [OF inv i] run] .
  have len: "cpu < length (shards t)"
    using core_states_lengths [OF invt] i by simp
  let ?u = "set_shard cpu ((shards t ! cpu)\<lparr>req_map := (req_map (shards t ! cpu))(callback_key service call_id := None)\<rparr>) t"
  have u: "del_req_states cpu (callback_key service call_id) t = rok ?u"
    using len by (simp add: del_req_states_def shard_at_def)
  then have invu: "sched_inv n ?u"
    using states_inv(3) [OF invt] by blast
  then obtain s' where s': "dispatch cpu ?u = rok s'"
    using dispatch_returns i by blast
  then have "reply json (run_callback cpu (run_ops json cpu nested)) cpu now1 now2 req_id call_id service ret s = rok s'"
    using run u by (simp add: reply_runs_callback [OF inv i st cb ctx])
  then show ?thesis
    using s' dispatch_inv [OF invu s'] by blast
qed

section \<open>Averages\<close>

lemma of_nat_window:
  assumes "n \<le> 100"
  shows "(100 :: u32) \<le> of_nat n \<longleftrightarrow> n = 100"
proof -
  have "unat (of_nat n :: u32) = n"
    using assms by (simp add: unat_of_nat)
  then show ?thesis
    using assms by (auto simp: word_le_nat_alt)
qed

lemma func_samples:
  assumes "ts \<noteq> []"
  shows "fold add_func_sample ts (f\<lparr>f_count := 0, f_total := 0\<rparr>) =
     f\<lparr>f_count := (if length (window 100 ts) = 100 then 0 else of_nat (length (window 100 ts))),
       f_total := (if length (window 100 ts) = 100 then 0 else sum_list (window 100 ts)),
       f_exec := ucast (sum_list (window 100 ts) div of_nat (length (window 100 ts)))\<rparr>"
  using assms
proof (induction ts rule: rev_induct)
  case Nil
  then show ?case by simp
next
  case (snoc t ts)
  have one: "\<not> (100 :: u32) \<le> 1"
    by (simp add: word_le_nat_alt)
  have cast: "ucast (of_nat k :: u32) = (of_nat k :: u64)" if "k \<le> 100" for k
    using that by (simp add: unsigned_of_nat take_bit_nat_eq_self)
  have len: "length (window 100 ts) \<le> 100"
    by (simp add: length_window)
  have w1: "window 100 [t] = [t]"
    by (simp add: window_def)
  show ?case
  proof (cases "ts = []")
    case True
    then show ?thesis
      using one by (simp add: add_func_sample_def w1 Let_def)
  next
    case ts: False
    show ?thesis
    proof (cases "length (window 100 ts) = 100")
      case True
      then show ?thesis
        using snoc.IH [OF ts] one by (simp add: add_func_sample_def window_snoc Let_def)
    next
      case False
      define k where "k = length (window 100 ts)"
      have k: "k + 1 \<le> 100" "k \<noteq> 100"
        using False len by (simp_all add: k_def)
      have c: "ucast (of_nat k + 1 :: u32) = (of_nat k + 1 :: u64)"
        using cast [OF k(1)] by (simp only: of_nat_add of_nat_1)
      have l: "(100 :: u32) \<le> of_nat k + 1 \<longleftrightarrow> k + 1 = 100"
        using of_nat_window [OF k(1)] by (simp only: of_nat_add of_nat_1)
      have w: "window 100 (ts @ [t]) = window 100 ts @ [t]"
        using False by (simp add: window_snoc)
      have "fold add_func_sample (ts @ [t]) (f\<lparr>f_count := 0, f_total := 0\<rparr>) = add_func_sample t
         (f\<lparr>f_count := of_nat k, f_total := sum_list (window 100 ts),
            f_exec := ucast (sum_list (window 100 ts) div of_nat k)\<rparr>)"
        using snoc.IH [OF ts] False by (simp add: k_def)
      also have "\<dots> = f\<lparr>f_count := (if k + 1 = 100 then 0 else of_nat k + 1),
           f_total := (if k + 1 = 100 then 0 else sum_list (window 100 ts) + t),
           f_exec := ucast ((sum_list (window 100 ts) + t) div (of_nat k + 1))\<rparr>"
        by (simp add: add_func_sample_def Let_def c l)
      finally show ?thesis
        by (simp add: w k_def [symmetric] add.commute)
    qed
  qed
qed

lemma dispatch_stats: "dispatch i s = rok s' \<Longrightarrow> func_map s' = func_map s"
  by (auto simp: dispatch_rok split: list.splits option.splits if_splits)

lemma reply_local_stats:
  assumes r: "reply json callback cpu now1 now2 req_id call_id service ret s = rok s'"
    and st: "req_map (shards s ! cpu) (reply_key service call_id) = Some (Some Local_reply)"
    and inv: "sched_inv n s" and i: "cpu < n"
  shows "func_map s' = func_map s"
proof -
  let ?c = "closed cpu now1 (reply_key service call_id) call_id s"
  obtain rep t where t: "drop_wf cpu req_id (emit (Set_value cpu (reply_key service call_id) rep) ?c) = rok t"
      and d: "dispatch cpu t = rok s'"
    using r st unfolding reply_eq [OF inv i] answer_def by (cases "json ret") (auto elim!: rbind_rokE)
  have "func_map t = func_map s"
    using t by (auto simp: drop_wf_def step_rok closed_def Let_def)
  then show ?thesis
    using dispatch_stats [OF d] by simp
qed

section \<open>Properties\<close>

text \<open>
  C36. After the services are registered on a shard, up to \<open>NUM_SERVICES\<close>, each one runs in the context
  of its own script; every other name runs in the context of the service registered first, which a
  request can so reach under any name.
\<close>

theorem service_contexts:
  assumes "i < length (shards s)" and "contexts (shards s ! i) = []" and "ctx_map (shards s ! i) = Map.empty"
    and "vs \<noteq> []" and "length vs \<le> NUM_SERVICES"
  shows "\<exists>s'. register_all i vs s = rok s' \<and>
    (\<forall>v \<in> set vs. enter_context i v s' = rok (v, s')) \<and>
    (\<forall>v. v \<notin> set vs \<longrightarrow> (\<exists>s''. enter_context i v s' = rok (hd vs, s'')))"
proof -
  have "length (contexts (shards s ! i)) + length vs \<le> NUM_SERVICES"
    using assms(2,5) by simp
  from register_all_contexts [OF assms(1) this] obtain s' d where
    s': "register_all i vs s = rok s'" "length (shards s') = length (shards s)" and d: "shards s' ! i = d"
    and ctx0: "contexts d = contexts (shards s ! i) @ vs"
    and other0: "\<forall>v. v \<notin> set vs \<longrightarrow> ctx_map d v = ctx_map (shards s ! i) v"
    and own0: "\<forall>v \<in> set vs. \<exists>k < length (contexts d). ctx_map d v = Some k \<and> contexts d ! k = v"
    by (elim exE conjE) (rule that)
  have ctx: "contexts (shards s' ! i) = vs"
    using ctx0 assms(2) d by simp
  have other: "\<forall>v. v \<notin> set vs \<longrightarrow> ctx_map (shards s' ! i) v = None"
    using other0 assms(3) d by simp
  note own = own0 [folded d]
  have i: "i < length (shards s')"
    using assms(1) s'(2) by simp
  have "enter_context i v s' = rok (v, s')" if v: "v \<in> set vs" for v
  proof -
    from bspec [OF own v] obtain k where k: "k < length (contexts (shards s' ! i))" "ctx_map (shards s' ! i) v = Some k" "contexts (shards s' ! i) ! k = v"
      by (elim exE conjE) (rule that)
    show ?thesis
      using enter_context_known [OF i k(2,1)] unfolding k(3) .
  qed
  moreover have "\<exists>s''. enter_context i v s' = rok (hd vs, s'')" if "v \<notin> set vs" for v
  proof -
    have "ctx_map (shards s' ! i) v = None" "0 < length (contexts (shards s' ! i))" "contexts (shards s' ! i) ! 0 = hd vs"
      using other that assms(4) unfolding ctx by (simp_all add: hd_conv_nth)
    then show ?thesis
      using i by (simp add: enter_context_def shard_at_def)
  qed
  ultimately have "(\<forall>v \<in> set vs. enter_context i v s' = rok (v, s')) \<and>
    (\<forall>v. v \<notin> set vs \<longrightarrow> (\<exists>s''. enter_context i v s' = rok (hd vs, s'')))"
    by (intro conjI ballI allI impI)
  with s'(1) have "register_all i vs s = rok s' \<and> (\<forall>v \<in> set vs. enter_context i v s' = rok (v, s')) \<and>
    (\<forall>v. v \<notin> set vs \<longrightarrow> (\<exists>s''. enter_context i v s' = rok (hd vs, s'')))"
    by (rule conjI)
  then show ?thesis
    by (rule exI)
qed

theorem service_contexts_witness:
  "\<exists>s'. register_all 0 main_services (fresh_sys 1) = rok s' \<and> enter_context 0 ''post.js'' s' = rok (''post.js'', s') \<and>
    (\<exists>s''. enter_context 0 ''nosuch.js'' s' = rok (''user.js'', s''))"
proof -
  have l: "length main_services \<le> NUM_SERVICES" "main_services \<noteq> []" "hd main_services = ''user.js''"
    "''post.js'' \<in> set main_services" "''nosuch.js'' \<notin> set main_services"
    by (simp_all add: main_services_def NUM_SERVICES_def)
  then show ?thesis
    using service_contexts [of 0 "fresh_sys 1" main_services] by (force simp: fresh_sys_def new_shard_def)
qed

text \<open>
  A run of a function, whatever its script calls and replies, with callbacks run inside replies
  and with an exception at the end, leaves the shared state consistent and the lock free.
\<close>

theorem run_keeps_consistent:
  assumes "sched_inv n s" and "run_service json has_function cpu r t s = rok s'"
  shows "sched_inv n s'"
  by (rule run_service_inv [OF assms])

definition sys9_run :: sys where
  "sys9_run = sys9\<lparr>func_map := [''s.jsf'' \<mapsto> new_func_states],
     shards := (shards sys9)[1 := (shards sys9 ! 1)\<lparr>ctx_map := [''s.js'' \<mapsto> 0], contexts := [''s.js'']\<rparr>]\<rparr>"

lemma sys9_run_shard:
  "shards sys9_run ! 1 = (shards sys9 ! 1)\<lparr>ctx_map := [''s.js'' \<mapsto> 0], contexts := [''s.js'']\<rparr>" "length (shards sys9_run) = 9"
  by (simp_all add: sys9_run_def)

lemma sys9_run_enter: "enter_context 1 ''s.js'' sys9_run = rok (''s.js'', sys9_run)"
  using enter_context_known [of 1 sys9_run "''s.js''" 0] unfolding sys9_run_shard by simp

lemma sys9_run_inv: "sched_inv 9 sys9_run"
proof -
  have "keys_ok ((shards sys9 ! 1)\<lparr>ctx_map := [''s.js'' \<mapsto> 0], contexts := [''s.js'']\<rparr>)"
    using core_inv_keys [of 9 sys9 1] sys9_inv by (simp add: sched_inv_def)
  then have "core_inv 9 (set_shard 1 ((shards sys9 ! 1)\<lparr>ctx_map := [''s.js'' \<mapsto> 0], contexts := [''s.js'']\<rparr>) sys9)"
    using sys9_inv by (intro core_inv_set_shard) (auto simp: sched_inv_def)
  moreover have "unat (f_count new_func_states) < 100"
    by simp
  ultimately show ?thesis
    by (simp add: sys9_run_def sched_inv_def core_inv_def set_shard_def wf_refs_def stats_ok_def)
qed

text \<open>
  \<^verbatim>\<open>Call\<close> stores the callback under the key of the callee and makes the calling shard the one
  that the reply goes back to, wherever the callee runs.
\<close>

lemma call_stores_states:
  assumes "call_function cpu clock now req_id callee service fn callback jsargs s = rok s'"
    and "req_map (shards s ! cpu) (reply_key service callee) = None"
  shows "req_map (shards s' ! cpu) (callback_key service callee) = Some (Some (Callback callback)) \<and>
    req_map (shards s' ! cpu) (reply_key service callee) = Some (Some (Remote_reply cpu))"
  by (rule call_registers [OF assms])

text \<open>
  C24. The reply to a call on the shard that called: the callback runs in the state where the call is
  closed, and if its script ends, the callback state is erased and the state is consistent. Then the
  shard dispatches: the call at the head of its queue, if it has arrived and no fused workflow runs,
  leaves the queue and its task goes to the engine. Otherwise nothing is sent.
\<close>

theorem callback_runs:
  assumes "sched_inv n s" and "cpu < n"
    and "req_map (shards s ! cpu) (reply_key service call_id) = Some (Some (Remote_reply cpu))"
    and "req_map (shards s ! cpu) (callback_key service call_id) = Some (Some (Callback f))"
    and "ctx_map (shards s ! cpu) service = Some k" and "k < length (contexts (shards s ! cpu))"
    and "run_ops json cpu nested (closed cpu now1 (reply_key service call_id) call_id s) = rok t"
  shows "\<exists>s'. reply json (run_callback cpu (run_ops json cpu nested)) cpu now1 now2 req_id call_id service ret s = rok s' \<and>
    sched_inv n s' \<and> shards s' = (shards t)[cpu := (shards t ! cpu)\<lparr>
      req_map := (req_map (shards t ! cpu))(callback_key service call_id := None)\<rparr>] \<and>
    (case queue (cores t ! cpu) of
       [] \<Rightarrow> sent s' = sent t \<and> cores s' = cores t
     | h # q \<Rightarrow> (case task_map (cores t ! cpu) h of
         None \<Rightarrow> sent s' = sent t \<and> cores s' = cores t
       | Some task \<Rightarrow> if curr_wf (shards t ! cpu) = {}
           then sent s' = sent t @ [Add_task cpu task] \<and>
             cores s' = (cores t)[cpu := (cores t ! cpu)\<lparr>queue := q, task_map := (task_map (cores t ! cpu))(h := None)\<rparr>]
           else sent s' = sent t \<and> cores s' = cores t))"
proof -
  let ?u = "set_shard cpu ((shards t ! cpu)\<lparr>req_map := (req_map (shards t ! cpu))(callback_key service call_id := None)\<rparr>) t"
  obtain s' where r: "reply json (run_callback cpu (run_ops json cpu nested)) cpu now1 now2 req_id call_id service ret s = rok s'"
    and inv: "sched_inv n s'" and d: "dispatch cpu ?u = rok s'"
    using callback_completes [OF assms] by blast
  have "cpu < length (shards t)"
    using d by (simp add: dispatch_rok)
  then show ?thesis
    using r inv d dispatch_shards [OF d]
    by (intro exI [of _ s'] conjI) (auto simp: dispatch_rok set_core_def split: list.splits option.splits if_splits)
qed

definition sys9_call :: sys where
  "sys9_call = set_shard 2 (new_shard\<lparr>req_map := [reply_key ''s.js'' ''k'' \<mapsto> Some (Remote_reply 2), callback_key ''s.js'' ''k'' \<mapsto> Some (Callback 7)],
     ctx_map := [''s.js'' \<mapsto> 0], contexts := [''s.js'']\<rparr>)
     (set_core 2 (core_init\<lparr>queue := [''h''], task_map := [''h'' \<mapsto> Run_func (''r'', ''h'', ''s.js'', ''g'', []) ''s.jsg'']\<rparr>) sys9)"

lemma sys9_call_inv: "sched_inv 9 sys9_call"
proof -
  have "keys_ok (new_shard\<lparr>req_map := [reply_key ''s.js'' ''k'' \<mapsto> Some (Remote_reply 2), callback_key ''s.js'' ''k'' \<mapsto> Some (Callback 7)],
     ctx_map := [''s.js'' \<mapsto> 0], contexts := [''s.js'']\<rparr>)"
    using kind_ok_reply(1) kind_ok_callback by (auto simp: keys_ok_def)
  then show ?thesis
    using sys9_inv unfolding sys9_call_def sched_inv_def by (auto intro: core_inv_set_shard)
qed

theorem callback_runs_witness:
  "\<exists>s'. reply (\<lambda>x. Inl Out_of_range) (run_callback 2 (run_ops (\<lambda>x. Inl Out_of_range) 2 [])) 2 5 6 ''r'' ''k'' ''s.js'' ''v'' sys9_call = rok s' \<and>
    sched_inv 9 s' \<and> req_map (shards s' ! 2) (callback_key ''s.js'' ''k'') = None \<and>
    Add_task 2 (Run_func (''r'', ''h'', ''s.js'', ''g'', []) ''s.jsg'') \<in> set (sent s') \<and> queue (cores s' ! 2) = []"
proof -
  have st: "req_map (shards sys9_call ! 2) (reply_key ''s.js'' ''k'') = Some (Some (Remote_reply 2))"
    "req_map (shards sys9_call ! 2) (callback_key ''s.js'' ''k'') = Some (Some (Callback 7))"
    "ctx_map (shards sys9_call ! 2) ''s.js'' = Some 0" "0 < length (contexts (shards sys9_call ! 2))" "length (shards sys9_call) = 9"
    using keys_differ [of "''s.js''" "''k''" "''s.js''" "''k''"] by (simp_all add: sys9_call_def)
  have co: "length (cores sys9_call) = 9" "curr_wf (shards sys9_call ! 2) = {}" "curr_req (shards sys9_call ! 2) = {}"
    "cores sys9_call ! 2 = core_init\<lparr>queue := [''h''], task_map := [''h'' \<mapsto> Run_func (''r'', ''h'', ''s.js'', ''g'', []) ''s.jsg'']\<rparr>"
    by (simp_all add: sys9_call_def new_shard_def)
  have "run_ops (\<lambda>x. Inl Out_of_range) 2 [] (closed 2 5 (reply_key ''s.js'' ''k'') ''k'' sys9_call) =
      rok (closed 2 5 (reply_key ''s.js'' ''k'') ''k'' sys9_call)"
    by simp
  from callback_runs [OF sys9_call_inv _ st(1,2,3,4) this, of 6 "''r''" "''v''"] show ?thesis
    using st(5) closed_shard(2) [of 2 sys9_call] co by (auto simp: closed_def Let_def freed_def)
qed

text \<open>
  The execution time of a function is the average of the samples since its last reset, of which
  there are at most 100, and its count stays below 100.
\<close>

theorem function_average:
  assumes "ts \<noteq> []"
  shows "f_exec (fold add_func_sample ts new_func_states) =
      ucast (sum_list (window 100 ts) div of_nat (length (window 100 ts))) \<and>
    window 100 ts \<noteq> [] \<and> length (window 100 ts) \<le> 100 \<and> suffix (window 100 ts) ts \<and>
    unat (f_count (fold add_func_sample ts new_func_states)) < 100"
proof -
  have e: "new_func_states = new_func_states\<lparr>f_count := 0, f_total := 0\<rparr>"
    by (simp add: new_func_states_def)
  have "f_exec (fold add_func_sample ts new_func_states) =
      ucast (sum_list (window 100 ts) div of_nat (length (window 100 ts)))"
    by (subst e) (simp add: func_samples [OF assms])
  moreover have "length (window 100 ts) \<noteq> 0"
    using assms by (cases ts rule: rev_cases) (simp_all add: window_snoc)
  moreover have "suffix (window 100 ts) ts"
    by (simp add: window_def suffix_drop)
  moreover have "unat (f_count (fold add_func_sample ts f)) < 100" if "unat (f_count f) < 100" for f
    using that by (induction ts arbitrary: f) (simp_all add: add_func_sample_count)
  ultimately show ?thesis
    using length_window [of 100 ts] by simp
qed

text \<open>
  C37. When the function of a root call throws on the shard that received the request, the runtime
  replies with the text \<^verbatim>\<open>error\<close>, which is not JSON: the exception of the reader ends the reply, and
  the promise of the response is not fulfilled.
\<close>

theorem thrown_not_answered:
  assumes "json (''error'' @ [LF]) = Inl e"
    and "sched_inv n s" and "cpu < n" and "enter_context cpu service s = rok (c, s1)" and "has_function c fn"
    and "run_ops json cpu (script r) s1 = rok s2" and "thrown r = Some x"
    and "req_map (shards s2 ! cpu) (reply_key service call_id) = Some (Some Local_reply)"
  shows "run_service json has_function cpu r (Run_func (req_id, call_id, service, fn, jsargs) func) s = rfail e"
proof -
  obtain now1 now2 nested where x: "x = (now1, now2, nested)"
    by (cases x)
  have inv: "sched_inv n s2"
    using run_ops_inv [OF enter_context_inv [OF assms(2,4)] assms(6)] .
  have "reply json (run_callback cpu (run_ops json cpu nested)) cpu now1 now2 req_id call_id service (''error'' @ [LF]) s2 = rfail e"
    using assms(1,3,8) by (simp add: reply_eq [OF inv] answer_def)
  then show ?thesis
    using assms by (simp add: run_service_def x)
qed

theorem thrown_not_answered_witness:
  "run_service (\<lambda>x. if x = ''error'' @ [LF] then Inl Out_of_range else Inr \<lparr>r_status = 200, r_message = x\<rparr>) (\<lambda>c f. True) 1
      \<lparr>script = [], thrown = Some (5, 6, []), started_at = 1, ended_at = 7\<rparr>
      (Run_func (''r'', ''r'', ''s.js'', ''f'', []) ''s.jsf'') sys9_run = rfail Out_of_range"
proof (rule thrown_not_answered [OF _ sys9_run_inv])
  show "enter_context 1 ''s.js'' sys9_run = rok (''s.js'', sys9_run)"
    by (rule sys9_run_enter)
  show "req_map (shards sys9_run ! 1) (reply_key ''s.js'' ''r'') = Some (Some Local_reply)"
    using sys9_calls(1) by (simp only: sys9_run_shard) simp
qed simp_all

end
