(* ===== verification/Platform.thy ===== *)
theory Platform
  imports Service_Runtime
begin

text \<open>
  The shards at work: requests arrive, the tasks and messages that the scheduler has sent are
  delivered one at a time in any order, and each delivery runs to its end. A state is the \<open>sys\<close>
  whose \<open>sent\<close> holds what is not delivered yet, the events delivered so far, and the requests
  accepted so far, by shard and key.
\<close>

section \<open>Steps\<close>

fun deliver ::
  "(string \<Rightarrow> fault + js_reply) \<Rightarrow> (string \<Rightarrow> string \<Rightarrow> bool) \<Rightarrow> run \<Rightarrow> u64 \<Rightarrow> u64 \<Rightarrow> js_op list \<Rightarrow> event \<Rightarrow> sys \<Rightarrow> sys res" where
  "deliver json has_function r now1 now2 nested (Add_task i t) s = run_service json has_function i r t s"
| "deliver json has_function r now1 now2 nested (Invoke_run_func core prev call) s = run_func core now1 prev call s"
| "deliver json has_function r now1 now2 nested (Invoke_reply prev from_cpu req_id call_id service ret) s =
     rbind (reply json (run_callback prev (run_ops json prev nested)) prev now1 now2 req_id call_id service ret s)
       (\<lambda>s. rok (emit (Then_dispatch from_cpu) s))"
| "deliver json has_function r now1 now2 nested (Then_dispatch i) s = dispatch i s"
| "deliver json has_function r now1 now2 nested (Set_value i key rep) s = rok s"

type_synonym config = "sys \<times> event list \<times> (nat \<times> string) list"

inductive step :: "(string \<Rightarrow> fault + js_reply) \<Rightarrow> (string \<Rightarrow> string \<Rightarrow> bool) \<Rightarrow> config \<Rightarrow> config \<Rightarrow> bool"
  for json has_function where
  registered: "register_service i service s = rok s' \<Longrightarrow> step json has_function (s, log, reqs) (s', log, reqs)"
| requested: "new_req cpu clock now req_id service fn args s = rok s' \<Longrightarrow>
     step json has_function (s, log, reqs) (s', log, (cpu, reply_key service req_id) # reqs)"
| delivered: "sent s = es1 @ e # es2 \<Longrightarrow>
     deliver json has_function r now1 now2 nested e (s\<lparr>sent := es1 @ es2\<rparr>) = rok s' \<Longrightarrow>
     step json has_function (s, log, reqs) (s', log @ [e], reqs)"

inductive reachable ::
  "nat \<Rightarrow> (string \<Rightarrow> fault + js_reply) \<Rightarrow> (string \<Rightarrow> string \<Rightarrow> bool) \<Rightarrow> config \<Rightarrow> bool"
  for n json has_function where
  at_start: "reachable n json has_function (started n, [], [])"
| later: "reachable n json has_function c \<Longrightarrow> step json has_function c c' \<Longrightarrow> reachable n json has_function c'"

inductive_cases stepE [elim]: "step json has_function (s, log, reqs) c'"

section \<open>Consistency\<close>

lemma sched_inv_sent [simp]: "sched_inv n (s\<lparr>sent := es\<rparr>) = sched_inv n s"
  by (simp add: sched_inv_def core_inv_def wf_refs_def stats_ok_def)

lemma sched_inv_emit [simp]: "sched_inv n (emit e s) = sched_inv n s"
  by (simp add: sched_inv_def)

lemma new_req_inv:
  assumes "sched_inv n s" and "new_req cpu clock now req_id service fn args s = rok s'"
  shows "sched_inv n s'"
proof -
  obtain s1 where s1: "set_req_states cpu (reply_key service req_id) Local_reply s = rok s1"
      and s2: "schedule cpu clock now cpu (req_id, req_id, service, fn, args) s1 = rok s'"
    using assms(2) unfolding new_req_def by (elim rbind_rokE)
  show ?thesis
    using states_inv(2) [OF assms(1) kind_ok_reply(2) s1] s2 by (rule schedule_inv)
qed

lemma deliver_inv:
  assumes "sched_inv n s" and "deliver json has_function r now1 now2 nested e s = rok s'"
  shows "sched_inv n s'"
  using assms
proof (cases e)
  case (Add_task i t)
  then show ?thesis
    using assms run_service_inv by simp
next
  case (Invoke_run_func core prev call)
  then show ?thesis
    using assms run_func_inv by simp
next
  case (Invoke_reply prev from_cpu req_id call_id service ret)
  then obtain t where "reply json (run_callback prev (run_ops json prev nested)) prev now1 now2 req_id call_id service ret s = rok t"
      "s' = emit (Then_dispatch from_cpu) t"
    using assms(2) by (auto elim: rbind_rokE)
  then show ?thesis
    using scripts.reply_inv [OF assms(1)] by simp
next
  case (Then_dispatch i)
  then show ?thesis
    using assms dispatch_inv by simp
qed simp

lemma step_inv:
  assumes "step json has_function c c'" and "sched_inv n (fst c)"
  shows "sched_inv n (fst c')"
  using assms
proof (cases rule: step.cases)
  case (registered i service s s' log reqs)
  then show ?thesis
    using assms(2) register_service_inv by simp
next
  case (requested cpu clock now req_id service fn args s s' log reqs)
  then show ?thesis
    using assms(2) new_req_inv by simp
next
  case (delivered s es1 e es2 r now1 now2 nested s' log reqs)
  then have "sched_inv n (s\<lparr>sent := es1 @ es2\<rparr>)"
    using assms(2) by simp
  from deliver_inv [OF this delivered(4)] show ?thesis
    by (simp add: delivered(2))
qed

lemma reachable_inv: "reachable n json has_function c \<Longrightarrow> sched_inv n (fst c)"
proof (induction rule: reachable.induct)
  case at_start
  show ?case
    using start_all_started(2) [of "[0..<n]" n] by (simp add: lessThan_atLeast0)
next
  case (later c c')
  then show ?case
    using step_inv by blast
qed

section \<open>Responses\<close>

text \<open>
  \<open>silent s s'\<close>: no response is sent on the way from \<open>s\<close> to \<open>s'\<close>, and no promise appears that was
  not there.
\<close>

definition no_value :: "event \<Rightarrow> bool" where
  "no_value e \<longleftrightarrow> (\<forall>i key rep. e \<noteq> Set_value i key rep)"

definition promised :: "sys \<Rightarrow> nat \<Rightarrow> string \<Rightarrow> bool" where
  "promised s i key \<longleftrightarrow> i < length (shards s) \<and> req_map (shards s ! i) key = Some (Some Local_reply)"

definition silent :: "sys \<Rightarrow> sys \<Rightarrow> bool" where
  "silent s s' \<longleftrightarrow> (\<exists>es. sent s' = sent s @ es \<and> list_all no_value es) \<and> (\<forall>i key. promised s' i key \<longrightarrow> promised s i key)"

lemma silent_refl [simp]: "silent s s"
  by (simp add: silent_def)

lemma silent_trans [trans]: "silent s s' \<Longrightarrow> silent s' s'' \<Longrightarrow> silent s s''"
  unfolding silent_def by (metis append.assoc list_all_append)

lemma silentI:
  assumes "sent s' = sent s @ es" and "list_all no_value es" and "shards s' = (shards s)[i := d]"
    and "\<And>key. req_map d key = Some (Some Local_reply) \<Longrightarrow> req_map (shards s ! i) key = Some (Some Local_reply)"
  shows "silent s s'"
proof -
  have "promised s j key" if "promised s' j key" for j key
    using that assms(3,4) by (cases "j = i") (auto simp: promised_def)
  then show ?thesis
    using assms(1,2) by (auto simp: silent_def)
qed

lemma silent_same:
  assumes "sent s' = sent s @ es" and "list_all no_value es" and "shards s' = shards s"
  shows "silent s s'"
  using assms by (auto simp: silent_def promised_def)

lemma dispatch_silent: "dispatch i s = rok s' \<Longrightarrow> silent s s'"
  by (auto simp: dispatch_rok no_value_def intro: silent_same split: list.splits option.splits if_splits)

lemma ensure_states_silent:
  assumes "ensure_states i p key func s = rok s'"
  shows "silent s s'"
proof (rule silentI [where es = "[]"])
  show "sent s' = sent s @ []"
    using assms by (auto simp: ensure_states_def Let_def step_rok)
  show "shards s' = (shards s)[i := shards s' ! i]"
    using ensure_states_shards [OF assms] by (metis list_update_id list_update_overwrite nth_list_update_eq
        list_update_beyond not_le)
  fix k assume "req_map (shards s' ! i) k = Some (Some Local_reply)"
  then show "req_map (shards s ! i) k = Some (Some Local_reply)"
    using assms by (auto simp: ensure_states_def Let_def step_rok split: if_splits)
qed simp

lemma place_task_silent:
  assumes "place_task cpu call fuse d s = rok s'" and "req_map d = req_map (shards s ! cpu)"
  shows "silent s s'"
proof -
  obtain req_id call_id service fn jsargs where call: "call = (req_id, call_id, service, fn, jsargs)"
    by (cases call)
  show ?thesis
  proof (cases fuse)
    case True
    show ?thesis
      by (rule silentI [where i = cpu and d = "d\<lparr>curr_wf := insert req_id (curr_wf d)\<rparr>"
            and es = "[Add_task cpu (Run_func call (service @ fn))]"])
        (use assms True in \<open>auto simp: place_task_def call Let_def no_value_def\<close>)
  next
    case False
    show ?thesis
      by (rule silentI [where i = cpu and d = "d\<lparr>curr_req := insert call_id (curr_req d)\<rparr>" and es = "[]"])
        (use assms False in \<open>auto simp: place_task_def call Let_def step_rok\<close>)
  qed
qed

lemma run_func_silent:
  assumes r: "run_func cpu now p call s = rok s'"
  shows "silent s s'"
proof -
  obtain req_id call_id service fn jsargs where call: "call = (req_id, call_id, service, fn, jsargs)"
    by (cases call)
  obtain s1 d0 s2 and ws :: wf_states and s3 where
    s1: "ensure_states cpu p (reply_key service call_id) (service @ fn) s = rok s1" and
    d0: "shard_at cpu s1 = rok d0" and
    s2: "lock cpu (set_shard cpu (if req_id = call_id then d0\<lparr>wf_starts := (wf_starts d0)(req_id \<mapsto> now)\<rparr>
      else d0) s1) = rok s2" and
    s3: "place_task cpu call (w_fuse ws) (if req_id = call_id
      then d0\<lparr>wf_starts := (wf_starts d0)(req_id \<mapsto> now)\<rparr> else d0) s2 = rok s3" and
    fin: "dispatch cpu (unlock s3) = rok s'"
    using r unfolding run_func_def call Let_def prod.case
    by (elim rbind_pair_rokE rbind_rokE) (rule that [unfolded call])
  have d: "d0 = shards s1 ! cpu" "cpu < length (shards s1)"
    using d0 by (simp_all add: shard_at_rok)
  have "silent s s1"
    using s1 by (rule ensure_states_silent)
  also have "silent s1 s2"
    by (rule silentI [where i = cpu and es = "[]" and d = "if req_id = call_id
        then d0\<lparr>wf_starts := (wf_starts d0)(req_id \<mapsto> now)\<rparr> else d0"])
      (use s2 d in \<open>auto simp: lock_rok split: if_splits\<close>)
  also have "silent s2 s3"
    by (rule place_task_silent [OF s3]) (use s2 d in \<open>auto simp: lock_rok\<close>)
  also have "silent s3 (unlock s3)"
    by (rule silent_same [where es = "[]"]) simp_all
  also have "silent (unlock s3) s'"
    using fin by (rule dispatch_silent)
  finally show ?thesis .
qed

lemma get_core_sent: "get_core i clock e c s = rok (k, s') \<Longrightarrow> sent s' = sent s"
proof -
  assume g: "get_core i clock e c s = rok (k, s')"
  obtain t0 t1 t2 where clock: "clock = (t0, t1, t2)"
    by (cases clock)
  have occ: "occupy ix t e c u = rok (k, s') \<Longrightarrow> sent s' = sent u" for ix t u
    by (auto simp: occupy_def step_rok Let_def split: option.splits)
  have "\<not> e < GATE"
    by (simp add: GATE_def)
  then show ?thesis
    using g occ [of "Some i" t0 s] occ [of _ t0 "s\<lparr>mu := Some i\<rparr>"] unfolding get_core_def clock
    by (auto simp: step_rok Let_def split: if_splits)
qed

lemma schedule_silent:
  assumes "schedule cpu clock now p call s = rok s'"
  shows "silent s s'"
proof -
  obtain req_id call_id service fn jsargs where call: "call = (req_id, call_id, service, fn, jsargs)"
    by (cases call)
  obtain s1 s2 and ws :: wf_states and f :: func_states and core s3 where
    s1: "ensure_states cpu p (reply_key service call_id) (service @ fn) s = rok s1" and
    s2: "s2 = note_workflow req_id call_id service (service @ fn) s1" and
    pick: "(if w_fuse ws then if req_id = call_id then get_core cpu clock (scast (w_exec ws)) call_id s2 else rok (cpu, s2)
       else get_core cpu clock (scast (f_exec f)) call_id s2) = rok (core, s3)" and
    fin: "(if core \<noteq> cpu then rok (emit (Invoke_run_func core p call) s3) else run_func cpu now p call s3) = rok s'"
    using assms unfolding schedule_def call Let_def prod.case
    by (elim rbind_pair_rokE rbind_rokE) (rule that [unfolded call, OF _ refl])
  have "silent s s1"
    using s1 by (rule ensure_states_silent)
  also have "silent s1 s2"
    by (rule silent_same [where es = "[]"]) (simp_all add: s2 note_workflow_eq)
  also have "silent s2 s3"
    using pick get_core_same(3) get_core_sent by (intro silent_same [where es = "[]"]) (auto split: if_splits)
  also have "silent s3 s'"
  proof (cases "core = cpu")
    case True
    then show ?thesis
      using fin run_func_silent [of cpu now p call s3 s'] by simp
  next
    case False
    then show ?thesis
      using fin by (intro silent_same [where es = "[Invoke_run_func core p call]"]) (auto simp: no_value_def)
  qed
  finally show ?thesis .
qed

lemma states_silent:
  "get_req_states i key s = rok (p, s') \<Longrightarrow> silent s s'"
  "set_req_states i key (Callback f) s = rok s' \<Longrightarrow> silent s s'"
  "del_req_states i key s = rok s' \<Longrightarrow> silent s s'"
proof -
  show "silent s s'" if "get_req_states i key s = rok (p, s')"
    using that by (intro silentI [where i = i and es = "[]" and d = "shards s' ! i"])
      (auto simp: get_req_states_def step_rok split: option.splits if_splits)
  show "silent s s'" if "set_req_states i key (Callback f) s = rok s'"
    using that by (intro silentI [where i = i and es = "[]" and d = "shards s' ! i"])
      (auto simp: set_req_states_def step_rok split: if_splits)
  show "silent s s'" if "del_req_states i key s = rok s'"
    using that by (intro silentI [where i = i and es = "[]" and d = "shards s' ! i"])
      (auto simp: del_req_states_def step_rok split: if_splits)
qed

lemma enter_context_silent: "enter_context i service s = rok (c, s') \<Longrightarrow> silent s s'"
  by (intro silentI [where i = i and es = "[]" and d = "shards s' ! i"])
    (auto simp: enter_context_def Let_def step_rok split: if_splits)

lemma register_service_silent: "register_service i service s = rok s' \<Longrightarrow> silent s s'"
  by (intro silentI [where i = i and es = "[]" and d = "shards s' ! i"])
    (auto simp: register_service_def step_rok split: if_splits)

lemma call_function_silent:
  "call_function cpu clock now req_id callee service fn callback jsargs s = rok s' \<Longrightarrow> silent s s'"
  unfolding call_function_def by (elim rbind_rokE) (blast intro: silent_trans states_silent(2) schedule_silent)

lemma drop_wf_silent: "drop_wf cpu r s = rok s' \<Longrightarrow> silent s s'"
  by (intro silentI [where i = cpu and es = "[]" and d = "shards s' ! cpu"])
    (auto simp: drop_wf_def step_rok split: if_splits)

lemma retire_silent: "retire cpu now call_id s = rok s' \<Longrightarrow> silent s s'"
  by (intro silentI [where i = cpu and es = "[]" and d = "shards s' ! cpu"])
    (auto simp: retire_def Let_def step_rok split: if_splits)

lemma pass_on_silent:
  assumes r: "pass_on prev cpu now req_id call_id service ret s = rok s'"
  shows "silent s s'"
proof -
  let ?t = "\<lambda>d. now - (case wf_starts d req_id of None \<Rightarrow> 0 | Some t \<Rightarrow> t)"
  obtain w and ws :: wf_states and d s2 where d: "shard_at cpu s = rok d"
    and s2: "(if w_fuse ws then drop_wf cpu req_id (set_shard cpu (d\<lparr>wf_starts := (wf_starts d)(req_id := None)\<rparr>)
          (s\<lparr>wf_map := (wf_map s)(w \<mapsto> add_wf_sample (?t d) ws)\<rparr>))
        else rok (set_shard cpu (d\<lparr>wf_starts := (wf_starts d)(req_id := None)\<rparr>)
          (s\<lparr>wf_map := (wf_map s)(w \<mapsto> add_wf_sample (?t d) ws)\<rparr>))) = rok s2"
    and s': "rok (emit (Invoke_reply prev cpu req_id call_id service ret) s2) = rok s'"
    using r unfolding pass_on_def Let_def by (elim rbind_pair_rokE rbind_rokE) (rule that)
  let ?s1 = "set_shard cpu (d\<lparr>wf_starts := (wf_starts d)(req_id := None)\<rparr>)
          (s\<lparr>wf_map := (wf_map s)(w \<mapsto> add_wf_sample (?t d) ws)\<rparr>)"
  have "silent s ?s1"
    by (rule silentI [where i = cpu and es = "[]" and d = "d\<lparr>wf_starts := (wf_starts d)(req_id := None)\<rparr>"])
      (use d in \<open>auto simp: shard_at_rok\<close>)
  also have "silent ?s1 s2"
    using s2 drop_wf_silent by (cases "w_fuse ws") auto
  also have "silent s2 s'"
    using s' by (intro silent_same [where es = "[Invoke_reply prev cpu req_id call_id service ret]"]) (auto simp: no_value_def)
  finally show ?thesis .
qed

fun fulfils :: "nat \<Rightarrow> string \<Rightarrow> event \<Rightarrow> bool" where
  "fulfils i key (Set_value j k rep) \<longleftrightarrow> i = j \<and> key = k"
| "fulfils i key e \<longleftrightarrow> False"

text \<open>The responses to a request that are on their way or still promised.\<close>

definition answers :: "nat \<Rightarrow> string \<Rightarrow> sys \<Rightarrow> nat" where
  "answers i key s = length (filter (fulfils i key) (sent s)) + (if promised s i key then 1 else 0)"

definition quiet :: "sys \<Rightarrow> sys \<Rightarrow> bool" where
  "quiet s s' \<longleftrightarrow> (\<forall>i key. answers i key s' \<le> answers i key s)"

lemma quiet_trans [trans]: "quiet s s' \<Longrightarrow> quiet s' s'' \<Longrightarrow> quiet s s''"
  unfolding quiet_def by (meson order_trans)

lemma quiet_refl [simp]: "quiet s s"
  by (simp add: quiet_def)

lemma no_value_filter: "list_all no_value es \<Longrightarrow> filter (fulfils i key) es = []"
proof (induction es)
  case (Cons e es)
  then show ?case by (cases e) (auto simp: no_value_def)
qed simp

lemma silent_quiet: "silent s s' \<Longrightarrow> quiet s s'"
  by (auto simp: silent_def quiet_def answers_def no_value_filter)

lemma rbind_dispatch_quiet:
  assumes "rbind m (dispatch cpu) = rok s'" and "\<And>t. m = rok t \<Longrightarrow> quiet s t"
  shows "quiet s s'"
proof -
  obtain t where "m = rok t" "dispatch cpu t = rok s'"
    using assms(1) by (elim rbind_rokE)
  then show ?thesis
    using assms(2) dispatch_silent silent_quiet quiet_trans by blast
qed

text \<open>What a reply needs of the runtime: a callback sends no response that was not promised.\<close>

locale quiet_runtime =
  fixes callback :: "string \<Rightarrow> string \<Rightarrow> string \<Rightarrow> sys \<Rightarrow> sys res"
  assumes callback_quiet: "callback call_id service ret t = rok t' \<Longrightarrow> quiet t t'"
begin

lemma reply_quiet:
  assumes r: "reply json callback cpu now1 now2 req_id call_id service ret s = rok s'"
  shows "quiet s s'"
proof -
  let ?key = "reply_key service call_id"
  obtain d s1 where d: "shard_at cpu s = rok d"
    and s1: "retire cpu now1 call_id (set_shard cpu (d\<lparr>req_map := (req_map d)(?key := None)\<rparr>) s) = rok s1"
    and fin: "answer json callback cpu now2 req_id call_id service ret
        (case req_map d ?key of None \<Rightarrow> None | Some p \<Rightarrow> p) s1 = rok s'"
    using r unfolding reply_def Let_def by (elim rbind_rokE) (rule that)
  let ?s0 = "set_shard cpu (d\<lparr>req_map := (req_map d)(?key := None)\<rparr>) s"
  have sil0: "silent s ?s0"
    by (rule silentI [where i = cpu and es = "[]" and d = "d\<lparr>req_map := (req_map d)(?key := None)\<rparr>"])
      (use d in \<open>auto simp: shard_at_rok split: if_splits\<close>)
  have sil1: "silent ?s0 s1"
    using s1 by (rule retire_silent)
  have q1: "quiet s s1"
    using silent_trans [OF sil0 sil1] by (rule silent_quiet)
  consider "req_map d ?key = Some (Some Local_reply)" | prev where "req_map d ?key = Some (Some (Remote_reply prev))" "prev = cpu"
    | prev where "req_map d ?key = Some (Some (Remote_reply prev))" "prev \<noteq> cpu"
    using fin unfolding answer_def by (auto split: option.splits req_states.splits if_splits)
  then show ?thesis
  proof cases
    case 1
    obtain rep where json: "json ret = Inr rep"
      using fin 1 by (cases "json ret") (auto simp: answer_def)
    let ?s2 = "emit (Set_value cpu ?key rep) s1"
    have "\<not> promised ?s0 cpu ?key"
      using d by (simp add: promised_def shard_at_rok)
    then have gone: "\<not> promised s1 cpu ?key"
      using sil1 unfolding silent_def by blast
    have was: "promised s cpu ?key"
      using 1 d by (simp add: promised_def shard_at_rok)
    have same: "filter (fulfils i k) (sent s1) = filter (fulfils i k) (sent s)" for i k
      using silent_trans [OF sil0 sil1] no_value_filter by (auto simp: silent_def)
    have "promised ?s2 i k = promised s1 i k" for i k
      by (simp add: promised_def)
    then have "answers i k ?s2 \<le> answers i k s" for i k
      using gone was same [of i k] q1 [unfolded quiet_def, rule_format, of i k] by (auto simp: answers_def split: if_splits)
    then have "quiet s ?s2"
      by (simp add: quiet_def)
    moreover have "rbind (drop_wf cpu req_id ?s2) (dispatch cpu) = rok s'"
      using fin 1 json by (simp add: answer_def)
    ultimately show ?thesis
      using rbind_dispatch_quiet drop_wf_silent silent_quiet quiet_trans by meson
  next
    case 2
    then have "rbind (callback call_id service ret s1) (dispatch cpu) = rok s'"
      using fin by (simp add: answer_def)
    then show ?thesis
      using q1 rbind_dispatch_quiet callback_quiet quiet_trans by meson
  next
    case 3
    then have "pass_on prev cpu now2 req_id call_id service ret s1 = rok s'"
      using fin by (simp add: answer_def)
    then show ?thesis
      using q1 pass_on_silent silent_quiet quiet_trans by blast
  qed
qed

end

lemma run_callback_quiet:
  assumes run: "\<And>t t'. run t = rok t' \<Longrightarrow> quiet t t'"
  shows "quiet_runtime (run_callback cpu run)"
proof
  fix t t' call_id service ret
  assume r: "run_callback cpu run call_id service ret t = rok t'"
  obtain c s1 st s2 where s1: "enter_context cpu service t = rok (c, s1)"
    and s2: "get_req_states cpu (callback_key service call_id) s1 = rok (st, s2)"
    and fin: "(case st of Some (Callback f) \<Rightarrow> rbind (run s2) (del_req_states cpu (callback_key service call_id))
       | Some st \<Rightarrow> rfail (Bad_address 0) | None \<Rightarrow> rfail Null_deref) = rok t'"
    using r unfolding run_callback_def by (elim rbind_pair_rokE) (rule that)
  obtain s3 where s3: "run s2 = rok s3" "del_req_states cpu (callback_key service call_id) s3 = rok t'"
    using fin by (auto split: option.splits req_states.splits elim!: rbind_rokE)
  have "quiet t s2"
    using enter_context_silent [OF s1] states_silent(1) [OF s2] silent_trans silent_quiet by blast
  also have "quiet s2 s3"
    using run s3(1) .
  also have "quiet s3 t'"
    using states_silent(3) [OF s3(2)] by (rule silent_quiet)
  finally show "quiet t t'" .
qed

lemma run_ops_quiet: "run_ops json cpu ops s = rok s' \<Longrightarrow> quiet s s'"
proof (induction json cpu ops s arbitrary: s' rule: run_ops.induct)
  case (1 json cpu s)
  then show ?case by simp
next
  case (2 json cpu clock now req_id callee service fn callback jsargs ops s)
  obtain s1 where s1: "call_function cpu clock now req_id callee service fn callback jsargs s = rok s1"
      "run_ops json cpu ops s1 = rok s'"
    using "2.prems" by (auto elim: rbind_rokE)
  show ?case
    using silent_quiet [OF call_function_silent [OF s1(1)]] "2.IH" [OF s1(2)] by (rule quiet_trans)
next
  case (3 json cpu now1 now2 req_id call_id service ret nested ops s)
  obtain s1 where s1: "reply json (run_callback cpu (run_ops json cpu nested)) cpu now1 now2 req_id call_id service ret s = rok s1"
      "run_ops json cpu ops s1 = rok s'"
    using "3.prems" by (auto elim: rbind_rokE)
  have "quiet_runtime (run_callback cpu (run_ops json cpu nested))"
    by (rule run_callback_quiet) (rule "3.IH"(1))
  then have "quiet s s1"
    using s1(1) by (rule quiet_runtime.reply_quiet)
  then show ?case
    using "3.IH"(2) [OF s1(2)] by (rule quiet_trans)
qed

interpretation quiet_scripts: quiet_runtime "run_callback cpu (run_ops json cpu nested)" for cpu json nested
  by (rule run_callback_quiet) (rule run_ops_quiet)

lemma run_service_quiet:
  assumes r: "run_service json has_function cpu r t s = rok s'"
  shows "quiet s s'"
proof -
  obtain req_id call_id service fn jsargs func where t: "t = Run_func (req_id, call_id, service, fn, jsargs) func"
    by (metis prod_cases5 task.exhaust)
  obtain c s1 s2 s3 m where s1: "enter_context cpu service s = rok (c, s1)"
    and s2: "run_ops json cpu (script r) s1 = rok s2"
    and s3: "(case thrown r of None \<Rightarrow> rok s2 | Some (now1, now2, nested) \<Rightarrow>
       reply json (run_callback cpu (run_ops json cpu nested)) cpu now1 now2 req_id call_id service (''error'' @ [LF]) s2) = rok s3"
    and s': "s' = s3\<lparr>func_map := m\<rparr>"
    using r unfolding run_service_def t prod.case task.case
    by (auto elim!: rbind_pair_rokE rbind_rokE split: if_splits option.splits)
  have "quiet s s1"
    using enter_context_silent [OF s1] by (rule silent_quiet)
  also have "quiet s1 s2"
    using s2 by (rule run_ops_quiet)
  also have "quiet s2 s3"
    using s3 quiet_scripts.reply_quiet by (auto split: option.splits)
  also have "quiet s3 s'"
    by (rule silent_quiet, rule silent_same [where es = "[]"]) (simp_all add: s')
  finally show ?thesis .
qed

lemma deliver_quiet:
  assumes "deliver json has_function r now1 now2 nested e s = rok s'"
  shows "quiet s s'"
proof (cases e)
  case (Add_task i t)
  then show ?thesis
    using assms run_service_quiet by simp
next
  case (Invoke_run_func core prev call)
  then show ?thesis
    using assms run_func_silent silent_quiet by simp
next
  case (Invoke_reply prev from_cpu req_id call_id service ret)
  then obtain t where t: "reply json (run_callback prev (run_ops json prev nested)) prev now1 now2 req_id call_id service ret s = rok t"
      "s' = emit (Then_dispatch from_cpu) t"
    using assms by (auto elim: rbind_rokE)
  have "silent t s'"
    using t(2) by (intro silent_same [where es = "[Then_dispatch from_cpu]"]) (auto simp: no_value_def)
  then show ?thesis
    using quiet_scripts.reply_quiet [OF t(1)] silent_quiet quiet_trans by blast
next
  case (Then_dispatch i)
  then show ?thesis
    using assms dispatch_silent silent_quiet by simp
next
  case (Set_value i key rep)
  then show ?thesis
    using assms by simp
qed

text \<open>A new request promises one response, under its own key.\<close>

lemma new_req_answers:
  assumes "new_req cpu clock now req_id service fn args s = rok s'"
  shows "answers i key s' \<le> answers i key s + (if i = cpu \<and> key = reply_key service req_id then 1 else 0)"
proof -
  obtain s1 where s1: "set_req_states cpu (reply_key service req_id) Local_reply s = rok s1"
      and s2: "schedule cpu clock now cpu (req_id, req_id, service, fn, args) s1 = rok s'"
    using assms unfolding new_req_def by (elim rbind_rokE)
  have "sent s1 = sent s" "promised s1 i key \<Longrightarrow> i = cpu \<and> key = reply_key service req_id \<or> promised s i key"
    using s1 by (auto simp: set_req_states_def step_rok promised_def nth_list_update split: if_splits)
  then have "answers i key s1 \<le> answers i key s + (if i = cpu \<and> key = reply_key service req_id then 1 else 0)"
    by (auto simp: answers_def)
  moreover have "answers i key s' \<le> answers i key s1"
    using silent_quiet [OF schedule_silent [OF s2]] by (simp add: quiet_def)
  ultimately show ?thesis
    by linarith
qed

lemma answers_taken:
  assumes "sent s = es1 @ e # es2"
  shows "answers i key (s\<lparr>sent := es1 @ es2\<rparr>) + (if fulfils i key e then 1 else 0) = answers i key s"
  using assms by (auto simp: answers_def promised_def)

lemma responses_bounded:
  assumes "reachable n json has_function c"
  shows "length (filter (fulfils i key) (fst (snd c))) + answers i key (fst c) \<le> count_list (snd (snd c)) (i, key)"
  using assms
proof (induction rule: reachable.induct)
  case at_start
  then show ?case
    by (auto simp: answers_def promised_def started_def fresh_sys_def new_shard_def)
next
  case (later c c')
  from later(2) show ?case
  proof (cases rule: step.cases)
    case (registered j service s s' log reqs)
    have "answers i key s' \<le> answers i key s"
      using silent_quiet [OF register_service_silent [OF registered(3)]] by (simp add: quiet_def)
    then show ?thesis
      using later(3) registered(1,2) by auto
  next
    case (requested cpu clock now req_id service fn args s s' log reqs)
    then show ?thesis
      using later(3) new_req_answers [OF requested(3), of i key] by auto
  next
    case (delivered s es1 e es2 r now1 now2 nested s' log reqs)
    have "answers i key s' \<le> answers i key (s\<lparr>sent := es1 @ es2\<rparr>)"
      using deliver_quiet [OF delivered(4)] by (simp add: quiet_def)
    then show ?thesis
      using later(3) answers_taken [OF delivered(3), of i key] delivered(1,2) by auto
  qed
qed

section \<open>A request to idle shards is answered\<close>

lemma get_core_queued:
  assumes inv: "sched_inv n s" and i: "i < n"
    and some: "HW_Q_COUNT < n \<longrightarrow> (\<exists>k. HW_Q_COUNT \<le> k \<and> k < n \<and> till s k \<noteq> - 1)"
  shows "\<exists>k t. get_core i clock e c s = rok (k, queued k t c e s) \<and> k < n"
proof (cases clock)
  case (fields t0 t1 t2)
  show ?thesis
  proof (cases "HW_Q_COUNT < n")
    case True
    then show ?thesis
      using get_core_picks_core [OF inv i True, of t0 t1 t2 e c] some fields by blast
  next
    case False
    then show ?thesis
      using small_machine_no_lock [of n s i t0 t1 t2 e c] core_states_lengths [OF inv] i fields by auto
  qed
qed

lemma queued_same:
  "shards (queued k t c e s) = shards s" "sent (queued k t c e s) = sent s" "wf_map (queued k t c e s) = wf_map s"
  "req_wf_map (queued k t c e s) = req_wf_map s" "func_map (queued k t c e s) = func_map s"
  "k < length (cores s) \<Longrightarrow> queue (cores (queued k t c e s) ! k) = queue (cores s ! k) @ [c]"
  by (simp_all add: queued_def)

lemma ensure_states_same_sent: "ensure_states i p key f s = rok s' \<Longrightarrow> sent s' = sent s"
  by (auto simp: ensure_states_def Let_def step_rok)

lemma ensure_states_reqs:
  assumes "ensure_states i p key f s = rok s'"
  shows "shards s' = (shards s)[i := (shards s ! i)\<lparr>req_map := (case req_map (shards s ! i) key of
     None \<Rightarrow> (req_map (shards s ! i))(key \<mapsto> Some (Remote_reply p)) | Some x \<Rightarrow> req_map (shards s ! i))\<rparr>]"
proof -
  have "(shards s)[i := (shards s ! i)\<lparr>req_map := req_map (shards s ! i)\<rparr>] = shards s"
    by simp
  then show ?thesis
    using assms by (auto simp: ensure_states_def Let_def step_rok split: option.splits)
qed

lemma run_func_starts:
  assumes inv: "sched_inv n s" and k: "k < n" and q: "queue (cores s ! k) = [call_id]" and cw: "curr_wf (shards s ! k) = {}"
    and w: "workflow_of req_id s = rok (w, ws)"
  shows "\<exists>s' d. run_func k now p (req_id, call_id, service, fn, jsargs) s = rok s' \<and>
    sent s' = sent s @ [Add_task k (Run_func (req_id, call_id, service, fn, jsargs) (service @ fn))] \<and>
    shards s' = (shards s)[k := d] \<and> ctx_map d = ctx_map (shards s ! k) \<and> contexts d = contexts (shards s ! k) \<and>
    req_map d = (case req_map (shards s ! k) (reply_key service call_id) of
       None \<Rightarrow> (req_map (shards s ! k))(reply_key service call_id \<mapsto> Some (Remote_reply p)) | Some x \<Rightarrow> req_map (shards s ! k)) \<and>
    wf_map s' = wf_map s \<and> req_wf_map s' = req_wf_map s \<and> func_map s' (service @ fn) \<noteq> None"
proof -
  let ?call = "(req_id, call_id, service, fn, jsargs)" and ?key = "reply_key service call_id"
  let ?t = "Run_func ?call (service @ fn)"
  have len: "k < length (cores s)" "k < length (shards s)" "mu s = None"
    using core_states_lengths [OF inv] k by auto
  obtain s1 where s1: "ensure_states k p ?key (service @ fn) s = rok s1"
    using ensure_states_returns [OF len(2)] by blast
  have core1: "core_inv n s1" "mu s1 = None" "func_map s1 (service @ fn) \<noteq> None"
    using ensure_states_inv [OF _ s1, of n] inv by (auto simp: sched_inv_def)
  note same1 = ensure_states_same [OF s1] ensure_states_same_sent [OF s1] ensure_states_reqs [OF s1]
  define d0 where "d0 = shards s1 ! k"
  have d0: "ctx_map d0 = ctx_map (shards s ! k)" "contexts d0 = contexts (shards s ! k)" "curr_wf d0 = {}"
    "req_map d0 = (case req_map (shards s ! k) ?key of
       None \<Rightarrow> (req_map (shards s ! k))(?key \<mapsto> Some (Remote_reply p)) | Some x \<Rightarrow> req_map (shards s ! k))"
    using same1(5) len(2) cw by (simp_all add: d0_def)
  have len1: "length (shards s1) = length (shards s)"
    by (simp add: same1(5))
  define d where "d = (if req_id = call_id then d0\<lparr>wf_starts := (wf_starts d0)(req_id \<mapsto> now)\<rparr> else d0)"
  have d: "ctx_map d = ctx_map d0" "contexts d = contexts d0" "curr_wf d = {}" "req_map d = req_map d0"
    using d0(3) by (simp_all add: d_def)
  define s2 where "s2 = (set_shard k d s1)\<lparr>mu := Some k\<rparr>"
  have lk: "shard_at k s1 = rok d0" "lock k (set_shard k d s1) = rok s2"
    using len len1 core1(2) by (simp_all add: shard_at_def lock_def s2_def d0_def)
  have w2: "workflow_of req_id s2 = rok (w, ws)"
    using w by (simp add: workflow_of_rok s2_def same1)
  have sh2: "shards s2 = (shards s)[k := d]" "cores s2 = cores s" "sent s2 = sent s" "wf_map s2 = wf_map s"
    "req_wf_map s2 = req_wf_map s" "func_map s2 (service @ fn) \<noteq> None"
    using same1 core1(3) by (simp_all add: s2_def)
  have run: "run_func k now p ?call s = rbind (place_task k ?call (w_fuse ws) d s2) (\<lambda>s. dispatch k (unlock s))"
    using s1 lk w2 by (simp add: run_func_def Let_def d_def [symmetric])
  show ?thesis
  proof (cases "w_fuse ws")
    case True
    define d' where "d' = d\<lparr>curr_wf := insert req_id (curr_wf d)\<rparr>"
    let ?u = "unlock (emit (Add_task k ?t) (set_shard k d' s2))"
    have "dispatch k ?u = rok ?u"
      using len q by (simp add: dispatch_def core_at_def shard_at_def sh2 d'_def lock_def rok_def [symmetric] unlock_def emit_def set_shard_def)
    then have "run_func k now p ?call s = rok ?u"
      using True by (simp add: run place_task_def Let_def d'_def)
    then show ?thesis
      using sh2 d d0 by (intro exI [of _ ?u] exI [of _ d']) (simp add: d'_def)
  next
    case False
    define d' where "d' = d\<lparr>curr_req := insert call_id (curr_req d)\<rparr>"
    define c' where "c' = (cores s ! k)\<lparr>task_map := (task_map (cores s ! k))(call_id \<mapsto> ?t)\<rparr>"
    let ?u = "unlock (set_core k c' (set_shard k d' s2))"
    define v where "v = set_core k (c'\<lparr>queue := [], task_map := (task_map c')(call_id := None)\<rparr>) (emit (Add_task k ?t) ?u)"
    have u: "cores ?u ! k = c'" "shards ?u ! k = d'" "mu ?u = None" "k < length (cores ?u)" "k < length (shards ?u)"
      using len by (simp_all add: sh2)
    have c': "queue c' = [call_id]" "task_map c' call_id = Some ?t"
      using q by (simp_all add: c'_def)
    have "dispatch k ?u = rok v"
      using u c' d(3) by (simp add: dispatch_rok v_def d'_def)
    then have "run_func k now p ?call s = rok v"
      using False len by (simp add: run place_task_def Let_def core_at_def sh2 c'_def d'_def)
    then show ?thesis
      using sh2 d d0 by (intro exI [of _ v] exI [of _ d']) (simp add: v_def d'_def)
  qed
qed

lemma note_workflow_root:
  "\<exists>ws. wf_map (note_workflow r r service func s) func = Some ws \<and> req_wf_map (note_workflow r r service func s) r = Some (Some func)"
  by (auto simp: note_workflow_eq)

lemma new_req_places:
  assumes inv: "sched_inv n s" and i: "cpu < n"
    and some: "HW_Q_COUNT < n \<longrightarrow> (\<exists>k. HW_Q_COUNT \<le> k \<and> k < n \<and> till s k \<noteq> - 1)"
  shows "\<exists>k s3 w ws. k < n \<and> sched_inv n s3 \<and> sent s3 = sent s \<and> workflow_of req_id s3 = rok (w, ws) \<and>
    shards s3 = (shards s)[cpu := (shards s ! cpu)\<lparr>req_map := (req_map (shards s ! cpu))(reply_key service req_id \<mapsto> Some Local_reply)\<rparr>] \<and>
    queue (cores s3 ! k) = queue (cores s ! k) @ [req_id] \<and>
    new_req cpu clock now req_id service fn args s =
      (if k \<noteq> cpu then rok (emit (Invoke_run_func k cpu (req_id, req_id, service, fn, args)) s3)
       else run_func cpu now cpu (req_id, req_id, service, fn, args) s3)"
proof -
  let ?key = "reply_key service req_id" and ?call = "(req_id, req_id, service, fn, args)" and ?func = "service @ fn"
  define d where "d = (shards s ! cpu)\<lparr>req_map := (req_map (shards s ! cpu))(?key \<mapsto> Some Local_reply)\<rparr>"
  define s0 where "s0 = set_shard cpu d s"
  have len: "cpu < length (shards s)" "length (cores s) = n"
    using core_states_lengths [OF inv] i by auto
  have s0: "set_req_states cpu ?key Local_reply s = rok s0"
    using len by (simp add: set_req_states_def shard_at_def s0_def d_def)
  have inv0: "sched_inv n s0"
    using states_inv(2) [OF inv kind_ok_reply(2) s0] .
  have sh0: "shards s0 = (shards s)[cpu := d]"
    by (simp add: s0_def)
  obtain s1 where s1: "ensure_states cpu cpu ?key ?func s0 = rok s1"
    using ensure_states_returns [of cpu s0 cpu ?key ?func] len by (auto simp: sh0)
  have inv1: "sched_inv n s1" and f1: "func_map s1 ?func \<noteq> None"
    using ensure_states_inv [OF _ s1, of n] inv0 by (auto simp: sched_inv_def)
  have sh1: "shards s1 = (shards s)[cpu := d]"
    using ensure_states_reqs [OF s1] len by (simp add: sh0 d_def)
  define s2 where "s2 = note_workflow req_id req_id service ?func s1"
  have inv2: "sched_inv n s2"
    unfolding s2_def by (rule note_workflow_inv [OF inv1])
  have s2: "shards s2 = shards s1" "sent s2 = sent s" "cores s2 = cores s" "func_map s2 = func_map s1"
    using ensure_states_same_sent [OF s1] ensure_states_same [OF s1] by (simp_all add: s2_def note_workflow_eq s0_def)
  obtain ws where w: "workflow_of req_id s2 = rok (?func, ws)"
    using note_workflow_root [of req_id service ?func s1] by (auto simp: workflow_of_rok s2_def)
  obtain f where f: "func_map s2 ?func = Some f"
    using f1 s2 by auto
  define e where "e = (if w_fuse ws then scast (w_exec ws) else scast (f_exec f) :: u64)"
  obtain k t where g: "get_core cpu clock e req_id s2 = rok (k, queued k t req_id e s2)" and k: "k < n"
    using get_core_queued [OF inv2 i, of clock e req_id] some s2 by auto
  define s3 where "s3 = queued k t req_id e s2"
  have pick: "(if w_fuse ws then (if req_id = req_id then get_core cpu clock (scast (w_exec ws)) req_id s2 else rok (cpu, s2))
      else get_core cpu clock (scast (f_exec f)) req_id s2) = rok (k, s3)"
    using g by (simp add: e_def s3_def split: if_splits)
  have "schedule cpu clock now cpu ?call s0 = (if k \<noteq> cpu then rok (emit (Invoke_run_func k cpu ?call) s3)
       else run_func cpu now cpu ?call s3)"
    unfolding schedule_def Let_def prod.case s1 rbind_simps s2_def [symmetric] w f option.case pick ..
  then have "new_req cpu clock now req_id service fn args s = (if k \<noteq> cpu
       then rok (emit (Invoke_run_func k cpu ?call) s3) else run_func cpu now cpu ?call s3)"
    by (simp add: new_req_def s0)
  moreover have "sched_inv n s3"
    using get_core_inv [OF inv2 g] by (simp add: s3_def)
  moreover have "workflow_of req_id s3 = rok (?func, ws)"
    using w by (simp add: workflow_of_rok s3_def queued_same)
  moreover have "queue (cores s3 ! k) = queue (cores s ! k) @ [req_id]"
    using k len s2 by (simp add: s3_def queued_same)
  moreover have "sent s3 = sent s" "shards s3 = (shards s)[cpu := d]"
    using s2 sh1 by (simp_all add: s3_def queued_same)
  ultimately show ?thesis
    using k unfolding d_def by blast
qed

definition reply_run :: "u64 \<Rightarrow> u64 \<Rightarrow> call \<Rightarrow> string \<Rightarrow> run" where
  "reply_run now1 now2 call ret = (case call of (req_id, call_id, service, fn, args) \<Rightarrow>
     \<lparr>script = [Reply now1 now2 req_id call_id service ret []], thrown = None, started_at = now1, ended_at = now2\<rparr>)"

lemma run_service_reply:
  assumes "i < length (shards s)" and "ctx_map (shards s ! i) service = Some c" and "c < length (contexts (shards s ! i))"
    and "has_function (contexts (shards s ! i) ! c) fn"
    and "reply json (run_callback i (run_ops json i [])) i now1 now2 req_id call_id service ret s = rok s1"
    and "func_map s1 func = Some f"
  shows "run_service json has_function i (reply_run now1 now2 (req_id, call_id, service, fn, args) ret)
      (Run_func (req_id, call_id, service, fn, args) func) s
    = rok (s1\<lparr>func_map := (func_map s1)(func \<mapsto> add_func_sample (now2 - now1) f)\<rparr>)"
  using assms enter_context_known [OF assms(1-3)] by (simp add: run_service_def reply_run_def)

lemma reply_remote_stats:
  assumes r: "reply json callback cpu now1 now2 req_id call_id service ret s = rok s'"
    and inv: "sched_inv n s" and i: "cpu < n"
    and st: "req_map (shards s ! cpu) (reply_key service call_id) = Some (Some (Remote_reply prev))" and prev: "prev \<noteq> cpu"
  shows "func_map s' = func_map s"
proof -
  let ?c = "closed cpu now1 (reply_key service call_id) call_id s"
  have p: "pass_on prev cpu now2 req_id call_id service ret ?c = rok s'"
    using r st prev by (simp add: reply_eq [OF inv i] answer_def)
  have invc: "sched_inv n ?c"
    by (rule closed_inv [OF inv i])
  obtain w ws where w: "workflow_of req_id ?c = rok (w, ws)"
    using p unfolding pass_on_def by (elim rbind_pair_rokE)
  show ?thesis
    using p core_states_lengths [OF invc] i by (subst (asm) pass_on_eq [OF w]) (auto simp: closed_def Let_def)
qed

text \<open>Work on what was sent, short of writing responses.\<close>

inductive work :: "(string \<Rightarrow> fault + js_reply) \<Rightarrow> (string \<Rightarrow> string \<Rightarrow> bool) \<Rightarrow> sys \<times> event list \<Rightarrow> sys \<times> event list \<Rightarrow> bool"
  for json has_function where
  delivered: "sent s = es1 @ e # es2 \<Longrightarrow> no_value e \<Longrightarrow>
     deliver json has_function r now1 now2 nested e (s\<lparr>sent := es1 @ es2\<rparr>) = rok s' \<Longrightarrow>
     work json has_function (s, log) (s', log @ [e])"

lemma work_step: "work json has_function c c' \<Longrightarrow> step json has_function (fst c, snd c, reqs) (fst c', snd c', reqs)"
  by (induction rule: work.induct) (auto intro: step.delivered)

lemma work_steps:
  "(work json has_function)\<^sup>*\<^sup>* c c' \<Longrightarrow> (step json has_function)\<^sup>*\<^sup>* (fst c, snd c, reqs) (fst c', snd c', reqs)"
proof (induction rule: rtranclp_induct)
  case base
  show ?case by simp
next
  case (step c1 c2)
  then show ?case
    using work_step rtranclp.rtrancl_into_rtrancl by metis
qed

lemma work_deliver:
  "sent s = es @ [e] \<Longrightarrow> no_value e \<Longrightarrow> deliver json has_function r now1 now2 nested e (s\<lparr>sent := es\<rparr>) = rok s' \<Longrightarrow>
     work json has_function (s, log) (s', log @ [e])"
  using work.delivered [of s es e "[]"] by simp

lemma no_value_simps [simp]: "no_value (Add_task i t)" "no_value (Invoke_run_func core prev call)"
  "no_value (Invoke_reply prev from_cpu req_id call_id service ret)" "no_value (Then_dispatch i)" "\<not> no_value (Set_value i key rep)"
  by (auto simp: no_value_def)

lemma parts_sent [simp]: "shards (s\<lparr>sent := es\<rparr>) = shards s" "cores (s\<lparr>sent := es\<rparr>) = cores s"
  "workflow_of r (s\<lparr>sent := es\<rparr>) = workflow_of r s"
  by (auto simp: workflow_of_def split: option.splits)

lemma deliver_local_run:
  assumes inv: "sched_inv n s" and i: "cpu < n"
    and ctx: "ctx_map (shards s ! cpu) service = Some c" "c < length (contexts (shards s ! cpu))"
    and has: "has_function (contexts (shards s ! cpu) ! c) fn" and func: "func_map s (service @ fn) \<noteq> None"
    and st: "req_map (shards s ! cpu) (reply_key service req_id) = Some (Some Local_reply)" and json: "json ret = Inr rep"
  shows "\<exists>s'. run_service json has_function cpu (reply_run now1 now2 (req_id, req_id, service, fn, args) ret)
      (Run_func (req_id, req_id, service, fn, args) (service @ fn)) s = rok s' \<and>
    (\<exists>es. sent s' = sent s @ Set_value cpu (reply_key service req_id) rep # es)"
proof -
  let ?cb = "run_callback cpu (run_ops json cpu [])"
  obtain s1 where s1: "reply json ?cb cpu now1 now2 req_id req_id service ret s = rok s1"
    and ev: "\<exists>es. sent s1 = sent s @ Set_value cpu (reply_key service req_id) rep # es"
    using reply_local [where json = json, OF inv i st json, of ?cb now1 now2 req_id] by blast
  obtain f where "func_map s1 (service @ fn) = Some f"
    using reply_local_stats [OF s1 st inv i] func by auto
  then show ?thesis
    using run_service_reply [of cpu s service c has_function fn, OF _ ctx has s1] core_states_lengths [OF inv] i ev by auto
qed

lemma deliver_remote_run:
  assumes inv: "sched_inv n s" and k: "k < n" and cpu: "cpu \<noteq> k"
    and ctx: "ctx_map (shards s ! k) service = Some c" "c < length (contexts (shards s ! k))"
    and has: "has_function (contexts (shards s ! k) ! c) fn" and func: "func_map s (service @ fn) \<noteq> None"
    and st: "req_map (shards s ! k) (reply_key service req_id) = Some (Some (Remote_reply cpu))"
    and w: "workflow_of req_id s = rok (w, ws)"
  shows "\<exists>s' d. run_service json has_function k (reply_run now1 now2 (req_id, req_id, service, fn, args) ret)
      (Run_func (req_id, req_id, service, fn, args) (service @ fn)) s = rok s' \<and>
    sent s' = sent s @ [Invoke_reply cpu k req_id req_id service ret] \<and> shards s' = (shards s)[k := d]"
proof -
  let ?cb = "run_callback k (run_ops json k [])"
  have w': "req_wf_map s req_id = Some (Some w)" "wf_map s w = Some ws"
    using w by (simp_all add: workflow_of_rok)
  obtain s1 d where s1: "reply json ?cb k now1 now2 req_id req_id service ret s = rok s1"
    and ev: "sent s1 = sent s @ [Invoke_reply cpu k req_id req_id service ret]" and sh: "shards s1 = (shards s)[k := d]"
    using reply_remote [OF inv k st cpu w', of json ?cb now1 now2 ret] by blast
  obtain f where "func_map s1 (service @ fn) = Some f"
    using reply_remote_stats [OF s1 inv k st cpu] func by auto
  then show ?thesis
    using run_service_reply [of k s service c has_function fn, OF _ ctx has s1] core_states_lengths [OF inv] k ev sh by auto
qed

text \<open>A shard at rest that can run the function, where the request is not known.\<close>

definition at_rest :: "(string \<Rightarrow> string \<Rightarrow> bool) \<Rightarrow> string \<Rightarrow> string \<Rightarrow> string \<Rightarrow> sys \<Rightarrow> nat \<Rightarrow> bool" where
  "at_rest has_function req_id service fn s i \<longleftrightarrow> queue (cores s ! i) = [] \<and> curr_wf (shards s ! i) = {} \<and>
     req_map (shards s ! i) (reply_key service req_id) = None \<and>
     (\<exists>c < length (contexts (shards s ! i)). ctx_map (shards s ! i) service = Some c \<and> has_function (contexts (shards s ! i) ! c) fn)"

lemma request_answered_path:
  assumes inv: "sched_inv n s" and i: "cpu < n"
    and some: "HW_Q_COUNT < n \<longrightarrow> (\<exists>k. HW_Q_COUNT \<le> k \<and> k < n \<and> till s k \<noteq> - 1)"
    and rest: "\<forall>i < n. at_rest has_function req_id service fn s i" and json: "json ret = Inr rep"
  shows "\<exists>s1 s' log'. new_req cpu clock now req_id service fn args s = rok s1 \<and>
    (work json has_function)\<^sup>*\<^sup>* (s1, log) (s', log') \<and>
    (\<exists>es. sent s' = sent s @ Set_value cpu (reply_key service req_id) rep # es)"
proof -
  let ?key = "reply_key service req_id" and ?call = "(req_id, req_id, service, fn, args)"
  let ?work = "work json has_function"
  let ?run = "reply_run 0 0 ?call ret" and ?task = "Run_func ?call (service @ fn)"
  obtain k s3 w ws where k: "k < n" and inv3: "sched_inv n s3" and sent3: "sent s3 = sent s"
    and w: "workflow_of req_id s3 = rok (w, ws)"
    and sh3: "shards s3 = (shards s)[cpu := (shards s ! cpu)\<lparr>req_map := (req_map (shards s ! cpu))(?key \<mapsto> Some Local_reply)\<rparr>]"
    and q3: "queue (cores s3 ! k) = queue (cores s ! k) @ [req_id]"
    and new: "new_req cpu clock now req_id service fn args s =
      (if k \<noteq> cpu then rok (emit (Invoke_run_func k cpu ?call) s3) else run_func cpu now cpu ?call s3)"
    using new_req_places [OF inv i some, of req_id service clock now fn args] by blast
  have len: "length (shards s) = n"
    using core_states_lengths [OF inv] by simp
  have rest_k: "at_rest has_function req_id service fn s k"
    using rest k by blast
  have q: "queue (cores s3 ! k) = [req_id]" and cw: "curr_wf (shards s3 ! k) = {}"
    using q3 sh3 rest_k len i by (auto simp: at_rest_def nth_list_update)
  obtain c where c: "c < length (contexts (shards s3 ! k))" "ctx_map (shards s3 ! k) service = Some c"
    "has_function (contexts (shards s3 ! k) ! c) fn"
    using rest_k sh3 len i by (auto simp: at_rest_def nth_list_update)
  obtain s4 d where s4: "run_func k now cpu ?call s3 = rok s4"
    and sent4: "sent s4 = sent s @ [Add_task k ?task]" and sh4: "shards s4 = (shards s3)[k := d]"
    and d: "ctx_map d = ctx_map (shards s3 ! k)" "contexts d = contexts (shards s3 ! k)"
      "req_map d = (case req_map (shards s3 ! k) ?key of
         None \<Rightarrow> (req_map (shards s3 ! k))(?key \<mapsto> Some (Remote_reply cpu)) | Some x \<Rightarrow> req_map (shards s3 ! k))"
    and wf4: "wf_map s4 = wf_map s3" "req_wf_map s4 = req_wf_map s3" "func_map s4 (service @ fn) \<noteq> None"
    using run_func_starts [OF inv3 k q cw w, of now cpu service fn args] sent3 by auto
  have inv4: "sched_inv n s4"
    using run_func_inv [OF inv3 s4] .
  let ?s4 = "s4\<lparr>sent := sent s\<rparr>"
  have sk: "shards s4 ! k = d"
    using sh4 sh3 len k by simp
  show ?thesis
  proof (cases "k = cpu")
    case True
    have st1: "new_req cpu clock now req_id service fn args s = rok s4"
      using new s4 True by simp
    have loc: "req_map (shards ?s4 ! cpu) ?key = Some (Some Local_reply)"
      using sk d(3) sh3 len i True by simp
    obtain s5 where s5: "run_service json has_function cpu ?run ?task ?s4 = rok s5"
      "\<exists>es. sent s5 = sent s @ Set_value cpu ?key rep # es"
      using deliver_local_run [of n ?s4 cpu service c has_function fn req_id json ret rep 0 0 args] inv4 i c d sk wf4(3) loc json True by auto
    have "?work (s4, log) (s5, log @ [Add_task cpu ?task])"
      using sent4 s5(1) True by (intro work_deliver [where es = "sent s"]) simp_all
    then show ?thesis
      using st1 s5(2) by blast
  next
    case False
    define s0 where "s0 = emit (Invoke_run_func k cpu ?call) s3"
    have st1: "new_req cpu clock now req_id service fn args s = rok s0"
      using new False by (simp add: s0_def)
    have s0: "s0\<lparr>sent := sent s\<rparr> = s3" "sent s0 = sent s @ [Invoke_run_func k cpu ?call]"
      using sent3 by (cases s3; simp add: s0_def emit_def)+
    have st2: "?work (s0, log) (s4, log @ [Invoke_run_func k cpu ?call])"
      by (rule work_deliver [where es = "sent s" and ?now1.0 = now and ?now2.0 = 0 and nested = "[]"]) (simp_all add: s0 s4)
    have rem: "req_map (shards ?s4 ! k) ?key = Some (Some (Remote_reply cpu))"
      using sk d(3) sh3 rest_k len False by (simp add: at_rest_def)
    have w4: "workflow_of req_id ?s4 = rok (w, ws)"
      using w wf4 by (simp add: workflow_of_rok)
    obtain s5 d5 where s5: "run_service json has_function k ?run ?task ?s4 = rok s5"
      and sent5: "sent s5 = sent s @ [Invoke_reply cpu k req_id req_id service ret]" and sh5: "shards s5 = (shards s4)[k := d5]"
      using deliver_remote_run [of n ?s4 k cpu service c has_function fn req_id w ws json 0 0 args ret]
        inv4 k c d sk wf4(3) rem w4 False by auto
    have st3: "?work (s4, log @ [Invoke_run_func k cpu ?call])
        (s5, (log @ [Invoke_run_func k cpu ?call]) @ [Add_task k ?task])"
      using sent4 s5 by (intro work_deliver [where es = "sent s"]) simp_all
    let ?s5 = "s5\<lparr>sent := sent s\<rparr>"
    have inv5: "sched_inv n ?s5"
      using run_service_inv [OF _ s5, of n] inv4 by simp
    have loc: "req_map (shards ?s5 ! cpu) ?key = Some (Some Local_reply)"
      using sh5 sh4 sh3 len i False by simp
    obtain s6 where s6: "reply json (run_callback cpu (run_ops json cpu [])) cpu 0 0 req_id req_id service ret ?s5 = rok s6"
      and ev: "\<exists>es. sent s6 = sent s @ Set_value cpu ?key rep # es"
      using reply_local [where json = json, OF inv5 i loc json, of "run_callback cpu (run_ops json cpu [])" 0 0 req_id] by auto
    have st4: "?work (s5, (log @ [Invoke_run_func k cpu ?call]) @ [Add_task k ?task])
        (emit (Then_dispatch k) s6, ((log @ [Invoke_run_func k cpu ?call]) @ [Add_task k ?task]) @ [Invoke_reply cpu k req_id req_id service ret])"
      using sent5 s6 by (intro work_deliver [where es = "sent s" and ?now1.0 = 0 and ?now2.0 = 0 and nested = "[]"]) simp_all
    have "?work\<^sup>*\<^sup>* (s0, log) (emit (Then_dispatch k) s6,
        ((log @ [Invoke_run_func k cpu ?call]) @ [Add_task k ?task]) @ [Invoke_reply cpu k req_id req_id service ret])"
      using st2 st3 st4 by (meson converse_rtranclp_into_rtranclp r_into_rtranclp)
    moreover have "\<exists>es. sent (emit (Then_dispatch k) s6) = sent s @ Set_value cpu ?key rep # es"
      using ev by auto
    ultimately show ?thesis
      using st1 by blast
  qed
qed

section \<open>Properties\<close>

text \<open>
  C4. In every state that the shards reach, whatever requests arrive and in whatever order tasks and
  messages are delivered, the shared tables are consistent and the lock is free.
\<close>

theorem platform_consistent:
  assumes "reachable n json has_function (s, log, reqs)"
  shows "sched_inv n s"
  using reachable_inv [OF assms] by simp

theorem platform_consistent_witness:
  "\<exists>s. reachable 2 (\<lambda>x. Inl Out_of_range) (\<lambda>c f. True) (s, [], [(0, reply_key ''a.js'' ''r'')]) \<and> sched_inv 2 s"
proof -
  have "sched_inv 2 (started 2)"
    using start_all_started(2) [of "[0..<2]" 2] by (simp add: lessThan_atLeast0)
  then obtain s' where "new_req 0 (1, 2, 3) 4 ''r'' ''a.js'' ''f'' [] (started 2) = rok s'"
    using new_req_returns [of 2 "started 2" 0 "(1, 2, 3)" 4 "''r''" "''a.js''" "''f''" "[]"] by (auto simp: HW_Q_COUNT_def)
  then have r: "reachable 2 (\<lambda>x. Inl Out_of_range) (\<lambda>c f. True) (s', [], [(0, reply_key ''a.js'' ''r'')])"
    using reachable.later [OF reachable.at_start step.requested] by blast
  then show ?thesis
    using platform_consistent [OF r] by blast
qed

text \<open>
  C3. A request is answered at most once: the number of times the promise of a request was fulfilled
  or can still be, is at most the number of requests accepted under its key, whatever the scripts call
  and reply. With distinct request ids that is one.
\<close>

theorem response_at_most_once:
  assumes "reachable n json has_function (s, log, reqs)" and "distinct reqs"
  shows "length (filter (fulfils i key) (log @ sent s)) + (if promised s i key then 1 else 0) \<le> 1"
proof -
  have "count_list reqs (i, key) \<le> 1"
    using assms(2) by (induction reqs) (auto simp: count_list_0_iff)
  then show ?thesis
    using responses_bounded [OF assms(1), of i key] by (simp add: answers_def)
qed

theorem response_at_most_once_witness:
  "\<exists>s. reachable 2 (\<lambda>x. Inl Out_of_range) (\<lambda>c f. True) (s, [], [(0, reply_key ''a.js'' ''r'')]) \<and>
    length (filter (fulfils 0 (reply_key ''a.js'' ''r'')) (sent s)) + (if promised s 0 (reply_key ''a.js'' ''r'') then 1 else 0) \<le> 1"
proof -
  have "sched_inv 2 (started 2)"
    using start_all_started(2) [of "[0..<2]" 2] by (simp add: lessThan_atLeast0)
  then obtain s' where "new_req 0 (1, 2, 3) 4 ''r'' ''a.js'' ''f'' [] (started 2) = rok s'"
    using new_req_returns [of 2 "started 2" 0 "(1, 2, 3)" 4 "''r''" "''a.js''" "''f''" "[]"] by (auto simp: HW_Q_COUNT_def)
  then have r: "reachable 2 (\<lambda>x. Inl Out_of_range) (\<lambda>c f. True) (s', [], [(0, reply_key ''a.js'' ''r'')])"
    using reachable.later [OF reachable.at_start step.requested] by blast
  then show ?thesis
    using response_at_most_once [OF r, of 0 "reply_key ''a.js'' ''r''"] by auto
qed

text \<open>
  C5. From every reachable state whose shards are at rest, a new request for a function that the
  script of the service has is accepted, and some deliveries that follow, which are steps from the state
  where it is accepted, fulfil its promise with a reply that its script gives, on whatever shard it was
  placed. What was in flight before is still in flight, and the new response comes after it.
\<close>

theorem request_answered:
  assumes "reachable n json has_function (s, log, reqs)" and "cpu < n"
    and "HW_Q_COUNT < n \<longrightarrow> (\<exists>k. HW_Q_COUNT \<le> k \<and> k < n \<and> till s k \<noteq> - 1)"
    and "\<forall>i < n. at_rest has_function req_id service fn s i" and "json ret = Inr rep"
  shows "\<exists>s1 s' log' es. new_req cpu clock now req_id service fn args s = rok s1 \<and>
    step json has_function (s, log, reqs) (s1, log, (cpu, reply_key service req_id) # reqs) \<and>
    (step json has_function)\<^sup>*\<^sup>* (s1, log, (cpu, reply_key service req_id) # reqs)
      (s', log', (cpu, reply_key service req_id) # reqs) \<and>
    sent s' = sent s @ Set_value cpu (reply_key service req_id) rep # es"
proof -
  have "sched_inv n s"
    using reachable_inv [OF assms(1)] by simp
  from request_answered_path [where json = json, OF this assms(2-5)]
  obtain s1 s' log' es where s1: "new_req cpu clock now req_id service fn args s = rok s1"
    and w: "(work json has_function)\<^sup>*\<^sup>* (s1, log) (s', log')"
    and ev: "sent s' = sent s @ Set_value cpu (reply_key service req_id) rep # es"
    by blast
  then show ?thesis
    using step.requested [OF s1, of json has_function log reqs]
      work_steps [OF w, where reqs = "(cpu, reply_key service req_id) # reqs"] by auto
qed

theorem request_answered_witness:
  "\<exists>s s' log'. reachable 2 (\<lambda>x. Inr \<lparr>r_status = 200, r_message = ''ok''\<rparr>) (\<lambda>c f. f = ''f'') (s, [], []) \<and>
    (step (\<lambda>x. Inr \<lparr>r_status = 200, r_message = ''ok''\<rparr>) (\<lambda>c f. f = ''f''))\<^sup>*\<^sup>* (s, [], [])
      (s', log', [(0, reply_key ''a.js'' ''q'')]) \<and>
    Set_value 0 (reply_key ''a.js'' ''q'') \<lparr>r_status = 200, r_message = ''ok''\<rparr> \<in> set (sent s')"
proof -
  let ?json = "\<lambda>x. Inr \<lparr>r_status = 200, r_message = ''ok''\<rparr>"
  let ?reach = "reachable 2 ?json (\<lambda>c f. f = ''f'')"
  obtain s1 s2 where s1: "register_service 0 ''a.js'' (started 2) = rok s1" and s2: "register_service 1 ''a.js'' s1 = rok s2"
    and rest: "\<forall>i < 2. at_rest (\<lambda>c f. f = ''f'') ''q'' ''a.js'' ''f'' s2 i"
    by (simp add: register_service_def started_def fresh_sys_def new_shard_def NUM_SERVICES_def upt_rec numeral_2_eq_2
        at_rest_def core_init_def less_Suc_eq shard_at_def set_shard_def)
  have r: "?reach (s2, [], [])"
    using reachable.later [OF reachable.later [OF reachable.at_start step.registered [OF s1]] step.registered [OF s2]] by simp
  obtain t s' log' es where "step ?json (\<lambda>c f. f = ''f'') (s2, [], []) (t, [], [(0, reply_key ''a.js'' ''q'')])"
    "(step ?json (\<lambda>c f. f = ''f''))\<^sup>*\<^sup>* (t, [], [(0, reply_key ''a.js'' ''q'')]) (s', log', [(0, reply_key ''a.js'' ''q'')])"
    "sent s' = sent s2 @ Set_value 0 (reply_key ''a.js'' ''q'') \<lparr>r_status = 200, r_message = ''ok''\<rparr> # es"
    using request_answered [OF r _ _ rest, of 0 "\<lparr>r_status = 200, r_message = ''ok''\<rparr>" "(0, 0, 0)" 0 "[]"]
    by (auto simp: HW_Q_COUNT_def)
  then have "(step ?json (\<lambda>c f. f = ''f''))\<^sup>*\<^sup>* (s2, [], []) (s', log', [(0, reply_key ''a.js'' ''q'')])"
    and "Set_value 0 (reply_key ''a.js'' ''q'') \<lparr>r_status = 200, r_message = ''ok''\<rparr> \<in> set (sent s')"
    by (simp_all add: converse_rtranclp_into_rtranclp)
  then show ?thesis
    using r by blast
qed

end
