(* ===== verification/Typing.thy ===== *)
theory Typing
  imports Platform
begin

text \<open>
  The types of what the shards share: the code keeps the states of a request behind \<^verbatim>\<open>void*\<close> and casts
  them by the key they are found under, and addresses shards by number. In every reachable state the
  casts find the type they expect, and every task, message and pending reply names a shard that exists.
\<close>

section \<open>Typed states\<close>

fun event_addressed :: "nat \<Rightarrow> event \<Rightarrow> bool" where
  "event_addressed n (Add_task i t) \<longleftrightarrow> i < n"
| "event_addressed n (Invoke_run_func core prev call) \<longleftrightarrow> core < n \<and> prev < n"
| "event_addressed n (Invoke_reply prev from_cpu req_id call_id service ret) \<longleftrightarrow> prev < n \<and> from_cpu < n"
| "event_addressed n (Then_dispatch i) \<longleftrightarrow> i < n"
| "event_addressed n (Set_value i key rep) \<longleftrightarrow> i < n"

definition shard_typed :: "nat \<Rightarrow> shard \<Rightarrow> bool" where
  "shard_typed n d \<longleftrightarrow> (\<forall>key p. req_map d key = Some (Some (Remote_reply p)) \<longrightarrow> p < n) \<and>
     (\<forall>service k. ctx_map d service = Some k \<longrightarrow> k = 0 \<or> k < length (contexts d)) \<and> length (contexts d) \<le> NUM_SERVICES"

definition typed :: "nat \<Rightarrow> sys \<Rightarrow> bool" where
  "typed n s \<longleftrightarrow> length (cores s) = n \<and> length (shards s) = n \<and> list_all (event_addressed n) (sent s) \<and>
     list_all (shard_typed n) (shards s)"

lemma typedI:
  assumes "typed n s" and "length (cores s') = length (cores s)" and "shards s' = (shards s)[i := d]"
    and "sent s' = sent s @ es" and "i < n \<Longrightarrow> list_all (event_addressed n) es" and "i < n \<Longrightarrow> shard_typed n d"
    and "\<not> i < n \<Longrightarrow> es = []"
  shows "typed n s'"
proof (cases "i < n")
  case True
  then show ?thesis
    using assms by (auto simp: typed_def list_all_iff dest!: set_update_subset_insert [THEN subsetD])
next
  case False
  then have "shards s' = shards s"
    using assms(1,3) by (simp add: typed_def list_update_beyond)
  then show ?thesis
    using assms False by (simp add: typed_def)
qed

lemma typed_same:
  assumes "typed n s" and "length (cores s') = length (cores s)" and "shards s' = shards s"
    and "sent s' = sent s @ es" and "list_all (event_addressed n) es"
  shows "typed n s'"
  using assms by (auto simp: typed_def)

lemma typed_shard: "typed n s \<Longrightarrow> shard_at i s = rok d \<Longrightarrow> i < n \<and> shard_typed n d \<and> d = shards s ! i"
  by (auto simp: typed_def shard_at_rok list_all_length)

lemma typed_lengths: "typed n s \<Longrightarrow> length (cores s) = n" "typed n s \<Longrightarrow> length (shards s) = n"
  by (simp_all add: typed_def)

lemma shard_typed_updates [simp]:
  "shard_typed n (d\<lparr>curr_req := x\<rparr>) = shard_typed n d" "shard_typed n (d\<lparr>curr_wf := y\<rparr>) = shard_typed n d"
  "shard_typed n (d\<lparr>wf_starts := z\<rparr>) = shard_typed n d"
  by (simp_all add: shard_typed_def)

lemma shard_typed_req:
  "shard_typed n d \<Longrightarrow> shard_typed n (d\<lparr>req_map := (req_map d)(key := None)\<rparr>)"
  "shard_typed n d \<Longrightarrow> shard_typed n (d\<lparr>req_map := (req_map d)(key \<mapsto> None)\<rparr>)"
  "shard_typed n d \<Longrightarrow> (\<And>p. st = Remote_reply p \<Longrightarrow> p < n) \<Longrightarrow> shard_typed n (d\<lparr>req_map := (req_map d)(key \<mapsto> Some st)\<rparr>)"
  by (auto simp: shard_typed_def)

lemma shard_typed_ctx:
  "shard_typed n d \<Longrightarrow> k = 0 \<or> k < length (contexts d) \<Longrightarrow> shard_typed n (d\<lparr>ctx_map := (ctx_map d)(service \<mapsto> k)\<rparr>)"
  by (auto simp: shard_typed_def split: if_splits)

lemma shard_typed_register:
  assumes "shard_typed n d" and "length (contexts d) < NUM_SERVICES"
  shows "shard_typed n (d\<lparr>ctx_map := (ctx_map d)(service \<mapsto> length (contexts d)), contexts := contexts d @ [service]\<rparr>)"
proof -
  have "k < Suc (length (contexts d))" if "ctx_map d v = Some k" for v k
    using assms(1) that by (fastforce simp: shard_typed_def)
  then show ?thesis
    using assms by (auto simp: shard_typed_def)
qed

section \<open>Every operation keeps them\<close>

lemma dispatch_typed: "typed n s \<Longrightarrow> dispatch i s = rok s' \<Longrightarrow> typed n s'"
  by (auto simp: dispatch_rok typed_def split: list.splits option.splits if_splits)

lemma ensure_states_typed:
  assumes t: "typed n s" and p: "p < n" and r: "ensure_states i p key func s = rok s'"
  shows "typed n s'"
proof -
  obtain d where d: "shard_at i s = rok d"
    using r by (auto simp: ensure_states_def elim: rbind_rokE)
  note td = typed_shard [OF t d]
  show ?thesis
    by (rule typedI [OF t, where i = i and es = "[]" and d = "shards s' ! i"])
      (use r td p typed_lengths [OF t] in \<open>auto simp: ensure_states_def Let_def step_rok intro: shard_typed_req split: if_splits\<close>)
qed

lemma place_task_typed:
  assumes t: "typed n s" and cpu: "cpu < n" and d: "shard_typed n d" and r: "place_task cpu call fuse d s = rok s'"
  shows "typed n s'"
proof -
  obtain req_id call_id service fn jsargs where call: "call = (req_id, call_id, service, fn, jsargs)"
    by (cases call)
  show ?thesis
  proof (cases fuse)
    case True
    show ?thesis
      by (rule typedI [OF t, where i = cpu and d = "d\<lparr>curr_wf := insert req_id (curr_wf d)\<rparr>"
            and es = "[Add_task cpu (Run_func call (service @ fn))]"])
        (use r True cpu d in \<open>auto simp: place_task_def call Let_def\<close>)
  next
    case False
    show ?thesis
      by (rule typedI [OF t, where i = cpu and d = "d\<lparr>curr_req := insert call_id (curr_req d)\<rparr>" and es = "[]"])
        (use r False cpu d in \<open>auto simp: place_task_def call Let_def step_rok\<close>)
  qed
qed

lemma run_func_typed:
  assumes t: "typed n s" and p: "p < n" and r: "run_func cpu now p call s = rok s'"
  shows "typed n s'"
proof -
  obtain req_id call_id service fn jsargs where call: "call = (req_id, call_id, service, fn, jsargs)"
    by (cases call)
  obtain s1 d0 s2 and ws :: wf_states and s3 where
    s1: "ensure_states cpu p (reply_key service call_id) (service @ fn) s = rok s1" and
    d0: "shard_at cpu s1 = rok d0" and
    s2: "lock cpu (set_shard cpu (if req_id = call_id then d0\<lparr>wf_starts := (wf_starts d0)(req_id \<mapsto> now)\<rparr>
      else d0) s1) = rok s2" and
    s3: "place_task cpu call (w_fuse ws) (if req_id = call_id
      then d0\<lparr>wf_starts := (wf_starts d0)(req_id \<mapsto> now)\<rparr> else d0) s2 = rok s3" and
    fin: "dispatch cpu (unlock s3) = rok s'"
    using r unfolding run_func_def call Let_def prod.case
    by (elim rbind_pair_rokE rbind_rokE) (rule that [unfolded call])
  let ?d = "if req_id = call_id then d0\<lparr>wf_starts := (wf_starts d0)(req_id \<mapsto> now)\<rparr> else d0"
  have t1: "typed n s1"
    using ensure_states_typed [OF t p s1] .
  have d: "cpu < n" "shard_typed n ?d"
    using typed_shard [OF t1 d0] by auto
  have "typed n s2"
    by (rule typedI [OF t1, where i = cpu and es = "[]" and d = ?d]) (use s2 d in \<open>auto simp: lock_rok\<close>)
  then have "typed n s3"
    using place_task_typed d s3 by blast
  then have "typed n (unlock s3)"
    by (simp add: typed_def)
  then show ?thesis
    using fin by (rule dispatch_typed)
qed

lemma get_core_typed:
  assumes t: "typed n s" and g: "get_core i clock e c s = rok (k, s')"
  shows "k < n \<and> typed n s'"
proof -
  have k: "k < length (cores s)" and len: "length (cores s') = length (cores s)"
    using g by (auto simp: get_core_def occupy_def Let_def step_rok split: prod.splits if_splits option.splits)
  have "shards s' = shards s" "sent s' = sent s @ []"
    using get_core_same(3) [OF g] get_core_sent [OF g] by simp_all
  then show ?thesis
    using k typed_same [OF t len] typed_lengths [OF t] by auto
qed

lemma schedule_typed:
  assumes t: "typed n s" and p: "p < n" and r: "schedule cpu clock now p call s = rok s'"
  shows "typed n s'"
proof -
  obtain req_id call_id service fn jsargs where call: "call = (req_id, call_id, service, fn, jsargs)"
    by (cases call)
  obtain s1 s2 and ws :: wf_states and f :: func_states and core s3 where
    s1: "ensure_states cpu p (reply_key service call_id) (service @ fn) s = rok s1" and
    s2: "s2 = note_workflow req_id call_id service (service @ fn) s1" and
    pick: "(if w_fuse ws then if req_id = call_id then get_core cpu clock (scast (w_exec ws)) call_id s2 else rok (cpu, s2)
       else get_core cpu clock (scast (f_exec f)) call_id s2) = rok (core, s3)" and
    fin: "(if core \<noteq> cpu then rok (emit (Invoke_run_func core p call) s3) else run_func cpu now p call s3) = rok s'"
    using r unfolding schedule_def call Let_def prod.case
    by (elim rbind_pair_rokE rbind_rokE) (rule that [unfolded call, OF _ refl])
  have t1: "typed n s1"
    using ensure_states_typed [OF t p s1] .
  have t2: "typed n s2"
    by (rule typed_same [OF t1, where es = "[]"]) (simp_all add: s2 note_workflow_eq)
  have "cpu < length (shards s)"
    using s1 by (auto simp: ensure_states_def step_rok)
  then have "core < n \<and> typed n s3"
    using pick get_core_typed [OF t2] t2 typed_lengths(2) [OF t] by (auto split: if_splits)
  then show ?thesis
    using fin p run_func_typed typed_same [of n s3 s' "[Invoke_run_func core p call]"] by (auto split: if_splits)
qed

lemma states_typed:
  assumes t: "typed n s"
  shows "get_req_states i key s = rok (p, s') \<Longrightarrow> typed n s'"
    and "set_req_states i key st s = rok s' \<Longrightarrow> (\<And>p. st \<noteq> Remote_reply p) \<Longrightarrow> typed n s'"
    and "del_req_states i key s = rok s' \<Longrightarrow> typed n s'"
proof -
  show "typed n s'" if r: "get_req_states i key s = rok (p, s')"
  proof -
    obtain d where d: "shard_at i s = rok d"
      using r by (auto simp: get_req_states_def elim: rbind_rokE)
    show ?thesis
      by (rule typedI [OF t, where i = i and es = "[]" and d = "shards s' ! i"])
        (use r typed_shard [OF t d] typed_lengths [OF t] in \<open>auto simp: get_req_states_def step_rok intro: shard_typed_req split: option.splits\<close>)
  qed
  show "typed n s'" if r: "set_req_states i key st s = rok s'" and st: "\<And>p. st \<noteq> Remote_reply p"
  proof -
    obtain d where d: "shard_at i s = rok d"
      using r by (auto simp: set_req_states_def elim: rbind_rokE)
    have "shard_typed n (d\<lparr>req_map := (req_map d)(key \<mapsto> Some st)\<rparr>)"
      using shard_typed_req(3) typed_shard [OF t d] st by blast
    then show ?thesis
      by (intro typedI [OF t, where i = i and es = "[]" and d = "shards s' ! i"])
        (use r typed_shard [OF t d] typed_lengths [OF t] in \<open>auto simp: set_req_states_def step_rok\<close>)
  qed
  show "typed n s'" if r: "del_req_states i key s = rok s'"
  proof -
    obtain d where d: "shard_at i s = rok d"
      using r by (auto simp: del_req_states_def elim: rbind_rokE)
    show ?thesis
      by (rule typedI [OF t, where i = i and es = "[]" and d = "shards s' ! i"])
        (use r typed_shard [OF t d] typed_lengths [OF t] in \<open>auto simp: del_req_states_def step_rok intro: shard_typed_req\<close>)
  qed
qed

lemma contexts_typed:
  assumes t: "typed n s"
  shows "enter_context i service s = rok (c, s') \<Longrightarrow> typed n s'"
    and "register_service i service s = rok s' \<Longrightarrow> typed n s'"
proof -
  show "typed n s'" if r: "enter_context i service s = rok (c, s')"
  proof -
    obtain d where d: "shard_at i s = rok d"
      using r by (auto simp: enter_context_def elim: rbind_rokE)
    show ?thesis
      by (rule typedI [OF t, where i = i and es = "[]" and d = "shards s' ! i"])
        (use r typed_shard [OF t d] typed_lengths [OF t] in \<open>auto simp: enter_context_def Let_def step_rok intro!: shard_typed_ctx split: if_splits\<close>)
  qed
  show "typed n s'" if r: "register_service i service s = rok s'"
  proof -
    obtain d where d: "shard_at i s = rok d"
      using r by (auto simp: register_service_def elim: rbind_rokE)
    show ?thesis
      by (rule typedI [OF t, where i = i and es = "[]" and d = "shards s' ! i"])
        (use r typed_shard [OF t d] typed_lengths [OF t] in \<open>auto simp: register_service_def step_rok intro!: shard_typed_register split: if_splits\<close>)
  qed
qed

lemma call_function_typed:
  assumes t: "typed n s" and r: "call_function cpu clock now req_id callee service fn callback jsargs s = rok s'"
  shows "typed n s'"
proof -
  obtain s1 where s1: "set_req_states cpu (callback_key service callee) (Callback callback) s = rok s1"
      and s2: "schedule cpu clock now cpu (req_id, callee, service, fn, jsargs) s1 = rok s'"
    using r unfolding call_function_def by (elim rbind_rokE)
  have t1: "typed n s1"
    using states_typed(2) [OF t s1] by simp
  have "cpu < n"
    using s1 typed_shard [OF t] by (auto simp: set_req_states_def elim: rbind_rokE)
  then show ?thesis
    using schedule_typed [OF t1 _ s2] by blast
qed

lemma drop_wf_typed: "typed n s \<Longrightarrow> drop_wf cpu r s = rok s' \<Longrightarrow> typed n s'"
  by (rule typedI [where i = cpu and es = "[]" and d = "shards s' ! cpu"])
    (auto simp: drop_wf_def step_rok typed_def list_all_length nth_list_update)

lemma retire_typed: "typed n s \<Longrightarrow> retire cpu now call_id s = rok s' \<Longrightarrow> typed n s'"
  by (rule typedI [where i = cpu and es = "[]" and d = "shards s' ! cpu"])
    (auto simp: retire_def Let_def step_rok typed_def list_all_length nth_list_update)

lemma pass_on_typed:
  assumes t: "typed n s" and p: "prev < n" and r: "pass_on prev cpu now req_id call_id service ret s = rok s'"
  shows "typed n s'"
proof -
  let ?t = "\<lambda>d. now - (case wf_starts d req_id of None \<Rightarrow> 0 | Some t \<Rightarrow> t)"
  obtain w and ws :: wf_states and d s2 where d: "shard_at cpu s = rok d"
    and s2: "(if w_fuse ws then drop_wf cpu req_id (set_shard cpu (d\<lparr>wf_starts := (wf_starts d)(req_id := None)\<rparr>)
          (s\<lparr>wf_map := (wf_map s)(w \<mapsto> add_wf_sample (?t d) ws)\<rparr>))
        else rok (set_shard cpu (d\<lparr>wf_starts := (wf_starts d)(req_id := None)\<rparr>)
          (s\<lparr>wf_map := (wf_map s)(w \<mapsto> add_wf_sample (?t d) ws)\<rparr>))) = rok s2"
    and s': "rok (emit (Invoke_reply prev cpu req_id call_id service ret) s2) = rok s'"
    using r unfolding pass_on_def Let_def by (elim rbind_pair_rokE rbind_rokE) (rule that)
  let ?s1 = "set_shard cpu (d\<lparr>wf_starts := (wf_starts d)(req_id := None)\<rparr>)
          (s\<lparr>wf_map := (wf_map s)(w \<mapsto> add_wf_sample (?t d) ws)\<rparr>)"
  have td: "cpu < n" "shard_typed n d" "d = shards s ! cpu"
    using typed_shard [OF t d] by blast+
  have t1: "typed n ?s1"
    by (rule typedI [OF t, where i = cpu and es = "[]" and d = "d\<lparr>wf_starts := (wf_starts d)(req_id := None)\<rparr>"])
      (simp_all add: td(1,2))
  have "typed n s2"
  proof (cases "w_fuse ws")
    case True
    then show ?thesis
      using s2 drop_wf_typed [OF t1] by simp
  next
    case False
    then show ?thesis
      using s2 t1 by simp
  qed
  then show ?thesis
    using s' p td(1) by (auto simp: typed_def)
qed

text \<open>What a reply needs of the runtime: its callbacks keep the state typed.\<close>

locale typed_runtime =
  fixes n :: nat and callback :: "string \<Rightarrow> string \<Rightarrow> string \<Rightarrow> sys \<Rightarrow> sys res"
  assumes callback_typed: "typed n t \<Longrightarrow> callback call_id service ret t = rok t' \<Longrightarrow> typed n t'"
begin

lemma reply_typed:
  assumes t: "typed n s" and r: "reply json callback cpu now1 now2 req_id call_id service ret s = rok s'"
  shows "typed n s'"
proof -
  let ?key = "reply_key service call_id"
  obtain d s1 where d: "shard_at cpu s = rok d"
    and s1: "retire cpu now1 call_id (set_shard cpu (d\<lparr>req_map := (req_map d)(?key := None)\<rparr>) s) = rok s1"
    and fin: "answer json callback cpu now2 req_id call_id service ret
        (case req_map d ?key of None \<Rightarrow> None | Some p \<Rightarrow> p) s1 = rok s'"
    using r unfolding reply_def Let_def by (elim rbind_rokE) (rule that)
  let ?s0 = "set_shard cpu (d\<lparr>req_map := (req_map d)(?key := None)\<rparr>) s"
  note td = typed_shard [OF t d]
  have "typed n ?s0"
    by (rule typedI [OF t, where i = cpu and es = "[]" and d = "d\<lparr>req_map := (req_map d)(?key := None)\<rparr>"])
      (use td in \<open>auto intro: shard_typed_req\<close>)
  then have t1: "typed n s1"
    using retire_typed s1 by blast
  consider "req_map d ?key = Some (Some Local_reply)" | prev where "req_map d ?key = Some (Some (Remote_reply prev))" "prev = cpu"
    | prev where "req_map d ?key = Some (Some (Remote_reply prev))" "prev \<noteq> cpu"
    using fin unfolding answer_def by (auto split: option.splits req_states.splits if_splits)
  then show ?thesis
  proof cases
    case 1
    then obtain rep s2 where "drop_wf cpu req_id (emit (Set_value cpu ?key rep) s1) = rok s2" "dispatch cpu s2 = rok s'"
      using fin by (cases "json ret") (auto simp: answer_def elim: rbind_rokE)
    moreover have "typed n (emit (Set_value cpu ?key rep) s1)"
      by (rule typed_same [OF t1, where es = "[Set_value cpu ?key rep]"]) (use td in auto)
    ultimately show ?thesis
      using drop_wf_typed dispatch_typed by blast
  next
    case 2
    then obtain s2 where "callback call_id service ret s1 = rok s2" "dispatch cpu s2 = rok s'"
      using fin by (auto simp: answer_def elim: rbind_rokE)
    then show ?thesis
      using callback_typed [OF t1] dispatch_typed by blast
  next
    case 3
    then have "pass_on prev cpu now2 req_id call_id service ret s1 = rok s'" "prev < n"
      using fin td by (auto simp: answer_def shard_typed_def)
    then show ?thesis
      using pass_on_typed [OF t1] by blast
  qed
qed

end

lemma run_callback_typed:
  assumes run: "\<And>t t'. typed n t \<Longrightarrow> run t = rok t' \<Longrightarrow> typed n t'"
  shows "typed_runtime n (run_callback cpu run)"
proof
  fix t t' call_id service ret
  assume t: "typed n t" and r: "run_callback cpu run call_id service ret t = rok t'"
  obtain c s1 st s2 where s1: "enter_context cpu service t = rok (c, s1)"
    and s2: "get_req_states cpu (callback_key service call_id) s1 = rok (st, s2)"
    and fin: "(case st of Some (Callback f) \<Rightarrow> rbind (run s2) (del_req_states cpu (callback_key service call_id))
       | Some st \<Rightarrow> rfail (Bad_address 0) | None \<Rightarrow> rfail Null_deref) = rok t'"
    using r unfolding run_callback_def by (elim rbind_pair_rokE) (rule that)
  obtain s3 where s3: "run s2 = rok s3" "del_req_states cpu (callback_key service call_id) s3 = rok t'"
    using fin by (auto split: option.splits req_states.splits elim!: rbind_rokE)
  have "typed n s2"
    using contexts_typed(1) [OF t s1] states_typed(1) s2 by blast
  then show "typed n t'"
    using run s3 states_typed(3) by blast
qed

lemma run_ops_typed: "typed n s \<Longrightarrow> run_ops json cpu ops s = rok s' \<Longrightarrow> typed n s'"
proof (induction json cpu ops s arbitrary: s' rule: run_ops.induct)
  case (1 json cpu s)
  then show ?case by simp
next
  case (2 json cpu clock now req_id callee service fn callback jsargs ops s)
  obtain s1 where s1: "call_function cpu clock now req_id callee service fn callback jsargs s = rok s1"
      "run_ops json cpu ops s1 = rok s'"
    using "2.prems" by (auto elim: rbind_rokE)
  show ?case
    using "2.IH" [OF call_function_typed [OF "2.prems"(1) s1(1)] s1(2)] .
next
  case (3 json cpu now1 now2 req_id call_id service ret nested ops s)
  obtain s1 where s1: "reply json (run_callback cpu (run_ops json cpu nested)) cpu now1 now2 req_id call_id service ret s = rok s1"
      "run_ops json cpu ops s1 = rok s'"
    using "3.prems" by (auto elim: rbind_rokE)
  have "typed_runtime n (run_callback cpu (run_ops json cpu nested))"
    by (rule run_callback_typed) (rule "3.IH"(1))
  then have "typed n s1"
    using "3.prems"(1) s1(1) by (rule typed_runtime.reply_typed)
  then show ?case
    using "3.IH"(2) s1(2) by blast
qed

interpretation typed_scripts: typed_runtime n "run_callback cpu (run_ops json cpu nested)" for n cpu json nested
  by (rule run_callback_typed) (rule run_ops_typed)

lemma run_service_typed:
  assumes t: "typed n s" and r: "run_service json has_function cpu r t s = rok s'"
  shows "typed n s'"
proof -
  obtain req_id call_id service fn jsargs func where task: "t = Run_func (req_id, call_id, service, fn, jsargs) func"
    by (metis prod_cases5 task.exhaust)
  obtain c s1 s2 s3 m where s1: "enter_context cpu service s = rok (c, s1)"
    and s2: "run_ops json cpu (script r) s1 = rok s2"
    and s3: "(case thrown r of None \<Rightarrow> rok s2 | Some (now1, now2, nested) \<Rightarrow>
       reply json (run_callback cpu (run_ops json cpu nested)) cpu now1 now2 req_id call_id service (''error'' @ [LF]) s2) = rok s3"
    and s': "s' = s3\<lparr>func_map := m\<rparr>"
    using r unfolding run_service_def task prod.case task.case
    by (auto elim!: rbind_pair_rokE rbind_rokE split: if_splits option.splits)
  have t2: "typed n s2"
    using run_ops_typed [OF contexts_typed(1) [OF t s1] s2] .
  have "typed n s3"
    using s3 t2 typed_scripts.reply_typed [OF t2] by (auto split: option.splits)
  then show ?thesis
    by (simp add: s' typed_def)
qed

lemma deliver_typed:
  assumes t: "typed n s" and e: "event_addressed n e" and r: "deliver json has_function r now1 now2 nested e s = rok s'"
  shows "typed n s'"
proof (cases e)
  case (Add_task i u)
  then show ?thesis
    using t r run_service_typed by simp
next
  case (Invoke_run_func core prev call)
  then show ?thesis
    using t e r run_func_typed [of n s prev core now1 call s'] by simp
next
  case (Invoke_reply prev from_cpu req_id call_id service ret)
  then obtain u where u: "reply json (run_callback prev (run_ops json prev nested)) prev now1 now2 req_id call_id service ret s = rok u"
      "s' = emit (Then_dispatch from_cpu) u"
    using r by (auto elim: rbind_rokE)
  show ?thesis
    using typed_scripts.reply_typed [OF t u(1)] u(2) e Invoke_reply by (simp add: typed_def)
next
  case (Then_dispatch i)
  then show ?thesis
    using t r dispatch_typed by simp
next
  case (Set_value i key rep)
  then show ?thesis
    using t r by simp
qed

lemma reachable_typed: "reachable n json has_function c \<Longrightarrow> typed n (fst c)"
proof (induction rule: reachable.induct)
  case at_start
  show ?case
    by (auto simp: typed_def started_def fresh_sys_def new_shard_def shard_typed_def list_all_length)
next
  case (later c c')
  from later(2) show ?case
  proof (cases rule: step.cases)
    case (registered j service s s' log reqs)
    then show ?thesis
      using later(3) contexts_typed(2) by auto
  next
    case (requested cpu clock now req_id service fn args s s' log reqs)
    have t: "typed n s"
      using later(3) requested(1) by simp
    obtain s1 where s1: "set_req_states cpu (reply_key service req_id) Local_reply s = rok s1"
        and s2: "schedule cpu clock now cpu (req_id, req_id, service, fn, args) s1 = rok s'"
      using requested(3) unfolding new_req_def by (elim rbind_rokE)
    have "cpu < n"
      using s1 typed_shard [OF t] by (auto simp: set_req_states_def elim: rbind_rokE)
    then show ?thesis
      using schedule_typed [OF states_typed(2) [OF t s1] _ s2] requested(2) by simp
  next
    case (delivered s es1 e es2 r now1 now2 nested s' log reqs)
    then have "typed n (s\<lparr>sent := es1 @ es2\<rparr>)" "event_addressed n e"
      using later(3) by (simp_all add: typed_def)
    then show ?thesis
      using deliver_typed [OF _ _ delivered(4)] delivered(2) by simp
  qed
qed

section \<open>Properties\<close>

text \<open>
  C9. Types of the shared state: in every reachable state the states found under the key of a reply are
  reply states, and the shard a remote one returns to exists; the states found under the key of a callback
  are callback states; every task and message in flight is addressed to shards that exist; and a service is
  only entered with a context that was allocated, or context 0.
\<close>

theorem states_well_typed:
  assumes "reachable n json has_function (s, log, reqs)" and "i < n"
  shows "(\<forall>service call_id st. req_map (shards s ! i) (reply_key service call_id) = Some (Some st) \<longrightarrow>
        st = Local_reply \<or> (\<exists>p < n. st = Remote_reply p)) \<and>
    (\<forall>service call_id st. req_map (shards s ! i) (callback_key service call_id) = Some (Some st) \<longrightarrow> (\<exists>f. st = Callback f)) \<and>
    (\<forall>e \<in> set (sent s). event_addressed n e) \<and>
    (\<forall>service k. ctx_map (shards s ! i) service = Some k \<longrightarrow> k = 0 \<or> k < length (contexts (shards s ! i)))"
proof -
  have t: "typed n s" and inv: "sched_inv n s"
    using reachable_typed [OF assms(1)] reachable_inv [OF assms(1)] by simp_all
  have d: "shard_typed n (shards s ! i)" "keys_ok (shards s ! i)"
    using t assms(2) core_inv_keys [of n s i] inv by (simp_all add: typed_def list_all_length sched_inv_def)
  have keys: "\<not> kind_ok (reply_key service call_id) (Callback f)" "\<not> kind_ok (callback_key service call_id) Local_reply"
    "\<not> kind_ok (callback_key service call_id) (Remote_reply p)" for service call_id f p
    by (auto simp: reply_key_def callback_key_def suffix_def append_eq_append_conv2 append_eq_Cons_conv Cons_eq_append_conv)
  have "st = Local_reply \<or> (\<exists>p < n. st = Remote_reply p)"
    if "req_map (shards s ! i) (reply_key service call_id) = Some (Some st)" for service call_id st
  proof -
    have "kind_ok (reply_key service call_id) st"
      using that d(2) unfolding keys_ok_def by blast
    then show ?thesis
      using that d(1) keys(1) [of service call_id] by (cases st) (auto simp: shard_typed_def)
  qed
  moreover have "\<exists>f. st = Callback f"
    if "req_map (shards s ! i) (callback_key service call_id) = Some (Some st)" for service call_id st
  proof -
    have "kind_ok (callback_key service call_id) st"
      using that d(2) unfolding keys_ok_def by blast
    then show ?thesis
      using keys(2,3) [of service call_id] by (cases st) auto
  qed
  ultimately show ?thesis
    using t d(1) by (auto simp: typed_def list_all_iff shard_typed_def)
qed

theorem states_well_typed_witness:
  "\<exists>s. reachable 2 (\<lambda>x. Inl Out_of_range) (\<lambda>c f. True) (s, [], [(0, reply_key ''a.js'' ''r'')]) \<and>
    (\<forall>e \<in> set (sent s). event_addressed 2 e) \<and>
    (\<forall>service call_id st. req_map (shards s ! 1) (callback_key service call_id) = Some (Some st) \<longrightarrow> (\<exists>f. st = Callback f))"
proof -
  have "sched_inv 2 (started 2)"
    using start_all_started(2) [of "[0..<2]" 2] by (simp add: lessThan_atLeast0)
  then obtain s' where "new_req 0 (1, 2, 3) 4 ''r'' ''a.js'' ''f'' [] (started 2) = rok s'"
    using new_req_returns [of 2 "started 2" 0 "(1, 2, 3)" 4 "''r''" "''a.js''" "''f''" "[]"] by (auto simp: HW_Q_COUNT_def)
  then have r: "reachable 2 (\<lambda>x. Inl Out_of_range) (\<lambda>c f. True) (s', [], [(0, reply_key ''a.js'' ''r'')])"
    using reachable.later [OF reachable.at_start step.requested] by blast
  then show ?thesis
    using states_well_typed [OF r, of 1] by auto
qed

end
