(* ===== verification/Bindings.thy ===== *)
theory Bindings
  imports Text
begin

text \<open>
  The bindings of \<^verbatim>\<open>src/req_server.cc\<close> that only compute a value: \<^verbatim>\<open>print\<close>, \<^verbatim>\<open>Sha1\<close>, \<^verbatim>\<open>Base64Decode\<close>, and
  \<^verbatim>\<open>read_file\<close> of \<^verbatim>\<open>src/include/req_server.hh\<close>, which reads the scripts.

  The value of a JavaScript string is its UTF-8 text, or \<open>None\<close> where the conversion fails and
  \<^verbatim>\<open>*value\<close> is null. The digest and the decoder of boost are parameters, and so is the file system:
  what \<^verbatim>\<open>ftell\<close> returns at the end of a file, and what \<^verbatim>\<open>fread\<close> returns at a position.
\<close>

section \<open>Arguments\<close>

definition to_cstring :: "string option \<Rightarrow> string" where
  "to_cstring v = (case v of Some s \<Rightarrow> c_str s | None \<Rightarrow> ''<string conversion failed>'')"

text \<open>\<^verbatim>\<open>js_print\<close>, on what has been written to the standard output.\<close>

definition js_print :: "string option \<Rightarrow> string \<Rightarrow> string" where
  "js_print v out = out @ to_cstring v @ [LF]"

text \<open>\<^verbatim>\<open>std::string(*arg)\<close>.\<close>

definition arg_string :: "string option \<Rightarrow> string res" where
  "arg_string v = (case v of None \<Rightarrow> rfail Null_deref | Some s \<Rightarrow> rok (c_str s))"

definition put_bytes :: "nat \<Rightarrow> string \<Rightarrow> string \<Rightarrow> string res" where
  "put_bytes i bs buf = (if i + length bs \<le> length buf then rok (take i buf @ bs @ drop (i + length bs) buf)
     else rfail Out_of_bounds)"

section \<open>Sha1\<close>

definition hex_char :: "nat \<Rightarrow> char" where
  "hex_char k = ''0123456789abcdef'' ! k"

text \<open>\<^verbatim>\<open>sprintf("%08x")\<close> of 32 bits, without the final zero.\<close>

definition hex8 :: "u32 \<Rightarrow> string" where
  "hex8 w = map (\<lambda>k. hex_char (unat (drop_bit (4 * k) w AND 15))) [7, 6, 5, 4, 3, 2, 1, 0]"

primrec print_words :: "nat \<Rightarrow> u32 list \<Rightarrow> string \<Rightarrow> string res" where
  "print_words i [] hash = rok hash"
| "print_words i (w # ws) hash = rbind (put_bytes (push_bit 3 i) (hex8 w @ [NUL]) hash) (print_words (Suc i) ws)"

definition sha1 :: "(string \<Rightarrow> u32 list) \<Rightarrow> string option \<Rightarrow> string res" where
  "sha1 get_digest v = rbind (arg_string v) (\<lambda>str.
     rbind (print_words 0 (get_digest str) (replicate 41 NUL)) (\<lambda>hash. rok (c_str hash)))"

section \<open>Base64Decode\<close>

definition base64_decode :: "(nat \<Rightarrow> nat) \<Rightarrow> (string \<Rightarrow> string) \<Rightarrow> string option \<Rightarrow> string res" where
  "base64_decode decoded_size decode v = rbind (arg_string v) (\<lambda>tmp.
     rbind (put_bytes 0 (decode tmp) (replicate (decoded_size (length tmp)) NUL)) (\<lambda>dest. rok (c_str dest)))"

section \<open>Reading a file\<close>

text \<open>
  A file: what \<^verbatim>\<open>ftell\<close> returns at its end (-1 on failure), and what \<^verbatim>\<open>fread\<close> of at most so many bytes
  at a position returns, with \<^verbatim>\<open>ferror\<close> after it.
\<close>

record disk_file =
  f_end :: int
  f_read :: "nat \<Rightarrow> nat \<Rightarrow> string \<times> bool"

text \<open>The loop, with the bytes read so far; \<^verbatim>\<open>i\<close> is their number.\<close>

partial_function (option) read_loop ::
  "(nat \<Rightarrow> nat \<Rightarrow> string \<times> bool) \<Rightarrow> nat \<Rightarrow> string \<Rightarrow> string option res" where
  "read_loop fread sz chars =
     (if length chars < sz then
        (if snd (fread (length chars) (sz - length chars)) then rok None
         else read_loop fread sz (chars @ fst (fread (length chars) (sz - length chars))))
      else rok (Some chars))"

text \<open>
  The result is the bytes and the length given to \<^verbatim>\<open>NewFromUtf8\<close>, or \<open>None\<close> for an empty handle. When
  \<^verbatim>\<open>ftell\<close> fails, \<^verbatim>\<open>size + 1\<close> is 0 and the final zero is written outside the block.
\<close>

definition read_file :: "(string \<rightharpoonup> disk_file) \<Rightarrow> string \<Rightarrow> (string \<times> int) option res" where
  "read_file files name = (case files name of
      None \<Rightarrow> rok None
    | Some f \<Rightarrow>
        if f_end f < 0 then rfail Out_of_bounds
        else rbind (read_loop (f_read f) (nat (f_end f)) []) (\<lambda>r.
          rok (map_option (\<lambda>chars. (chars, sint (word_of_int (f_end f) :: 32 word))) r)))"

section \<open>Hexadecimal digits\<close>

definition hex_char_value :: "char \<Rightarrow> nat" where
  "hex_char_value c = (if of_char c < (58 :: nat) then of_char c - 48 else of_char c - 87)"

definition read_hex :: "string \<Rightarrow> nat" where
  "read_hex ds = foldl (\<lambda>n c. 16 * n + hex_char_value c) 0 ds"

text \<open>A reader that takes eight digits for each word.\<close>

fun read_words :: "string \<Rightarrow> u32 list" where
  "read_words ds = (if length ds < 8 then [] else of_nat (read_hex (take 8 ds)) # read_words (drop 8 ds))"

declare read_words.simps [simp del]

lemma digit_cases: "k < 16 \<Longrightarrow> k = 0 \<or> k = 1 \<or> k = 2 \<or> k = 3 \<or> k = 4 \<or> k = 5 \<or> k = 6 \<or> k = 7 \<or> k = 8 \<or> k = 9 \<or>
    k = 10 \<or> k = 11 \<or> k = 12 \<or> k = 13 \<or> k = 14 \<or> k = (15 :: nat)"
  by presburger

lemma hex_char_simps: "k < 16 \<Longrightarrow> hex_char_value (hex_char k) = k" "k < 16 \<Longrightarrow> hex_char k \<noteq> NUL"
  by (drule digit_cases, elim disjE; simp add: hex_char_value_def hex_char_def)+

lemma nibble: "unat (drop_bit (4 * k) (w :: u32) AND 15) = unat w div 16 ^ k mod 16"
proof -
  have p: "(2 :: nat) ^ (4 * k) = 16 ^ k"
    by (simp add: power_mult)
  have "drop_bit (4 * k) w AND 15 = take_bit 4 (drop_bit (4 * k) w)"
    by (simp add: take_bit_eq_mask mask_eq_exp_minus_1)
  then have "unat (drop_bit (4 * k) w AND 15) = take_bit 4 (drop_bit (4 * k) (unat w))"
    by (simp only: unsigned_take_bit_eq unat_drop_bit_eq)
  also have "\<dots> = unat w div 16 ^ k mod 16"
    by (simp add: take_bit_eq_mod drop_bit_eq_div p)
  finally show ?thesis .
qed

lemma hex8_value: "read_hex (hex8 w) = unat w"
proof -
  have w: "unat w < 16 ^ 8"
    using unsigned_less [of w] by simp
  define d where "d k = unat w div 16 ^ k mod 16" for k
  have "read_hex (hex8 w) = 16 * (16 * (16 * (16 * (16 * (16 * (16 * d 7 + d 6) + d 5) + d 4) + d 3) + d 2) + d 1) + d 0"
    by (simp add: read_hex_def hex8_def hex_char_simps nibble d_def)
  also have "\<dots> = unat w"
  proof -
    have s: "16 * (unat w div 16 ^ Suc k) + d k = unat w div 16 ^ k" for k
      by (simp only: d_def power_Suc2 div_mult2_eq mult_div_mod_eq)
    have "16 * 0 + d 7 = unat w div 16 ^ 7"
      using s [of 7] w by simp
    then show ?thesis
      using s [of 6] s [of 5] s [of 4] s [of 3] s [of 2] s [of 1] s [of 0] by simp
  qed
  finally show ?thesis .
qed

lemma hex8_simps [simp]: "length (hex8 w) = 8" "NUL \<notin> set (hex8 w)"
  using hex_char_simps(2) by (auto simp: hex8_def nibble) (metis mod_less_divisor zero_less_numeral)+

lemma hex8_set: "set (hex8 w) \<subseteq> set ''0123456789abcdef''"
proof -
  have "hex_char k \<in> set ''0123456789abcdef''" if "k < 16" for k
    using digit_cases [OF that] by (elim disjE) (simp_all add: hex_char_def)
  then have "set (map hex_char ks) \<subseteq> set ''0123456789abcdef''" if "\<forall>k \<in> set ks. k < 16" for ks
    using that by (auto simp del: set_simps)
  from this [of "map (\<lambda>k. unat w div 16 ^ k mod 16) [7, 6, 5, 4, 3, 2, 1, 0]"] show ?thesis
    by (simp add: hex8_def nibble del: insert_subset)
qed

lemma read_words_concat: "read_words (concat (map hex8 ws)) = ws"
proof (induction ws)
  case Nil
  show ?case by (simp add: read_words.simps)
next
  case (Cons w ws)
  then show ?case
    by (subst read_words.simps) (simp add: hex8_value)
qed

lemma print_words_at:
  "length pre = 8 * i \<Longrightarrow> length post = 8 * length ws \<Longrightarrow>
     print_words i ws (pre @ NUL # post) = rok (pre @ concat (map hex8 ws) @ [NUL])"
proof (induction ws arbitrary: i pre post)
  case Nil
  then show ?case by simp
next
  case (Cons w ws)
  have "put_bytes (push_bit 3 i) (hex8 w @ [NUL]) (pre @ NUL # post) = rok ((pre @ hex8 w) @ NUL # drop 8 post)"
    using Cons.prems by (simp add: put_bytes_def push_bit_eq_mult mult.commute)
  then show ?case
    using Cons.IH [of "pre @ hex8 w" "Suc i" "drop 8 post"] Cons.prems by simp
qed

text \<open>
  C19. The result of \<^verbatim>\<open>Sha1\<close> is the text of the digest, eight digits for each of its five words, of the
  bytes of the argument up to its first zero; a reader of hexadecimal numbers gets the digest back.
\<close>

theorem sha1_digits:
  assumes "length (get_digest (c_str s)) = 5"
  shows "\<exists>ds. sha1 get_digest (Some s) = rok ds \<and> length ds = 40 \<and> set ds \<subseteq> set ''0123456789abcdef'' \<and>
    read_words ds = get_digest (c_str s)"
proof -
  let ?ws = "get_digest (c_str s)"
  have "print_words 0 ?ws (replicate 41 NUL) = rok (concat (map hex8 ?ws) @ [NUL])"
    using print_words_at [of "[]" 0 "replicate 40 NUL" ?ws] assms by (simp add: replicate_app_Cons_same numeral_eq_Suc)
  moreover have "NUL \<notin> set (concat (map hex8 ?ws))"
    by simp
  ultimately have "sha1 get_digest (Some s) = rok (concat (map hex8 ?ws))"
    by (simp add: sha1_def arg_string_def c_str_simps)
  moreover have "length (concat (map hex8 ws)) = 8 * length ws" for ws
    by (induction ws) simp_all
  moreover have "set (concat (map hex8 ws)) \<subseteq> set ''0123456789abcdef''" for ws
    using hex8_set by (fastforce simp del: set_simps)
  ultimately show ?thesis
    using assms read_words_concat by simp
qed

text \<open>The digest of the text \<^verbatim>\<open>abc\<close>.\<close>

theorem sha1_digits_witness:
  "\<exists>ds. sha1 (\<lambda>_. [0xA9993E36, 0x4706816A, 0xBA3E2571, 0x7850C26C, 0x9CD0D89D]) (Some ''abc'') = rok ds \<and>
     length ds = 40 \<and> set ds \<subseteq> set ''0123456789abcdef'' \<and> read_words ds = [0xA9993E36, 0x4706816A, 0xBA3E2571, 0x7850C26C, 0x9CD0D89D]"
  using sha1_digits [of "\<lambda>_. [0xA9993E36, 0x4706816A, 0xBA3E2571, 0x7850C26C, 0x9CD0D89D]" "''abc''"] by simp

text \<open>The whole text of the digest of \<^verbatim>\<open>abc\<close>.\<close>

lemma sha1_abc: "sha1 (\<lambda>_. [0xA9993E36, 0x4706816A, 0xBA3E2571, 0x7850C26C, 0x9CD0D89D]) (Some ''abc'') =
   rok ''a9993e364706816aba3e25717850c26c9cd0d89d''"
  by code_simp

text \<open>
  The decoded text ends at its first zero byte, and a decoder that writes more than \<^verbatim>\<open>decoded_size\<close>
  bytes writes outside the string.
\<close>

lemma base64_decode_simps:
  "base64_decode decoded_size decode None = rfail Null_deref"
  "length (decode (c_str s)) \<le> decoded_size (length (c_str s)) \<Longrightarrow>
     base64_decode decoded_size decode (Some s) = rok (c_str (decode (c_str s)))"
  "decoded_size (length (c_str s)) < length (decode (c_str s)) \<Longrightarrow>
     base64_decode decoded_size decode (Some s) = rfail Out_of_bounds"
proof -
  have "c_str (bs @ drop (length bs) (replicate m NUL)) = c_str bs" for m bs
    by (simp add: c_str_simps)
  then show "length (decode (c_str s)) \<le> decoded_size (length (c_str s)) \<Longrightarrow>
     base64_decode decoded_size decode (Some s) = rok (c_str (decode (c_str s)))"
    by (simp add: base64_decode_def arg_string_def put_bytes_def)
qed (simp_all add: base64_decode_def arg_string_def put_bytes_def)

section \<open>The loop of reads\<close>

text \<open>
  A file with a content: a read before its end delivers some bytes, at most as many as asked for, and a
  read at its end none. Its size may have changed since \<^verbatim>\<open>ftell\<close>.
\<close>

definition readable :: "string \<Rightarrow> disk_file \<Rightarrow> bool" where
  "readable c f \<longleftrightarrow> (\<forall>pos k. (pos < length c \<and> 0 < k \<longrightarrow> (\<exists>j. 0 < j \<and> j \<le> k \<and> f_read f pos k = (take j (drop pos c), False))) \<and>
     (length c \<le> pos \<longrightarrow> f_read f pos k = ([], False)))"

lemma readable_step:
  assumes "readable c f" and "pos < length c" and "pos < sz"
  obtains j where "0 < j" "pos + j \<le> sz" "f_read f pos (sz - pos) = (take j (drop pos c), False)"
proof -
  have "0 < sz - pos"
    using assms(3) by simp
  then obtain j where "0 < j" "j \<le> sz - pos" "f_read f pos (sz - pos) = (take j (drop pos c), False)"
    using assms(1,2) unfolding readable_def by blast
  then show ?thesis
    using that assms(3) by (metis add.commute le_diff_conv2 less_imp_le)
qed

lemma read_loop_returns:
  assumes "readable c f" and "sz \<le> length c"
  shows "m \<le> sz \<Longrightarrow> read_loop (f_read f) sz (take m c) = rok (Some (take sz c))"
proof (induction "sz - m" arbitrary: m rule: less_induct)
  case less
  have len: "length (take m c) = m"
    using less.prems assms(2) by simp
  show ?case
  proof (cases "m < sz")
    case True
    then obtain j where j: "0 < j" "m + j \<le> sz" "f_read f m (sz - m) = (take j (drop m c), False)"
      using readable_step [OF assms(1), of m sz] assms(2) by auto
    then have "read_loop (f_read f) sz (take (m + j) c) = rok (Some (take sz c))"
      using less.hyps [of "m + j"] True by simp
    then show ?thesis
      using True len j(3) by (subst read_loop.simps) (simp add: take_add)
  next
    case False
    then show ?thesis
      using less.prems len by (subst read_loop.simps) simp
  qed
qed

lemma read_loop_stalls:
  assumes "readable c f" and "length c < sz"
    and r: "read_loop fread sz chars = Some r"
  shows "fread = f_read f \<longrightarrow> \<not> length chars \<le> length c"
  using r assms(1,2)
proof (induction fread sz chars r rule: read_loop.raw_induct [rotated, consumes 1, case_names step])
  case (step loop fread sz chars r)
  show ?case
  proof (intro impI notI)
    assume fr: "fread = f_read f" and len: "length chars \<le> length c"
    then have lt: "length chars < sz"
      using step(4) by simp
    obtain bs where bs: "fread (length chars) (sz - length chars) = (bs, False)" "length chars + length bs \<le> length c"
    proof (cases "length chars < length c")
      case True
      then show ?thesis
        using readable_step [OF step(3) True lt] fr len that by (metis add_le_cancel_left le_add_diff_inverse length_drop length_take min.cobounded1)
    next
      case False
      then show ?thesis
        using step(3) fr len that [of "[]"] by (simp add: readable_def)
    qed
    then have "loop fread sz (chars @ bs) = Some r"
      using step(2) lt by simp
    then show False
      using step(1) step(3,4) bs(2) fr by fastforce
  qed
qed

text \<open>
  C18. \<^verbatim>\<open>read_file\<close> returns if and only if the file still has the bytes that \<^verbatim>\<open>ftell\<close> counted, whatever
  pieces the reads deliver: then the result is exactly these bytes. When the file has become shorter the loop
  never ends, because a read of no bytes is not an error.
\<close>

theorem read_file_returns:
  assumes "files name = Some f" and "readable c f" and "0 \<le> f_end f" and "f_end f < 2 ^ 31"
  shows "read_file files name = (if f_end f \<le> int (length c) then rok (Some (take (nat (f_end f)) c, f_end f)) else None)"
proof -
  have e: "sint (word_of_int (f_end f) :: 32 word) = f_end f"
    using assms(3,4) by (simp add: signed_of_int signed_take_bit_int_eq_self)
  show ?thesis
  proof (cases "f_end f \<le> int (length c)")
    case True
    then have "read_loop (f_read f) (nat (f_end f)) [] = rok (Some (take (nat (f_end f)) c))"
      using read_loop_returns [OF assms(2), of "nat (f_end f)" 0] by simp
    then show ?thesis
      using True assms(1,3) e by (simp add: read_file_def)
  next
    case False
    then have "length c < nat (f_end f)"
      by linarith
    then have "read_loop (f_read f) (nat (f_end f)) [] = None"
      using read_loop_stalls [OF assms(2), of "nat (f_end f)" "f_read f" "[]"] by (cases "read_loop (f_read f) (nat (f_end f)) []") auto
    then show ?thesis
      using False assms(1,3) by (simp add: read_file_def rbind_def)
  qed
qed

text \<open>A file whose reads deliver one byte each, whole and cut.\<close>

theorem read_file_returns_witness:
  "read_file [''a'' \<mapsto> \<lparr>f_end = 3, f_read = \<lambda>pos k. (take (if k = 0 then 0 else 1) (drop pos ''abcd''), False)\<rparr>] ''a'' = rok (Some (''abc'', 3)) \<and>
   read_file [''a'' \<mapsto> \<lparr>f_end = 5, f_read = \<lambda>pos k. (take (if k = 0 then 0 else 1) (drop pos ''abcd''), False)\<rparr>] ''a'' = None"
proof -
  have r: "readable ''abcd'' \<lparr>f_end = m, f_read = \<lambda>pos k. (take (if k = 0 then 0 else 1) (drop pos ''abcd''), False)\<rparr>" for m
    by (auto simp: readable_def)
  show ?thesis
    using read_file_returns [OF _ r, of "[''a'' \<mapsto> _]" "''a''" 3] read_file_returns [OF _ r, of "[''a'' \<mapsto> _]" "''a''" 5] by simp
qed

end
