(* ===== verification/Registration.thy ===== *)
theory Registration
  imports Service_Runtime Db_Api Bindings
begin

text \<open>
  The registration of a service, the whole of \<^verbatim>\<open>req_service::register_service\<close> in \<^verbatim>\<open>src/req_server.cc\<close>: the
  bindings of its global object, the read, compilation and first run of its script, its context (theory
  \<open>Service_Runtime\<close>) and its database (theory \<open>Db_Api\<close>); and the registrations that \<^verbatim>\<open>main\<close> sends to the shards.

  V8 is a parameter: the string made of a buffer and its length (an empty handle when it is too long),
  whether a source compiles, and what a script does when it is run first.
\<close>

section \<open>The global object\<close>

datatype binding = Bound_db_get | Bound_db_set | Bound_db_del | Bound_js_print | Bound_get_hash_table
  | Bound_call_function | Bound_new_database | Bound_reply | Bound_sha1 | Bound_base64_decode

datatype js_global = Js_function binding | Js_string string | Js_unsigned nat

definition service_globals :: "string \<Rightarrow> nat \<Rightarrow> (string \<times> js_global) list" where
  "service_globals service cpu_id =
     [(''DBGet'', Js_function Bound_db_get),
      (''DBSet'', Js_function Bound_db_set),
      (''DBDel'', Js_function Bound_db_del),
      (''print'', Js_function Bound_js_print),
      (''GetHashTable'', Js_function Bound_get_hash_table),
      (''Call'', Js_function Bound_call_function),
      (''NewDB'', Js_function Bound_new_database),
      (''Reply'', Js_function Bound_reply),
      (''Sha1'', Js_function Bound_sha1),
      (''Base64Decode'', Js_function Bound_base64_decode),
      (''ServiceName'', Js_string (c_str service)),
      (''CoreID'', Js_unsigned cpu_id)]"

section \<open>Registration\<close>

record server =
  srv_sched :: sys
  srv_dbs :: dbs

record js_engine =
  new_string :: "string \<Rightarrow> int \<Rightarrow> string option"
  compiles :: "string \<Rightarrow> bool"
  run_first :: "(string \<times> js_global) list \<Rightarrow> string \<Rightarrow> server \<Rightarrow> server res"

text \<open>
  When the script cannot be read or is too long for a string, \<open>source\<close> stays an empty handle, and so is
  the script that does not compile: using one is the access of a null pointer. The exception of the
  first run is only printed, so \<open>run_first\<close> covers it.
\<close>

definition register_on :: "js_engine \<Rightarrow> (string \<rightharpoonup> disk_file) \<Rightarrow> nat \<Rightarrow> string \<Rightarrow> server \<Rightarrow> server res" where
  "register_on eng files i service w =
     rbind (read_file files (''services/'' @ service)) (\<lambda>r.
     case (case r of None \<Rightarrow> None | Some (chars, len) \<Rightarrow> new_string eng chars len) of
       None \<Rightarrow> rfail Null_deref
     | Some source \<Rightarrow>
         if \<not> compiles eng source then rfail Null_deref
         else
           rbind (run_first eng (service_globals service i) source w) (\<lambda>w.
           rbind (register_service i service (srv_sched w)) (\<lambda>s.
             rok (w\<lparr>srv_sched := s, srv_dbs := fst (create_db service (srv_dbs w))\<rparr>))))"

text \<open>
  The registrations as they run on the shards: \<open>invoke_on_all\<close> sends one to each and \<^verbatim>\<open>main\<close> does not
  wait, so those of different shards interleave in any way.
\<close>

fun register_log :: "js_engine \<Rightarrow> (string \<rightharpoonup> disk_file) \<Rightarrow> (nat \<times> string) list \<Rightarrow> server \<Rightarrow> server res" where
  "register_log eng files [] w = rok w"
| "register_log eng files ((i, v) # order) w = rbind (register_on eng files i v w) (register_log eng files order)"

definition main_registrations :: "nat \<Rightarrow> (nat \<times> string) list" where
  "main_registrations n = concat (map (\<lambda>v. map (\<lambda>i. (i, v)) [0..<n]) main_services)"

section \<open>Lemmas\<close>

definition on_shard :: "nat \<Rightarrow> (nat \<times> string) list \<Rightarrow> string list" where
  "on_shard i order = map snd (filter (\<lambda>e. fst e = i) order)"

lemma on_shard_simps [simp]:
  "on_shard i [] = []" "on_shard i ((j, v) # order) = (if j = i then v # on_shard i order else on_shard i order)"
  by (simp_all add: on_shard_def)

text \<open>A script that is there, compiles, and only declares its functions.\<close>

definition plain_script :: "js_engine \<Rightarrow> (string \<rightharpoonup> disk_file) \<Rightarrow> string \<Rightarrow> bool" where
  "plain_script eng files v \<longleftrightarrow> (\<exists>chars len source. read_file files (''services/'' @ v) = rok (Some (chars, len)) \<and>
     new_string eng chars len = Some source \<and> compiles eng source \<and> (\<forall>g w. run_first eng g source w = rok w))"

definition add_service :: "string \<Rightarrow> shard \<Rightarrow> shard" where
  "add_service v d = d\<lparr>ctx_map := (ctx_map d)(v \<mapsto> length (contexts d)), contexts := contexts d @ [v]\<rparr>"

lemma add_service_contexts [simp]: "contexts (add_service v d) = contexts d @ [v]"
  by (simp add: add_service_def)

lemma register_service_adds:
  "i < length (shards s) \<Longrightarrow> length (contexts (shards s ! i)) < NUM_SERVICES \<Longrightarrow>
     register_service i v s = rok (set_shard i (add_service v (shards s ! i)) s)"
  by (simp add: register_service_def add_service_def shard_at_def)

lemma fold_add_service:
  "contexts (fold add_service vs d) = contexts d @ vs"
  "v \<in> set vs \<Longrightarrow> \<exists>k < length (contexts d @ vs). ctx_map (fold add_service vs d) v = Some k \<and> (contexts d @ vs) ! k = v"
proof -
  show "contexts (fold add_service vs d) = contexts d @ vs"
    by (induction vs arbitrary: d) simp_all
  show "\<exists>k < length (contexts d @ vs). ctx_map (fold add_service vs d) v = Some k \<and> (contexts d @ vs) ! k = v" if "v \<in> set vs"
    using that
  proof (induction vs rule: rev_induct)
    case Nil
    then show ?case by simp
  next
    case (snoc u us)
    have "contexts (fold add_service us d) = contexts d @ us"
      by (induction us arbitrary: d) simp_all
    then have new: "ctx_map (fold add_service (us @ [u]) d) = (ctx_map (fold add_service us d))(u \<mapsto> length (contexts d @ us))"
      by (simp add: add_service_def)
    show ?case
    proof (cases "v = u")
      case True
      then show ?thesis
        using new by (simp add: nth_append)
    next
      case False
      then obtain k where "k < length (contexts d @ us)" "ctx_map (fold add_service us d) v = Some k" "(contexts d @ us) ! k = v"
        using snoc by auto
      then show ?thesis
        using False new by (intro exI [of _ k]) (auto simp: nth_append)
    qed
  qed
qed

lemma create_db_store:
  assumes "store_inv s"
  shows "store_inv (fst (create_db v s))" "stored (fst (create_db v s)) (v, k) = None"
    "u \<noteq> v \<Longrightarrow> stored (fst (create_db v s)) (u, k) = stored s (u, k)" "db_map (fst (create_db v s)) = (db_map s)(v \<mapsto> new_database)"
  using assms create_db_replaces [of s v k u] by (simp_all add: create_db_def)

lemma register_on_plain:
  assumes "plain_script eng files v" and "i < length (shards (srv_sched w))"
    and "length (contexts (shards (srv_sched w) ! i)) < NUM_SERVICES"
  shows "register_on eng files i v w = rok (w\<lparr>srv_sched := set_shard i (add_service v (shards (srv_sched w) ! i)) (srv_sched w),
    srv_dbs := fst (create_db v (srv_dbs w))\<rparr>)"
  using assms by (auto simp: register_on_def plain_script_def register_service_adds)

lemma register_log_plain:
  assumes "\<forall>(i, v) \<in> set order. i < length (shards (srv_sched w)) \<and> plain_script eng files v"
    and "\<forall>i < length (shards (srv_sched w)). length (contexts (shards (srv_sched w) ! i)) + length (on_shard i order) \<le> NUM_SERVICES"
    and "store_inv (srv_dbs w)"
  shows "\<exists>w'. register_log eng files order w = rok w' \<and> store_inv (srv_dbs w') \<and>
    shards (srv_sched w') = map (\<lambda>i. fold add_service (on_shard i order) (shards (srv_sched w) ! i)) [0..<length (shards (srv_sched w))] \<and>
    (\<forall>u k. stored (srv_dbs w') (u, k) = (if u \<in> snd ` set order then None else stored (srv_dbs w) (u, k))) \<and>
    db_map (srv_dbs w') = (\<lambda>u. if u \<in> snd ` set order then Some new_database else db_map (srv_dbs w) u)"
  using assms
proof (induction order arbitrary: w)
  case Nil
  then show ?case by (simp add: map_nth)
next
  case (Cons e order)
  obtain i v where e: "e = (i, v)"
    by (cases e)
  let ?s = "srv_sched w"
  let ?w1 = "w\<lparr>srv_sched := set_shard i (add_service v (shards ?s ! i)) ?s, srv_dbs := fst (create_db v (srv_dbs w))\<rparr>"
  have i: "i < length (shards ?s)" "plain_script eng files v"
    using Cons.prems(1) e by auto
  have "length (contexts (shards ?s ! i)) + length (on_shard i (e # order)) \<le> NUM_SERVICES"
    using Cons.prems(2) i(1) by blast
  then have r: "register_on eng files i v w = rok ?w1"
    using register_on_plain [OF i(2,1)] e by simp
  have "\<forall>(j, u) \<in> set order. j < length (shards (srv_sched ?w1)) \<and> plain_script eng files u"
    using Cons.prems(1) by auto
  moreover have "\<forall>j < length (shards (srv_sched ?w1)). length (contexts (shards (srv_sched ?w1) ! j)) + length (on_shard j order) \<le> NUM_SERVICES"
  proof (intro allI impI)
    fix j
    assume "j < length (shards (srv_sched ?w1))"
    then show "length (contexts (shards (srv_sched ?w1) ! j)) + length (on_shard j order) \<le> NUM_SERVICES"
      using Cons.prems(2) [rule_format, of j] e by (cases "j = i") (simp_all add: nth_list_update)
  qed
  moreover have "store_inv (srv_dbs ?w1)"
    using create_db_store(1) Cons.prems(3) by simp
  ultimately obtain w' where w': "register_log eng files order ?w1 = rok w'" "store_inv (srv_dbs w')"
    and sh: "shards (srv_sched w') = map (\<lambda>j. fold add_service (on_shard j order) (shards (srv_sched ?w1) ! j)) [0..<length (shards (srv_sched ?w1))]"
    and st: "\<forall>u k. stored (srv_dbs w') (u, k) = (if u \<in> snd ` set order then None else stored (srv_dbs ?w1) (u, k))"
    and db: "db_map (srv_dbs w') = (\<lambda>u. if u \<in> snd ` set order then Some new_database else db_map (srv_dbs ?w1) u)"
    using Cons.IH [of ?w1] by blast
  have "shards (srv_sched w') = map (\<lambda>j. fold add_service (on_shard j (e # order)) (shards ?s ! j)) [0..<length (shards ?s)]"
    using sh e by (auto simp: nth_list_update)
  moreover have "\<forall>u k. stored (srv_dbs w') (u, k) = (if u \<in> snd ` set (e # order) then None else stored (srv_dbs w) (u, k))"
    using st e create_db_store(2,3) [OF Cons.prems(3)] by auto
  moreover have "db_map (srv_dbs w') = (\<lambda>u. if u \<in> snd ` set (e # order) then Some new_database else db_map (srv_dbs w) u)"
    using db e create_db_store(4) [OF Cons.prems(3)] by (auto simp: fun_eq_iff)
  ultimately show ?case
    using r w' e by simp
qed

section \<open>Properties\<close>

text \<open>
  C17. In whatever order the registrations run on the shards, with scripts that are readable, compile and
  only declare functions: each service runs in its own context on its shard and has an empty database.
  The database is shared, so the registration on a later shard drops what was stored under the name of
  the service before; the databases of other names are kept.
\<close>

theorem services_registered:
  assumes "\<forall>(i, v) \<in> set order. i < length (shards (srv_sched w)) \<and> plain_script eng files v"
    and "\<forall>d \<in> set (shards (srv_sched w)). contexts d = []"
    and "\<forall>i. length (on_shard i order) \<le> NUM_SERVICES" and "store_inv (srv_dbs w)"
  shows "\<exists>w'. register_log eng files order w = rok w' \<and> store_inv (srv_dbs w') \<and>
    (\<forall>i < length (shards (srv_sched w)). contexts (shards (srv_sched w') ! i) = on_shard i order) \<and>
    (\<forall>(i, v) \<in> set order. enter_context i v (srv_sched w') = rok (v, srv_sched w') \<and> get_db (srv_dbs w') v = Some new_database) \<and>
    (\<forall>v k. stored (srv_dbs w') (v, k) = (if v \<in> snd ` set order then None else stored (srv_dbs w) (v, k)))"
proof -
  let ?n = "length (shards (srv_sched w))"
  have empty: "contexts (shards (srv_sched w) ! i) = []" if "i < ?n" for i
    using assms(2) that by simp
  have "\<forall>i < ?n. length (contexts (shards (srv_sched w) ! i)) + length (on_shard i order) \<le> NUM_SERVICES"
    using assms(3) empty by simp
  from register_log_plain [OF assms(1) this assms(4)] obtain w' where w': "register_log eng files order w = rok w'" "store_inv (srv_dbs w')"
    and sh: "shards (srv_sched w') = map (\<lambda>i. fold add_service (on_shard i order) (shards (srv_sched w) ! i)) [0..<?n]"
    and st: "\<forall>u k. stored (srv_dbs w') (u, k) = (if u \<in> snd ` set order then None else stored (srv_dbs w) (u, k))"
    and db: "db_map (srv_dbs w') = (\<lambda>u. if u \<in> snd ` set order then Some new_database else db_map (srv_dbs w) u)"
    by blast
  have "enter_context i v (srv_sched w') = rok (v, srv_sched w') \<and> get_db (srv_dbs w') v = Some new_database"
    if e: "(i, v) \<in> set order" for i v
  proof -
    have i: "i < ?n" and v: "v \<in> set (on_shard i order)"
      using e assms(1) by (auto simp: on_shard_def intro!: image_eqI [of v snd "(i, v)"])
    obtain k where "k < length (on_shard i order)" "ctx_map (shards (srv_sched w') ! i) v = Some k" "on_shard i order ! k = v"
      using fold_add_service(2) [OF v, of "shards (srv_sched w) ! i"] i empty [OF i] sh by auto
    then show ?thesis
      using enter_context_known [of i "srv_sched w'" v k] i empty [OF i] e by (force simp: sh fold_add_service(1) get_db_def db)
  qed
  then have "\<forall>(i, v) \<in> set order. enter_context i v (srv_sched w') = rok (v, srv_sched w') \<and> get_db (srv_dbs w') v = Some new_database"
    by blast
  moreover have "\<forall>i < ?n. contexts (shards (srv_sched w') ! i) = on_shard i order"
    using empty by (simp add: sh fold_add_service(1))
  ultimately show ?thesis
    using w' st by blast
qed

text \<open>The services of \<^verbatim>\<open>main\<close> on two shards, with one script for all of them.\<close>

lemma on_shard_main: "length (on_shard i (main_registrations 2)) \<le> NUM_SERVICES" "(1, ''post.js'') \<in> set (main_registrations 2)"
  "\<forall>(i, v) \<in> set (main_registrations 2). i < 2"
proof -
  have "length (on_shard i order) \<le> length order" for order
    by (simp add: on_shard_def)
  then show "length (on_shard i (main_registrations 2)) \<le> NUM_SERVICES"
    by (rule order_trans) (simp add: main_registrations_def main_services_def NUM_SERVICES_def)
  show "(1, ''post.js'') \<in> set (main_registrations 2)" "\<forall>(i, v) \<in> set (main_registrations 2). i < 2"
    by (auto simp: main_registrations_def main_services_def)
qed

theorem services_registered_witness:
  "\<exists>w. register_log \<lparr>new_string = \<lambda>c n. Some c, compiles = \<lambda>s. True, run_first = \<lambda>g s w. rok w\<rparr>
      (\<lambda>name. Some \<lparr>f_end = 2, f_read = \<lambda>pos k. (take k (drop pos ''{}''), False)\<rparr>) (main_registrations 2)
      \<lparr>srv_sched = fresh_sys 2, srv_dbs = wit_dbs\<rparr> = rok w \<and>
    enter_context 1 ''post.js'' (srv_sched w) = rok (''post.js'', srv_sched w) \<and> stored (srv_dbs w) (''post.js'', 7) = None"
proof -
  let ?eng = "\<lparr>new_string = \<lambda>c n. Some c, compiles = \<lambda>s. True, run_first = \<lambda>g s w. rok w\<rparr>"
  let ?f = "\<lparr>f_end = 2, f_read = \<lambda>pos k. (take k (drop pos ''{}''), False)\<rparr>"
  have "readable ''{}'' ?f"
    by (auto simp: readable_def)
  then have "read_loop (f_read ?f) 2 (take 0 ''{}'') = rok (Some (take 2 ''{}''))"
    by (intro read_loop_returns) simp_all
  then have script: "plain_script ?eng (\<lambda>name. Some ?f) v" for v
    by (simp add: plain_script_def read_file_def)
  have inv: "store_inv wit_dbs"
    using wit_dbs_rep by (auto simp: store_inv_def)
  have order: "\<forall>(i, v) \<in> set (main_registrations 2). i < length (shards (srv_sched \<lparr>srv_sched = fresh_sys 2, srv_dbs = wit_dbs\<rparr>)) \<and>
      plain_script ?eng (\<lambda>name. Some ?f) v"
    using on_shard_main(3) script by (auto simp: fresh_sys_def)
  have empty: "\<forall>d \<in> set (shards (srv_sched \<lparr>srv_sched = fresh_sys 2, srv_dbs = wit_dbs\<rparr>)). contexts d = []"
    by (simp add: fresh_sys_def new_shard_def)
  have limit: "\<forall>i. length (on_shard i (main_registrations 2)) \<le> NUM_SERVICES"
    using on_shard_main(1) by blast
  have "store_inv (srv_dbs \<lparr>srv_sched = fresh_sys 2, srv_dbs = wit_dbs\<rparr>)"
    using inv by simp
  from services_registered [OF order empty limit this] obtain w where
    w: "register_log ?eng (\<lambda>name. Some ?f) (main_registrations 2) \<lparr>srv_sched = fresh_sys 2, srv_dbs = wit_dbs\<rparr> = rok w"
    and own: "\<forall>(i, v) \<in> set (main_registrations 2). enter_context i v (srv_sched w) = rok (v, srv_sched w) \<and>
      get_db (srv_dbs w) v = Some new_database"
    and st: "\<forall>v k. stored (srv_dbs w) (v, k) = (if v \<in> snd ` set (main_registrations 2) then None
      else stored (srv_dbs \<lparr>srv_sched = fresh_sys 2, srv_dbs = wit_dbs\<rparr>) (v, k))"
    by (elim exE conjE) (rule that)
  have "''post.js'' \<in> snd ` set (main_registrations 2)"
    using on_shard_main(2) by (rule image_eqI [rotated]) simp
  then have "stored (srv_dbs w) (''post.js'', 7) = None"
    using st by (simp only: if_True simp_thms)
  moreover have "enter_context 1 ''post.js'' (srv_sched w) = rok (''post.js'', srv_sched w)"
    using bspec [OF own on_shard_main(2)] by simp
  ultimately show ?thesis
    using w by blast
qed

end
