(* ===== verification/Net_Server.thy ===== *)
theory Net_Server
  imports Platform Http_Handler Responses
begin

text \<open>
  The network server, \<^verbatim>\<open>src/net_server.cc\<close>: connections are accepted on the shards below \<^verbatim>\<open>HW_Q_COUNT\<close>
  (\<^verbatim>\<open>src/main.cc\<close>), and each one is served by a loop that handles a request, waits until its response
  is written, and goes on until the end of the input. Here the parts meet: the handler (theory
  \<open>Http_Handler\<close>), the shards at work (\<open>Platform\<close>) and the responses (\<open>Responses\<close>).

  What the client sends until it closes is the input of the connection. The HTTP parser of seastar is a
  parameter: it takes a request from the front of the input, or finds its end; the loop ends there, so the
  test of \<^verbatim>\<open>eof()\<close> before each round is part of it. The steps begin when the schedulers have been started.
\<close>

section \<open>Connections\<close>

text \<open>What the continuation of \<^verbatim>\<open>new_req\<close> keeps: the response as it was prepared.\<close>

record pending =
  p_key :: string
  p_version :: string
  p_connection :: string
  p_tm :: tm

datatype phase = Reading | Waiting pending | Closed

record conn =
  conn_cpu :: nat
  conn_in :: string
  conn_phase :: phase
  conn_out :: string
  conn_asked :: "string list"   \<comment> \<open>the keys of the requests accepted on it, in their order\<close>

definition new_conn :: "nat \<Rightarrow> string \<Rightarrow> conn" where
  "new_conn i text = \<lparr>conn_cpu = i, conn_in = text, conn_phase = Reading, conn_out = [], conn_asked = []\<rparr>"

record net_lib =
  http :: http_lib
  reply_text :: reply_lib
  next_request :: "string \<Rightarrow> http_request option \<times> string"

definition request_path :: "http_request \<Rightarrow> string" where
  "request_path req = fst (set_query_param (q_url req) (query_parameters req))"

definition asked_key :: "http_request \<Rightarrow> string \<Rightarrow> string res" where
  "asked_key req req_id = rbind (split_path (request_path req)) (\<lambda>(service, fn). rok (reply_key (service @ ''.js'') req_id))"

text \<open>One round of the loop up to the wait for the response; at the end of the input the loop ends.\<close>

definition conn_handle ::
  "net_lib \<Rightarrow> tm \<Rightarrow> u64 \<times> u64 \<times> u64 \<Rightarrow> u64 \<Rightarrow> string \<Rightarrow> conn \<Rightarrow> sys \<Rightarrow> (conn \<times> sys) res" where
  "conn_handle lib t clock now req_id c s =
     (let (parsed, rest) = next_request lib (conn_in c) in
      rbind (handle (http lib) (conn_cpu c) clock now req_id parsed rest s) (\<lambda>(rest, s).
      case parsed of
        None \<Rightarrow> rok (c\<lparr>conn_in := rest, conn_phase := Closed\<rparr>, s)
      | Some req \<Rightarrow> rbind (asked_key req req_id) (\<lambda>key.
          rok (c\<lparr>conn_in := rest, conn_asked := conn_asked c @ [key],
            conn_phase := Waiting \<lparr>p_key = key, p_version = q_version req,
              p_connection = get_header (http lib) ''Connection'' (q_headers req), p_tm = t\<rparr>\<rparr>, s))))"

text \<open>The rest of the round, when the promise is fulfilled: the response is written and flushed.\<close>

definition conn_write :: "net_lib \<Rightarrow> pending \<Rightarrow> js_reply \<Rightarrow> conn \<Rightarrow> conn res" where
  "conn_write lib p rep c =
     rbind (response_text (reply_text lib) (p_version p) (Some (p_connection p)) (p_tm p) rep) (\<lambda>text.
       rok (c\<lparr>conn_out := conn_out c @ text, conn_phase := Reading\<rparr>))"

section \<open>Steps\<close>

type_synonym net = "config \<times> conn list"

text \<open>
  Besides the steps of the shards: a connection is accepted; a request is read from a connection; the
  exception of \<^verbatim>\<open>read_exactly\<close> or of an empty path ends the loop of its connection; a response is written. \<^verbatim>\<open>gmtime_r\<close> gives
  a valid time.
\<close>

inductive net_step :: "nat \<Rightarrow> (string \<Rightarrow> fault + js_reply) \<Rightarrow> (string \<Rightarrow> string \<Rightarrow> bool) \<Rightarrow> net_lib \<Rightarrow> net \<Rightarrow> net \<Rightarrow> bool"
  for n json has_function lib where
  registered: "register_service i service s = rok s' \<Longrightarrow>
     net_step n json has_function lib ((s, log, reqs), cs) ((s', log, reqs), cs)"
| worked: "work json has_function (s, log) (s', log') \<Longrightarrow>
     net_step n json has_function lib ((s, log, reqs), cs) ((s', log', reqs), cs)"
| accepted: "i < min n HW_Q_COUNT \<Longrightarrow> net_step n json has_function lib ((s, log, reqs), cs) ((s, log, reqs), cs @ [new_conn i text])"
| asked: "k < length cs \<Longrightarrow> conn_phase (cs ! k) = Reading \<Longrightarrow> tm_ok t \<Longrightarrow>
     conn_handle lib t clock now req_id (cs ! k) s = rok (c, s') \<Longrightarrow> conn_phase c = Waiting p \<Longrightarrow>
     net_step n json has_function lib ((s, log, reqs), cs) ((s', log, (conn_cpu c, p_key p) # reqs), cs[k := c])"
| ended: "k < length cs \<Longrightarrow> conn_phase (cs ! k) = Reading \<Longrightarrow>
     conn_handle lib t clock now req_id (cs ! k) s = rok (c, s') \<Longrightarrow> conn_phase c = Closed \<Longrightarrow>
     net_step n json has_function lib ((s, log, reqs), cs) ((s', log, reqs), cs[k := c])"
| thrown: "k < length cs \<Longrightarrow> conn_phase (cs ! k) = Reading \<Longrightarrow> next_request lib (conn_in (cs ! k)) = (Some req, rest) \<Longrightarrow>
     read_request_body (http lib) rest (req\<lparr>content_length := length_header (http lib) req\<rparr>) = rfail e \<or>
       split_path (request_path req) = rfail e \<Longrightarrow>
     net_step n json has_function lib ((s, log, reqs), cs) ((s, log, reqs), cs[k := (cs ! k)\<lparr>conn_phase := Closed\<rparr>])"
| answered: "k < length cs \<Longrightarrow> conn_phase (cs ! k) = Waiting p \<Longrightarrow> sent s = es1 @ Set_value (conn_cpu (cs ! k)) (p_key p) rep # es2 \<Longrightarrow>
     conn_write lib p rep (cs ! k) = rok c \<Longrightarrow>
     net_step n json has_function lib ((s, log, reqs), cs)
       ((s\<lparr>sent := es1 @ es2\<rparr>, log @ [Set_value (conn_cpu (cs ! k)) (p_key p) rep], reqs), cs[k := c])"

inductive net_reachable :: "nat \<Rightarrow> (string \<Rightarrow> fault + js_reply) \<Rightarrow> (string \<Rightarrow> string \<Rightarrow> bool) \<Rightarrow> net_lib \<Rightarrow> net \<Rightarrow> bool"
  for n json has_function lib where
  at_start: "net_reachable n json has_function lib ((started n, [], []), [])"
| later: "net_reachable n json has_function lib c \<Longrightarrow> net_step n json has_function lib c c' \<Longrightarrow> net_reachable n json has_function lib c'"

section \<open>The shards below the connections\<close>

lemma asked_key_service: "asked_key req req_id = rok key \<Longrightarrow>
    \<exists>service fn. split_path (request_path req) = rok (service, fn) \<and> key = reply_key (service @ ''.js'') req_id"
  unfolding asked_key_def by (elim rbind_pair_rokE) auto

lemma handle_new_req:
  assumes "handle lib cpu clock now req_id (Some req) stream s = rok (rest, s')"
  shows "\<exists>service fn args. split_path (request_path req) = rok (service, fn) \<and>
    new_req cpu clock now req_id (service @ ''.js'') fn args s = rok s'"
proof -
  obtain req' r where body: "read_request_body lib stream (req\<lparr>content_length := length_header lib req\<rparr>) = rok (req', r)"
    using assms unfolding handle_def option.case by (elim rbind_pair_rokE) (rule that)
  then have "q_url req' = q_url req" "query_parameters req' = query_parameters req"
    by (auto simp: read_request_body_def elim!: rbind_pair_rokE split: if_splits)
  then have "fst (set_query_param (q_url req') (query_parameters req')) = request_path req"
    by (simp add: request_path_def)
  then show ?thesis
    using assms by (auto simp: handle_def body Let_def split_def elim!: rbind_rokE)
qed

lemma conn_handle_cases:
  assumes "conn_handle lib t clock now req_id c s = rok (c', s')"
  obtains (end_of_input) "conn_phase c' = Closed" "conn_asked c' = conn_asked c" "conn_out c' = conn_out c" "conn_cpu c' = conn_cpu c" "s' = s"
  | (request) p service fn args req r where "conn_phase c' = Waiting p" "conn_asked c' = conn_asked c @ [p_key p]" "conn_out c' = conn_out c"
      "conn_cpu c' = conn_cpu c" "new_req (conn_cpu c) clock now req_id (service @ ''.js'') fn args s = rok s'"
      "p_key p = reply_key (service @ ''.js'') req_id" "p_tm p = t" "next_request lib (conn_in c) = (Some req, r)" "p_version p = q_version req"
proof -
  obtain parsed r where pr: "next_request lib (conn_in c) = (parsed, r)"
    by (cases "next_request lib (conn_in c)")
  show ?thesis
  proof (cases parsed)
    case None
    then show ?thesis
      using assms pr by (intro end_of_input) (auto simp: conn_handle_def handle_def)
  next
    case (Some req)
    obtain r2 s2 key where h: "handle (http lib) (conn_cpu c) clock now req_id (Some req) r s = rok (r2, s2)"
      and key: "asked_key req req_id = rok key" and fin: "rok (c\<lparr>conn_in := r2, conn_asked := conn_asked c @ [key],
            conn_phase := Waiting \<lparr>p_key = key, p_version = q_version req,
              p_connection = get_header (http lib) ''Connection'' (q_headers req), p_tm = t\<rparr>\<rparr>, s2) = rok (c', s')"
      using assms unfolding conn_handle_def pr Let_def prod.case Some option.case by (elim rbind_pair_rokE rbind_rokE) (rule that)
    obtain service fn args where sp: "split_path (request_path req) = rok (service, fn)"
        and new: "new_req (conn_cpu c) clock now req_id (service @ ''.js'') fn args s = rok s2"
      using handle_new_req [OF h] by blast
    have "key = reply_key (service @ ''.js'') req_id"
      using asked_key_service [OF key] sp by auto
    then show ?thesis
      using request [of "\<lparr>p_key = key, p_version = q_version req,
        p_connection = get_header (http lib) ''Connection'' (q_headers req), p_tm = t\<rparr>" service fn args req r] fin pr Some new by auto
  qed
qed

lemma net_step_platform:
  assumes "net_step n json has_function lib c c'"
  shows "step json has_function (fst c) (fst c') \<or> fst c' = fst c"
  using assms
proof (cases rule: net_step.cases)
  case (registered i service s s' log reqs cs)
  then show ?thesis by (auto intro: step.registered)
next
  case (worked s log s' log' reqs cs)
  then show ?thesis
    using work_step [OF worked(3), of reqs] by simp
next
  case (asked k cs t clock now req_id s d s' p log reqs)
  from asked(6) show ?thesis
  proof (cases rule: conn_handle_cases)
    case end_of_input
    then show ?thesis
      using asked(7) by simp
  next
    case (request q service fn args)
    then show ?thesis
      using asked(1,2,7) step.requested [OF request(5), of json has_function log reqs] by auto
  qed
next
  case (ended k cs t clock now req_id s d s' log reqs)
  from ended(5) show ?thesis
    by (cases rule: conn_handle_cases) (use ended in auto)
next
  case (answered k cs p s es1 rep es2 d log reqs)
  have "step json has_function (s, log, reqs) (s\<lparr>sent := es1 @ es2\<rparr>, log @ [Set_value (conn_cpu (cs ! k)) (p_key p) rep], reqs)"
    by (rule step.delivered [OF answered(5), where ?now1.0 = 0 and ?now2.0 = 0 and nested = "[]"]) simp
  then show ?thesis
    using answered(1,2) by simp
qed auto

lemma net_reachable_platform: "net_reachable n json has_function lib c \<Longrightarrow> reachable n json has_function (fst c)"
proof (induction rule: net_reachable.induct)
  case at_start
  then show ?case by (simp add: reachable.at_start)
next
  case (later c c')
  from net_step_platform [OF later(2)] show ?case
  proof
    assume "step json has_function (fst c) (fst c')"
    then show ?thesis
      by (rule reachable.later [OF later(3)])
  next
    assume "fst c' = fst c"
    then show ?thesis
      using later(3) by simp
  qed
qed

section \<open>Reading the responses of a connection\<close>

fun read_responses :: "nat \<Rightarrow> string \<Rightarrow> (string list \<times> string) option" where
  "read_responses 0 s = Some ([], s)"
| "read_responses (Suc m) s = (case read_response s of
      None \<Rightarrow> None
    | Some (line, hs, content, r) \<Rightarrow> map_option (\<lambda>(cs, r). (content # cs, r)) (read_responses m r))"

lemma read_responses_snoc:
  "read_responses m s = Some (xs, r) \<Longrightarrow> read_response r = Some (line, hs, x, r') \<Longrightarrow> read_responses (Suc m) s = Some (xs @ [x], r')"
proof (induction m arbitrary: s xs)
  case 0
  then show ?case by simp
next
  case (Suc m)
  then obtain line1 hs1 x1 r1 ys where "read_response s = Some (line1, hs1, x1, r1)" "read_responses m r1 = Some (ys, r)" "xs = x1 # ys"
    by (auto split: option.splits)
  then show ?case
    using Suc.IH [of r1 ys] Suc.prems(2) by simp
qed

text \<open>What is relied on of seastar: versions and status lines have no line break inside, and the table of headers keeps them.\<close>

definition net_lib_ok :: "net_lib \<Rightarrow> bool" where
  "net_lib_ok lib \<longleftrightarrow> (\<forall>version rep. CR \<notin> set version \<longrightarrow>
       (\<exists>l. response_line (reply_text lib) version rep = l @ crlf \<and> CR \<notin> set l)) \<and>
     (\<forall>hs. mset (header_order (reply_text lib) hs) = mset hs) \<and>
     (\<forall>text req r. next_request lib text = (Some req, r) \<longrightarrow> CR \<notin> set (q_version req))"

lemma conn_write_reads:
  assumes "net_lib_ok lib" and "CR \<notin> set (p_version p)" and "tm_ok (p_tm p)"
  shows "\<exists>text. conn_write lib p rep c = rok (c\<lparr>conn_out := conn_out c @ text, conn_phase := Reading\<rparr>) \<and>
    (\<forall>rest. \<exists>line hs. read_response (text @ rest) = Some (line, hs, content_of (reply_text lib) rep, rest))"
proof -
  obtain l where l: "response_line (reply_text lib) (p_version p) rep = l @ crlf" "CR \<notin> set l"
    using assms(1,2) unfolding net_lib_ok_def by blast
  have order: "mset (header_order (reply_text lib) hs) = mset hs" for hs
    using assms(1) by (simp add: net_lib_ok_def)
  have read: "\<exists>text hs. response_text (reply_text lib) (p_version p) (Some (p_connection p)) (p_tm p) rep = rok text \<and>
     read_response (text @ rest) = Some (l, hs, content_of (reply_text lib) rep, rest)" for rest
    using response_read_back [OF assms(3) l order] by blast
  obtain bytes where b: "response_text (reply_text lib) (p_version p) (Some (p_connection p)) (p_tm p) rep = rok bytes"
    using read [of "[]"] by (elim exE conjE) (rule that)
  have "\<exists>line hs. read_response (bytes @ rest) = Some (line, hs, content_of (reply_text lib) rep, rest)" for rest
    using read [of rest] unfolding b rok_inject by (elim exE conjE) simp
  then show ?thesis
    unfolding conn_write_def b rbind_simps by (intro exI [of _ bytes]) simp
qed

section \<open>What holds of every connection\<close>

definition waiting :: "conn \<Rightarrow> nat" where
  "waiting c = (case conn_phase c of Waiting p \<Rightarrow> 1 | _ \<Rightarrow> 0)"

definition conn_inv :: "net_lib \<Rightarrow> event list \<Rightarrow> conn \<Rightarrow> bool" where
  "conn_inv lib log c \<longleftrightarrow>
     (\<exists>reps. length (conn_asked c) = length reps + waiting c \<and>
        (\<forall>j < length reps. Set_value (conn_cpu c) (conn_asked c ! j) (reps ! j) \<in> set log) \<and>
        (\<forall>rest. read_responses (length reps) (conn_out c @ rest) = Some (map (content_of (reply_text lib)) reps, rest))) \<and>
     (\<forall>p. conn_phase c = Waiting p \<longrightarrow> conn_asked c \<noteq> [] \<and> last (conn_asked c) = p_key p \<and> tm_ok (p_tm p) \<and> CR \<notin> set (p_version p))"

lemma conn_inv_log: "conn_inv lib log c \<Longrightarrow> conn_inv lib (log @ es) c"
  unfolding conn_inv_def by (metis Un_iff set_append)

lemma conn_inv_new: "conn_inv lib log (new_conn i text)"
  by (simp add: conn_inv_def new_conn_def waiting_def)

lemma conn_inv_asked:
  assumes "conn_inv lib log c" and "conn_phase c = Reading" and "net_lib_ok lib" and "tm_ok t"
    and "conn_handle lib t clock now req_id c s = rok (c', s')"
  shows "conn_inv lib log c'"
proof -
  obtain reps where reps: "length (conn_asked c) = length reps"
      "\<forall>j < length reps. Set_value (conn_cpu c) (conn_asked c ! j) (reps ! j) \<in> set log"
      "\<forall>rest. read_responses (length reps) (conn_out c @ rest) = Some (map (content_of (reply_text lib)) reps, rest)"
    using assms(1,2) by (auto simp: conn_inv_def waiting_def)
  from assms(5) show ?thesis
  proof (cases rule: conn_handle_cases)
    case end_of_input
    then show ?thesis
      using reps by (auto simp: conn_inv_def waiting_def)
  next
    case (request p service fn args req r)
    have "CR \<notin> set (p_version p)"
      using request(8,9) assms(3) unfolding net_lib_ok_def by metis
    moreover have "\<forall>j < length reps. Set_value (conn_cpu c') (conn_asked c' ! j) (reps ! j) \<in> set log"
      using reps(1,2) request(2,4) by (simp add: nth_append)
    ultimately show ?thesis
      using reps request assms(4) unfolding conn_inv_def waiting_def by auto
  qed
qed

lemma conn_inv_closed: "conn_inv lib log c \<Longrightarrow> conn_phase c = Reading \<Longrightarrow> conn_inv lib log (c\<lparr>conn_phase := Closed\<rparr>)"
  by (simp add: conn_inv_def waiting_def)

lemma conn_inv_answered:
  assumes "conn_inv lib log c" and "conn_phase c = Waiting p" and "net_lib_ok lib" and "conn_write lib p rep c = rok c'"
  shows "conn_inv lib (log @ [Set_value (conn_cpu c) (p_key p) rep]) c'"
proof -
  obtain reps where reps: "length (conn_asked c) = Suc (length reps)"
      "\<forall>j < length reps. Set_value (conn_cpu c) (conn_asked c ! j) (reps ! j) \<in> set log"
      "\<forall>rest. read_responses (length reps) (conn_out c @ rest) = Some (map (content_of (reply_text lib)) reps, rest)"
    and p: "conn_asked c \<noteq> []" "last (conn_asked c) = p_key p" "tm_ok (p_tm p)" "CR \<notin> set (p_version p)"
    using assms(1,2) by (auto simp: conn_inv_def waiting_def)
  obtain bytes where bytes: "c' = c\<lparr>conn_out := conn_out c @ bytes, conn_phase := Reading\<rparr>"
    "\<forall>rest. \<exists>line hs. read_response (bytes @ rest) = Some (line, hs, content_of (reply_text lib) rep, rest)"
    using conn_write_reads [OF assms(3) p(4,3), of rep c] assms(4) by auto
  have "read_responses (Suc (length reps)) (conn_out c @ bytes @ rest) = Some (map (content_of (reply_text lib)) (reps @ [rep]), rest)" for rest
    using read_responses_snoc [OF spec [OF reps(3), of "bytes @ rest"]] bytes(2) by (metis list.simps(8,9) map_append)
  moreover have "conn_asked c ! length reps = p_key p"
    using p(1,2) reps(1) by (simp add: last_conv_nth)
  then have "\<forall>j < Suc (length reps). Set_value (conn_cpu c) (conn_asked c ! j) ((reps @ [rep]) ! j) \<in> set (log @ [Set_value (conn_cpu c) (p_key p) rep])"
    using reps(2) by (auto simp: less_Suc_eq nth_append)
  ultimately show ?thesis
    using reps(1) by (auto simp: conn_inv_def waiting_def bytes(1) intro!: exI [of _ "reps @ [rep]"])
qed

text \<open>The requests of the shards are those asked on the connections.\<close>

definition asked_on :: "conn \<Rightarrow> (nat \<times> string) list" where
  "asked_on c = map (Pair (conn_cpu c)) (conn_asked c)"

definition net_inv :: "net_lib \<Rightarrow> net \<Rightarrow> bool" where
  "net_inv lib c \<longleftrightarrow> (\<forall>d \<in> set (snd c). conn_inv lib (fst (snd (fst c))) d) \<and>
     mset (snd (snd (fst c))) = mset (concat (map asked_on (snd c)))"

lemma mset_concat_update:
  assumes "k < length cs" and "mset (f c) = mset ys + mset (f (cs ! k))"
  shows "mset (concat (map f (cs[k := c]))) = mset ys + mset (concat (map f cs))"
proof -
  have "concat (map f cs) = concat (map f (take k cs)) @ f (cs ! k) @ concat (map f (drop (Suc k) cs))"
    using assms(1) by (subst id_take_nth_drop [of k cs]) simp_all
  then show ?thesis
    using assms by (simp add: upd_conv_take_nth_drop)
qed

lemma asked_on_same: "conn_asked c = conn_asked d \<Longrightarrow> conn_cpu c = conn_cpu d \<Longrightarrow> asked_on c = asked_on d"
  by (simp add: asked_on_def)

lemma net_inv_update:
  assumes "net_inv lib ((s, log, reqs), cs)" and "k < length cs" and "conn_inv lib (log @ es) c"
    and "mset (asked_on c) = mset rs + mset (asked_on (cs ! k))"
  shows "net_inv lib ((s', log @ es, rs @ reqs), cs[k := c])"
proof -
  have "conn_inv lib (log @ es) d" if "d \<in> set (cs[k := c])" for d
  proof -
    have "d = c \<or> d \<in> set cs"
      using that set_update_subset_insert by fastforce
    then show ?thesis
      using assms(1,3) conn_inv_log by (auto simp: net_inv_def)
  qed
  then show ?thesis
    using assms(1) mset_concat_update [OF assms(2), of asked_on c rs] assms(4) by (auto simp: net_inv_def)
qed

lemma net_step_inv:
  assumes "net_step n json has_function lib c c'" and "net_inv lib c" and "net_lib_ok lib"
  shows "net_inv lib c'"
  using assms(1)
proof (cases rule: net_step.cases)
  case (registered i service s s' log reqs cs)
  then show ?thesis
    using assms(2) by (simp add: net_inv_def)
next
  case (worked s log s' log' reqs cs)
  then obtain e where "log' = log @ [e]"
    by (auto elim: work.cases)
  then show ?thesis
    using worked(1,2) assms(2) conn_inv_log by (auto simp: net_inv_def)
next
  case (accepted i s log reqs cs bs)
  then show ?thesis
    using assms(2) conn_inv_new by (auto simp: net_inv_def asked_on_def new_conn_def)
next
  case (asked k cs t clock now req_id s d s' p log reqs)
  have inv: "conn_inv lib log d"
    using conn_inv_asked [OF _ asked(4) assms(3) asked(5,6), of log] asked(1,3) assms(2) by (auto simp: net_inv_def)
  have "mset (asked_on d) = mset [(conn_cpu d, p_key p)] + mset (asked_on (cs ! k))"
    using asked(6)
  proof (cases rule: conn_handle_cases)
    case end_of_input
    then show ?thesis
      using asked(7) by simp
  next
    case (request q service fn args req r)
    then show ?thesis
      using asked(7) by (simp add: asked_on_def)
  qed
  then show ?thesis
    using net_inv_update [of lib s log reqs cs k "[]" d "[(conn_cpu d, p_key p)]" s'] asked(1-3) inv assms(2) by simp
next
  case (ended k cs t clock now req_id s d s' log reqs)
  have "conn_inv lib log (cs ! k)"
    using ended(1,3) assms(2) by (auto simp: net_inv_def)
  from ended(5) have "conn_inv lib log d \<and> asked_on d = asked_on (cs ! k) \<and> s' = s"
  proof (cases rule: conn_handle_cases)
    case end_of_input
    have "waiting d = waiting (cs ! k)"
      using end_of_input(1) ended(4) by (simp add: waiting_def)
    then have "conn_inv lib log d"
      using \<open>conn_inv lib log (cs ! k)\<close> end_of_input(1-4) unfolding conn_inv_def by simp
    then show ?thesis
      using end_of_input(2,4,5) asked_on_same by blast
  next
    case (request q service fn args req r)
    then show ?thesis
      using ended(6) by simp
  qed
  then show ?thesis
    using net_inv_update [of lib s log reqs cs k "[]" d "[]" s'] ended(1-3) assms(2) by simp
next
  case (thrown k cs req rest e s log reqs)
  have "conn_inv lib log ((cs ! k)\<lparr>conn_phase := Closed\<rparr>)"
    using conn_inv_closed [OF _ thrown(4)] thrown(1,3) assms(2) by (auto simp: net_inv_def)
  then show ?thesis
    using net_inv_update [of lib s log reqs cs k "[]" "(cs ! k)\<lparr>conn_phase := Closed\<rparr>" "[]" s] thrown(1-3) assms(2)
    by (simp add: asked_on_def)
next
  case (answered k cs p s es1 rep es2 d log reqs)
  have inv: "conn_inv lib log (cs ! k)"
    using answered(1,3) assms(2) by (auto simp: net_inv_def)
  have "asked_on d = asked_on (cs ! k)"
    using answered(6) by (auto simp: conn_write_def asked_on_def elim!: rbind_rokE)
  then show ?thesis
    using net_inv_update [of lib s log reqs cs k "[Set_value (conn_cpu (cs ! k)) (p_key p) rep]" d "[]" "s\<lparr>sent := es1 @ es2\<rparr>"]
      conn_inv_answered [OF inv answered(4) assms(3) answered(6)] answered(1-3) assms(2) by simp
qed

lemma net_reachable_inv: "net_reachable n json has_function lib c \<Longrightarrow> net_lib_ok lib \<Longrightarrow> net_inv lib c"
proof (induction rule: net_reachable.induct)
  case at_start
  then show ?case by (simp add: net_inv_def)
next
  case (later c c')
  then show ?case
    using net_step_inv by blast
qed

lemma net_reachable_cpu:
  "net_reachable n json has_function lib c \<Longrightarrow> \<forall>d \<in> set (snd c). conn_cpu d < min n HW_Q_COUNT"
proof (induction rule: net_reachable.induct)
  case at_start
  then show ?case by simp
next
  case (later c c')
  have keep: "\<forall>d \<in> set (cs[k := e]). conn_cpu d < min n HW_Q_COUNT"
    if "\<forall>d \<in> set cs. conn_cpu d < min n HW_Q_COUNT" "k < length cs" "conn_cpu e = conn_cpu (cs ! k)" for cs k e
    using that set_update_subset_insert [of cs k e] nth_mem [of k cs] by fastforce
  have handle: "conn_cpu d = conn_cpu e" if "conn_handle lib t clock now req_id e s = rok (d, s')" for d e t clock now req_id s s'
    using that by (cases rule: conn_handle_cases) simp_all
  from later(2) show ?case
  proof (cases rule: net_step.cases)
    case (asked k cs t clock now req_id s d s' p log reqs)
    then show ?thesis
      using later(3) keep [of cs k d] handle [OF asked(6)] by simp
  next
    case (ended k cs t clock now req_id s d s' log reqs)
    then show ?thesis
      using later(3) keep [of cs k d] handle [OF ended(5)] by simp
  next
    case (thrown k cs req rest e s log reqs)
    then show ?thesis
      using later(3) keep [of cs k "(cs ! k)\<lparr>conn_phase := Closed\<rparr>"] by simp
  next
    case (answered k cs p s es1 rep es2 d log reqs)
    then show ?thesis
      using later(3) keep [of cs k d] by (auto simp: conn_write_def elim!: rbind_rokE)
  next
    case (accepted i s log reqs cs bs)
    then show ?thesis
      using later(3) by (simp add: new_conn_def)
  qed (use later(3) in auto)
qed

section \<open>Every response has its connection\<close>

lemma distinct_concat_once:
  assumes "distinct (concat xss)" and "i < length xss" and "j < length xss" and "x \<in> set (xss ! i)" and "x \<in> set (xss ! j)"
  shows "i = j"
  using assms
proof (induction xss arbitrary: i j)
  case Nil
  then show ?case by simp
next
  case (Cons xs xss)
  have out: "x \<notin> set xs" if "k < length xss" "x \<in> set (xss ! k)" for k
  proof -
    have "x \<in> set (concat xss)"
      using that by (auto intro: bexI [of _ "xss ! k"])
    then show ?thesis
      using Cons.prems(1) by auto
  qed
  show ?case
    using Cons out by (cases i; cases j) auto
qed

lemma asked_waiting:
  assumes "conn_inv lib log c" and "key \<in> set (conn_asked c)" and "\<forall>rep. Set_value (conn_cpu c) key rep \<notin> set log"
  shows "\<exists>p. conn_phase c = Waiting p \<and> p_key p = key"
proof -
  obtain reps where reps: "length (conn_asked c) = length reps + waiting c"
      "\<forall>j < length reps. Set_value (conn_cpu c) (conn_asked c ! j) (reps ! j) \<in> set log"
    and last: "\<forall>p. conn_phase c = Waiting p \<longrightarrow> last (conn_asked c) = p_key p"
    using assms(1) by (auto simp: conn_inv_def)
  obtain j where j: "j < length (conn_asked c)" "conn_asked c ! j = key"
    using assms(2) by (auto simp: in_set_conv_nth)
  then have "\<not> j < length reps"
    using reps(2) assms(3) by auto
  then have "waiting c = 1" "j = length (conn_asked c) - 1" "conn_asked c \<noteq> []"
    using j(1) reps(1) by (auto simp: waiting_def split: phase.splits)
  then show ?thesis
    using last j by (cases "conn_phase c") (auto simp: waiting_def last_conv_nth)
qed

lemma count_fulfils: "Set_value i key rep \<in> set es \<Longrightarrow> 0 < length (filter (fulfils i key) es)"
  by (induction es) auto

section \<open>A request on an idle machine is served\<close>

lemma net_reachable_steps:
  assumes "(net_step n json has_function lib)\<^sup>*\<^sup>* c c'" and "net_reachable n json has_function lib c"
  shows "net_reachable n json has_function lib c'"
  using assms by (induction rule: rtranclp_induct) (auto intro: net_reachable.later)

lemma net_works:
  assumes "(work json has_function)\<^sup>*\<^sup>* a b"
  shows "(net_step n json has_function lib)\<^sup>*\<^sup>* ((fst a, snd a, reqs), cs) ((fst b, snd b, reqs), cs)"
  using assms
proof (induction rule: rtranclp_induct)
  case base
  then show ?case by simp
next
  case (step b c)
  have "net_step n json has_function lib ((fst b, snd b, reqs), cs) ((fst c, snd c, reqs), cs)"
    using step(2) by (intro net_step.worked) simp
  then show ?case
    by (rule rtranclp.rtrancl_into_rtrancl [OF step(3)])
qed

lemma served_path:
  assumes reach: "net_reachable n json has_function lib ((s, log, reqs), cs)" and t: "tm_ok t"
    and k: "k < length cs" and reading: "conn_phase (cs ! k) = Reading"
    and req: "next_request lib (conn_in (cs ! k)) = (Some req, r)" and body: "body_read (http lib) req r"
    and path: "split_path (request_path req) = rok (service, fn)"
    and some: "HW_Q_COUNT < n \<longrightarrow> (\<exists>k. HW_Q_COUNT \<le> k \<and> k < n \<and> till s k \<noteq> - 1)"
    and rest: "\<forall>i < n. at_rest has_function req_id (service @ ''.js'') fn s i" and json: "json ret = Inr rep"
  shows "\<exists>s' log' c p es. (net_step n json has_function lib)\<^sup>*\<^sup>* ((s, log, reqs), cs)
      ((s', log', (conn_cpu c, p_key p) # reqs), cs[k := c]) \<and>
    conn_phase c = Waiting p \<and> p_key p = reply_key (service @ ''.js'') req_id \<and> conn_cpu c = conn_cpu (cs ! k) \<and>
    conn_out c = conn_out (cs ! k) \<and> sent s' = sent s @ Set_value (conn_cpu c) (p_key p) rep # es"
proof -
  let ?cpu = "conn_cpu (cs ! k)" and ?key = "reply_key (service @ ''.js'') req_id"
  have cpu: "?cpu < n"
    using net_reachable_cpu [OF reach] k by simp
  have inv: "sched_inv n s"
    using reachable_inv [OF net_reachable_platform [OF reach]] by simp
  obtain args r2 where handle: "\<And>cpu clock now req_id s. handle (http lib) cpu clock now req_id (Some req) r s =
      rbind (new_req cpu clock now req_id (service @ ''.js'') fn args s) (\<lambda>s. rok (r2, s))"
    using handle_calls [OF body path [unfolded request_path_def]] by blast
  obtain s1 s' log' es where s1: "new_req ?cpu (0, 0, 0) 0 req_id (service @ ''.js'') fn args s = rok s1"
    and w: "(work json has_function)\<^sup>*\<^sup>* (s1, log) (s', log')" and ev: "sent s' = sent s @ Set_value ?cpu ?key rep # es"
    using request_answered_path [where json = json, OF inv cpu some rest json] by blast
  define p where "p = \<lparr>p_key = ?key, p_version = q_version req,
    p_connection = get_header (http lib) ''Connection'' (q_headers req), p_tm = t\<rparr>"
  define c where "c = (cs ! k)\<lparr>conn_in := r2, conn_asked := conn_asked (cs ! k) @ [?key], conn_phase := Waiting p\<rparr>"
  have "conn_handle lib t (0, 0, 0) 0 req_id (cs ! k) s = rok (c, s1)"
    by (simp add: conn_handle_def req handle s1 asked_key_def path c_def p_def)
  then have "net_step n json has_function lib ((s, log, reqs), cs) ((s1, log, (conn_cpu c, p_key p) # reqs), cs[k := c])"
    by (rule net_step.asked [OF k reading t]) (simp add: c_def)
  then have "(net_step n json has_function lib)\<^sup>*\<^sup>* ((s, log, reqs), cs) ((s', log', (conn_cpu c, p_key p) # reqs), cs[k := c])"
    using net_works [OF w, of n lib "(conn_cpu c, p_key p) # reqs" "cs[k := c]"] by simp
  moreover have "p_key p = ?key" "conn_cpu c = ?cpu" "conn_out c = conn_out (cs ! k)" "conn_phase c = Waiting p"
    by (simp_all add: p_def c_def)
  ultimately show ?thesis
    using ev by metis
qed

lemma served:
  assumes "net_reachable n json has_function lib ((s, log, reqs), cs)" and "net_lib_ok lib"
    and "k < length cs" and "conn_phase (cs ! k) = Reading"
    and "next_request lib (conn_in (cs ! k)) = (Some req, r)" and "body_read (http lib) req r"
    and "split_path (request_path req) = rok (service, fn)"
    and "HW_Q_COUNT < n \<longrightarrow> (\<exists>k. HW_Q_COUNT \<le> k \<and> k < n \<and> till s k \<noteq> - 1)"
    and "\<forall>i < n. at_rest has_function req_id (service @ ''.js'') fn s i" and "json ret = Inr rep"
  shows "\<exists>s' log' c text line hs es. (net_step n json has_function lib)\<^sup>*\<^sup>* ((s, log, reqs), cs)
      ((s', log', (conn_cpu (cs ! k), reply_key (service @ ''.js'') req_id) # reqs), cs[k := c]) \<and>
    conn_phase c = Reading \<and> conn_out c = conn_out (cs ! k) @ text \<and>
    read_response text = Some (line, hs, content_of (reply_text lib) rep, []) \<and> sent s' = sent s @ es"
proof -
  have t: "tm_ok \<lparr>tm_sec = 0, tm_min = 0, tm_hour = 0, tm_mday = 1, tm_mon = 0, tm_year = 70, tm_wday = 4\<rparr>"
    by (simp add: tm_ok_def)
  obtain s' log' c es and p :: pending where steps: "(net_step n json has_function lib)\<^sup>*\<^sup>* ((s, log, reqs), cs)
      ((s', log', (conn_cpu c, p_key p) # reqs), cs[k := c])"
    and c: "conn_phase c = Waiting p" "conn_out c = conn_out (cs ! k)" "conn_cpu c = conn_cpu (cs ! k)"
    and key: "p_key p = reply_key (service @ ''.js'') req_id"
    and es: "sent s' = sent s @ Set_value (conn_cpu c) (p_key p) rep # es"
    using served_path [OF assms(1) t assms(3-10)] by (elim exE conjE) (rule that)
  have "conn_inv lib log' c"
    using net_reachable_inv [OF net_reachable_steps [OF steps assms(1)] assms(2)] set_update_memI [OF assms(3), of c]
    by (simp add: net_inv_def)
  then have p: "tm_ok (p_tm p)" "CR \<notin> set (p_version p)"
    using c(1) by (simp_all add: conn_inv_def)
  obtain bytes where w: "conn_write lib p rep c = rok (c\<lparr>conn_out := conn_out c @ bytes, conn_phase := Reading\<rparr>)"
    and read: "\<forall>rest. \<exists>line hs. read_response (bytes @ rest) = Some (line, hs, content_of (reply_text lib) rep, rest)"
    using conn_write_reads [OF assms(2) p(2,1), of rep c] by blast
  let ?d = "c\<lparr>conn_out := conn_out c @ bytes, conn_phase := Reading\<rparr>"
  have "net_step n json has_function lib ((s', log', (conn_cpu c, p_key p) # reqs), cs[k := c])
      ((s'\<lparr>sent := sent s @ es\<rparr>, log' @ [Set_value (conn_cpu c) (p_key p) rep], (conn_cpu c, p_key p) # reqs), cs[k := ?d])"
    using net_step.answered [of k "cs[k := c]" p s' "sent s" rep es lib ?d] assms(3) c(1) es w by simp
  then have "(net_step n json has_function lib)\<^sup>*\<^sup>* ((s, log, reqs), cs)
      ((s'\<lparr>sent := sent s @ es\<rparr>, log' @ [Set_value (conn_cpu c) (p_key p) rep], (conn_cpu c, p_key p) # reqs), cs[k := ?d])"
    by (rule rtranclp.rtrancl_into_rtrancl [OF steps])
  moreover obtain line hs where "read_response bytes = Some (line, hs, content_of (reply_text lib) rep, [])"
    using read by (metis append_Nil2)
  moreover have "conn_phase ?d = Reading" "conn_out ?d = conn_out (cs ! k) @ bytes" "sent (s'\<lparr>sent := sent s @ es\<rparr>) = sent s @ es"
    by (simp_all add: c(2))
  ultimately show ?thesis
    unfolding c(3) key by blast
qed

section \<open>A machine of two shards\<close>

definition line_lib :: net_lib where
  "line_lib = \<lparr>http = plain_lib,
     reply_text = \<lparr>response_line = \<lambda>v r. ''HTTP/'' @ v @ '' 200 OK'' @ crlf, content_of = r_message, header_order = rev\<rparr>,
     next_request = \<lambda>bs. case until_crlf bs of None \<Rightarrow> (None, [])
       | Some (l, r) \<Rightarrow> (Some \<lparr>q_url = l, q_version = ''1.1'', q_headers = [], query_parameters = Map.empty, q_content = [],
           content_length = 0\<rparr>, r)\<rparr>"

lemma line_lib_ok: "net_lib_ok line_lib"
  by (auto simp: net_lib_ok_def line_lib_def split: option.splits)

abbreviation "two_shards \<equiv> net_reachable 2 (\<lambda>x. Inr \<lparr>r_status = 200, r_message = ''ok''\<rparr>) (\<lambda>c f. f = ''f'') line_lib"

lemma two_shards_ready:
  "\<exists>s. two_shards ((s, [], []), [new_conn 0 (''/a/f'' @ crlf)]) \<and> (\<forall>i < 2. at_rest (\<lambda>c f. f = ''f'') ''q'' ''a.js'' ''f'' s i)"
proof -
  obtain s1 s2 where s1: "register_service 0 ''a.js'' (started 2) = rok s1" and s2: "register_service 1 ''a.js'' s1 = rok s2"
    and rest: "\<forall>i < 2. at_rest (\<lambda>c f. f = ''f'') ''q'' ''a.js'' ''f'' s2 i"
    by (simp add: register_service_def started_def fresh_sys_def new_shard_def NUM_SERVICES_def upt_rec numeral_2_eq_2
        at_rest_def core_init_def less_Suc_eq shard_at_def set_shard_def)
  have "two_shards ((s2, [], []), [])"
    using net_reachable.later [OF net_reachable.later [OF net_reachable.at_start net_step.registered [OF s1]] net_step.registered [OF s2]] .
  then have "two_shards ((s2, [], []), [] @ [new_conn 0 (''/a/f'' @ crlf)])"
    by (rule net_reachable.later [OF _ net_step.accepted]) (simp add: HW_Q_COUNT_def)
  then show ?thesis
    using rest by auto
qed

abbreviation "two_shards_steps \<equiv> (net_step 2 (\<lambda>x. Inr \<lparr>r_status = 200, r_message = ''ok''\<rparr>) (\<lambda>c f. f = ''f'') line_lib)\<^sup>*\<^sup>*"

lemma two_shards_body: "body_read (http line_lib) \<lparr>q_url = ''/a/f'', q_version = ''1.1'', q_headers = [],
    query_parameters = Map.empty, q_content = [], content_length = 0\<rparr> []"
proof -
  have "strtol10 [] = 0"
    by code_simp
  then show ?thesis
    by (simp add: body_read_def length_header_def line_lib_def plain_lib_def)
qed

lemma two_shards_request:
  "next_request line_lib (conn_in (new_conn 0 (''/a/f'' @ crlf))) =
     (Some \<lparr>q_url = ''/a/f'', q_version = ''1.1'', q_headers = [], query_parameters = Map.empty, q_content = [], content_length = 0\<rparr>, [])"
  "split_path (request_path \<lparr>q_url = ''/a/f'', q_version = ''1.1'', q_headers = [], query_parameters = Map.empty, q_content = [],
     content_length = 0\<rparr>) = rok (''a'', ''f'')"
  "\<not> HW_Q_COUNT < (2 :: nat)" "conn_phase (new_conn 0 (''/a/f'' @ crlf)) = Reading"
  using split_path_two [of "''a''" "''f''"] set_query_param_path(1) [of "''/a/f''" Map.empty]
  by (simp_all add: line_lib_def new_conn_def request_path_def HW_Q_COUNT_def)

lemma two_shards_hw: "HW_Q_COUNT < (2 :: nat) \<longrightarrow> P" "0 < length [new_conn 0 (''/a/f'' @ crlf)]"
  using two_shards_request(3) by simp_all

lemma two_shards_served: "\<exists>s' log reqs c. two_shards ((s', log, reqs), [c]) \<and> conn_out c \<noteq> []"
proof -
  obtain s where s: "two_shards ((s, [], []), [new_conn 0 (''/a/f'' @ crlf)])" "\<forall>i < 2. at_rest (\<lambda>c f. f = ''f'') ''q'' (''a'' @ ''.js'') ''f'' s i"
    using two_shards_ready by auto
  from served [OF s(1) line_lib_ok, of 0, unfolded nth_Cons_0,
      OF two_shards_hw(2) two_shards_request(4,1) two_shards_body two_shards_request(2) two_shards_hw(1) s(2) refl]
  obtain s' log reqs c bs line hs where c: "two_shards_steps ((s, [], []), [new_conn 0 (''/a/f'' @ crlf)]) ((s', log, reqs), [new_conn 0 (''/a/f'' @ crlf)][0 := c])"
      "conn_out c = conn_out (new_conn 0 (''/a/f'' @ crlf)) @ bs" "read_response bs = Some (line, hs, content_of (reply_text line_lib) \<lparr>r_status = 200, r_message = ''ok''\<rparr>, [])"
    by (elim exE conjE) (rule that)
  have "bs \<noteq> []"
    using c(3) by (auto simp: read_response_def)
  then have "conn_out c \<noteq> []" and "two_shards ((s', log, reqs), [c])"
    using net_reachable_steps [OF c(1) s(1)] c(2) by simp_all
  then show ?thesis
    by blast
qed

section \<open>Properties\<close>

text \<open>
  C7. On every connection, whatever else the machine does: the bytes written are, read by a client, the
  contents of responses to the requests of this connection, in the order in which they were asked, each one
  the value that fulfilled the promise of its request; at most the last request is still without response.
\<close>

theorem responses_in_order:
  assumes "net_reachable n json has_function lib ((s, log, reqs), cs)" and "net_lib_ok lib" and "c \<in> set cs"
  shows "\<exists>reps. read_responses (length reps) (conn_out c) = Some (map (content_of (reply_text lib)) reps, []) \<and>
    (\<forall>j < length reps. Set_value (conn_cpu c) (conn_asked c ! j) (reps ! j) \<in> set log) \<and>
    length (conn_asked c) = length reps + waiting c"
proof -
  have "conn_inv lib log c"
    using net_reachable_inv [OF assms(1,2)] assms(3) by (simp add: net_inv_def)
  then show ?thesis
    unfolding conn_inv_def by (metis append_Nil2)
qed

theorem responses_in_order_witness:
  "\<exists>cfg c (reps :: js_reply list). two_shards (cfg, [c]) \<and> conn_out c \<noteq> [] \<and> read_responses (length reps) (conn_out c) = Some (map r_message reps, [])"
proof -
  obtain s' log reqs c where r: "two_shards ((s', log, reqs), [c])" and "conn_out c \<noteq> []"
    using two_shards_served by blast
  moreover have m: "content_of (reply_text line_lib) = r_message"
    by (simp add: line_lib_def)
  from responses_in_order [OF r line_lib_ok, of c, unfolded m]
  obtain reps :: "js_reply list" where "read_responses (length reps) (conn_out c) = Some (map r_message reps, [])"
    by auto
  ultimately show ?thesis
    by (intro exI conjI)
qed

text \<open>
  C8. When the ids of the requests differ, every response on its way has exactly one connection that
  waits for it: no response is lost and none is written on another connection.
\<close>

theorem response_has_connection:
  assumes "net_reachable n json has_function lib ((s, log, reqs), cs)" and "net_lib_ok lib" and "distinct reqs"
    and "Set_value i key rep \<in> set (sent s)"
  shows "\<exists>!k. k < length cs \<and> conn_cpu (cs ! k) = i \<and> (\<exists>p. conn_phase (cs ! k) = Waiting p \<and> p_key p = key)"
proof -
  have inv: "net_inv lib ((s, log, reqs), cs)"
    using net_reachable_inv [OF assms(1,2)] .
  have "length (filter (fulfils i key) log) + answers i key s \<le> count_list reqs (i, key)"
    using responses_bounded [OF net_reachable_platform [OF assms(1)], of i key] by simp
  moreover have "0 < answers i key s"
    using count_fulfils [OF assms(4)] by (simp add: answers_def)
  moreover have "count_list reqs (i, key) \<le> 1"
    using assms(3) by (induction reqs) (auto simp: count_list_0_iff)
  ultimately have "length (filter (fulfils i key) log) = 0" and "count_list reqs (i, key) \<noteq> 0"
    by linarith+
  then have none: "\<forall>rep. Set_value i key rep \<notin> set log" and mem: "(i, key) \<in> set reqs"
    using count_fulfils [of i key _ log] by (auto simp: count_list_0_iff)
  have asked: "mset reqs = mset (concat (map asked_on cs))"
    using inv by (simp add: net_inv_def)
  have "(i, key) \<in> set (concat (map asked_on cs))"
    using mem mset_eq_setD [OF asked] by simp
  then obtain c where "c \<in> set cs" "(i, key) \<in> set (asked_on c)"
    by auto
  then obtain k where k: "k < length cs" "(i, key) \<in> set (asked_on (cs ! k))"
    by (metis in_set_conv_nth)
  have "\<exists>p. conn_phase (cs ! k) = Waiting p \<and> p_key p = key"
    using asked_waiting [of lib log "cs ! k" key] inv k none by (auto simp: net_inv_def asked_on_def)
  moreover have "conn_cpu (cs ! k) = i"
    using k(2) by (auto simp: asked_on_def)
  moreover have "j = k" if j: "j < length cs" "conn_cpu (cs ! j) = i" "\<exists>p. conn_phase (cs ! j) = Waiting p \<and> p_key p = key" for j
  proof (rule distinct_concat_once)
    show "distinct (concat (map asked_on cs))"
      using assms(3) mset_eq_imp_distinct_iff [OF asked] by simp
    have "conn_inv lib log (cs ! j)"
      using inv j(1) by (simp add: net_inv_def)
    then have "key \<in> set (conn_asked (cs ! j))"
      using j(3) last_in_set unfolding conn_inv_def by metis
    then show "(i, key) \<in> set (map asked_on cs ! j)"
      using j by (simp add: asked_on_def)
  qed (use j k in simp_all)
  ultimately show ?thesis
    using k(1) by blast
qed

theorem response_has_connection_witness:
  "\<exists>s log c. two_shards ((s, log, [(0, reply_key ''a.js'' ''q'')]), [c]) \<and>
    Set_value 0 (reply_key ''a.js'' ''q'') \<lparr>r_status = 200, r_message = ''ok''\<rparr> \<in> set (sent s) \<and>
    (\<exists>!k. k < length [c] \<and> conn_cpu ([c] ! k) = 0 \<and> (\<exists>p. conn_phase ([c] ! k) = Waiting p \<and> p_key p = reply_key ''a.js'' ''q''))"
proof -
  have t: "tm_ok \<lparr>tm_sec = 0, tm_min = 0, tm_hour = 0, tm_mday = 1, tm_mon = 0, tm_year = 70, tm_wday = 4\<rparr>"
    by (simp add: tm_ok_def)
  obtain s where s: "two_shards ((s, [], []), [new_conn 0 (''/a/f'' @ crlf)])" "\<forall>i < 2. at_rest (\<lambda>c f. f = ''f'') ''q'' (''a'' @ ''.js'') ''f'' s i"
    using two_shards_ready by auto
  from served_path [OF s(1) t, of 0, unfolded nth_Cons_0,
      OF two_shards_hw(2) two_shards_request(4,1) two_shards_body two_shards_request(2) two_shards_hw(1) s(2) refl]
  obtain s' log c es and p :: pending where c: "two_shards_steps ((s, [], []), [new_conn 0 (''/a/f'' @ crlf)])
        ((s', log, [(conn_cpu c, p_key p)]), [new_conn 0 (''/a/f'' @ crlf)][0 := c])"
      "p_key p = reply_key (''a'' @ ''.js'') ''q''" "conn_cpu c = conn_cpu (new_conn 0 (''/a/f'' @ crlf))"
      "sent s' = sent s @ Set_value (conn_cpu c) (p_key p) \<lparr>r_status = 200, r_message = ''ok''\<rparr> # es"
    by (elim exE conjE) (rule that)
  then have r: "two_shards ((s', log, [(0, reply_key ''a.js'' ''q'')]), [c])"
      and ev: "Set_value 0 (reply_key ''a.js'' ''q'') \<lparr>r_status = 200, r_message = ''ok''\<rparr> \<in> set (sent s')"
    using net_reachable_steps [OF c(1) s(1)] by (simp_all add: new_conn_def)
  have "\<exists>!k. k < length [c] \<and> conn_cpu ([c] ! k) = 0 \<and> (\<exists>p. conn_phase ([c] ! k) = Waiting p \<and> p_key p = reply_key ''a.js'' ''q'')"
    by (rule response_has_connection [OF r line_lib_ok _ ev]) simp
  then show ?thesis
    using r ev by (intro exI conjI)
qed

text \<open>
  C6. A connection whose next request has a body that can be read and is for a function that the shards at
  rest can run, with a script that replies, is served: some steps from this configuration accept the request
  and write the response at the end of what was written on the connection, a client reads from it the content
  that seastar makes of the reply, the connection is ready for its next request, the other connections are as
  they were, and what was in flight still is.
\<close>

theorem connection_served:
  assumes "net_reachable n json has_function lib ((s, log, reqs), cs)" and "net_lib_ok lib"
    and "k < length cs" and "conn_phase (cs ! k) = Reading"
    and "next_request lib (conn_in (cs ! k)) = (Some req, r)" and "body_read (http lib) req r"
    and "split_path (request_path req) = rok (service, fn)"
    and "HW_Q_COUNT < n \<longrightarrow> (\<exists>k. HW_Q_COUNT \<le> k \<and> k < n \<and> till s k \<noteq> - 1)"
    and "\<forall>i < n. at_rest has_function req_id (service @ ''.js'') fn s i" and "json ret = Inr rep"
  shows "\<exists>s' log' c text line hs es. (net_step n json has_function lib)\<^sup>*\<^sup>* ((s, log, reqs), cs)
      ((s', log', (conn_cpu (cs ! k), reply_key (service @ ''.js'') req_id) # reqs), cs[k := c]) \<and>
    conn_phase c = Reading \<and> conn_out c = conn_out (cs ! k) @ text \<and>
    read_response text = Some (line, hs, content_of (reply_text lib) rep, []) \<and> sent s' = sent s @ es"
  by (rule served [OF assms])

theorem connection_served_witness:
  "\<exists>s cfg c line hs. two_shards ((s, [], []), [new_conn 0 (''/a/f'' @ crlf)]) \<and>
    two_shards_steps ((s, [], []), [new_conn 0 (''/a/f'' @ crlf)]) (cfg, [c]) \<and>
    conn_phase c = Reading \<and> read_response (conn_out c) = Some (line, hs, ''ok'', [])"
proof -
  obtain s where s: "two_shards ((s, [], []), [new_conn 0 (''/a/f'' @ crlf)])" "\<forall>i < 2. at_rest (\<lambda>c f. f = ''f'') ''q'' (''a'' @ ''.js'') ''f'' s i"
    using two_shards_ready by auto
  from connection_served [OF s(1) line_lib_ok, of 0, unfolded nth_Cons_0,
      OF two_shards_hw(2) two_shards_request(4,1) two_shards_body two_shards_request(2) two_shards_hw(1) s(2) refl]
  obtain s' log reqs c bs line hs where c: "two_shards_steps ((s, [], []), [new_conn 0 (''/a/f'' @ crlf)]) ((s', log, reqs), [new_conn 0 (''/a/f'' @ crlf)][0 := c])"
      "conn_phase c = Reading" "conn_out c = conn_out (new_conn 0 (''/a/f'' @ crlf)) @ bs"
      "read_response bs = Some (line, hs, content_of (reply_text line_lib) \<lparr>r_status = 200, r_message = ''ok''\<rparr>, [])"
    by (elim exE conjE) (rule that)
  have "conn_out c = bs" "content_of (reply_text line_lib) \<lparr>r_status = 200, r_message = ''ok''\<rparr> = ''ok''"
    using c(3) by (simp_all add: new_conn_def line_lib_def)
  then show ?thesis
    using s(1) c(1,2,4) by (simp only: list_update.simps nat.case) blast
qed

end
