(* ===== verification/Ping_Pong.thy ===== *)
theory Ping_Pong
  imports Text
begin

text \<open>
  The measurement of messages between shards in \<^verbatim>\<open>src/scheduler.cc\<close>: shard 8 sends a message to shard 9, which
  sends one back, and each round trip goes into an average that is printed. \<^verbatim>\<open>rdtsc\<close> of
  \<^verbatim>\<open>src/include/seastarkv.hh\<close> joins the two halves of the counter of the processor.
\<close>

section \<open>The counter\<close>

unbundle bit_operations_syntax

definition rdtsc :: "u32 \<Rightarrow> u32 \<Rightarrow> u64" where
  "rdtsc lo hi = push_bit 32 (ucast hi) OR ucast lo"

lemma rdtsc_value: "unat (rdtsc lo hi) = 2 ^ 32 * unat hi + unat lo"
proof -
  have l: "unat lo < 2 ^ 32" "unat hi < 2 ^ 32"
    using unsigned_less [of lo] unsigned_less [of hi] by simp_all
  have "push_bit 32 (ucast hi :: u64) AND ucast lo = 0"
    by (rule bit_eqI) (auto simp: bit_simps dest: bit_imp_le_length)
  then have "rdtsc lo hi = push_bit 32 (ucast hi) + ucast lo"
    by (simp add: rdtsc_def disjunctive_add_eq_or)
  moreover have "unat (push_bit 32 (ucast hi :: u64)) = 2 ^ 32 * unat hi"
    using l by (simp add: push_bit_eq_mult unat_word_ariths unsigned_ucast_eq take_bit_nat_eq_self)
  moreover have "unat (ucast lo :: u64) = unat lo"
    using l by (simp add: unsigned_ucast_eq take_bit_nat_eq_self)
  ultimately show ?thesis
    using l by (simp add: unat_word_ariths)
qed

section \<open>Messages\<close>

text \<open>The global variables, and the numbers printed. \<^verbatim>\<open>pp\<close> is an \<^verbatim>\<open>int\<close>, whose overflow is undefined: a fault.\<close>

record meter =
  pp :: u32
  pptotal :: u64
  tsp :: u64
  printed :: "u64 list"

definition new_meter :: meter where
  "new_meter = \<lparr>pp = 0, pptotal = 0, tsp = 0, printed = []\<rparr>"

datatype pp_msg = Invoke_pong nat | Invoke_test_reply nat

text \<open>\<^verbatim>\<open>invoke_on\<close> a shard that does not exist is outside the array of queues.\<close>

definition ping :: "nat \<Rightarrow> u64 \<Rightarrow> meter \<Rightarrow> (pp_msg \<times> meter) res" where
  "ping n now m = (if n \<le> 9 then rfail Out_of_bounds else rok (Invoke_pong 9, m\<lparr>tsp := now\<rparr>))"

definition pong :: "nat \<Rightarrow> meter \<Rightarrow> (pp_msg \<times> meter) res" where
  "pong n m = (if n \<le> 8 then rfail Out_of_bounds else rok (Invoke_test_reply 8, m))"

definition test_reply :: "nat \<Rightarrow> u64 \<Rightarrow> u64 \<Rightarrow> meter \<Rightarrow> (pp_msg \<times> meter) res" where
  "test_reply n now1 now2 m =
     (if pp m = 0x7FFFFFFF then rfail Signed_overflow else
      let m = m\<lparr>pp := pp m + 1\<rparr>;
          m = m\<lparr>pptotal := pptotal m + (now1 - tsp m)\<rparr> in
      if pp m = 0 then rfail Div_by_zero
      else ping n now2 (m\<lparr>printed := printed m @ [pptotal m div scast (pp m)]\<rparr>))"

definition pp_deliver :: "nat \<Rightarrow> u64 \<times> u64 \<Rightarrow> pp_msg \<times> meter \<Rightarrow> (pp_msg \<times> meter) res" where
  "pp_deliver n now c = (case c of
      (Invoke_pong i, m) \<Rightarrow> pong n m
    | (Invoke_test_reply i, m) \<Rightarrow> test_reply n (fst now) (snd now) m)"

text \<open>Rounds of two messages, with the readings of the counter of each round.\<close>

fun pp_rounds :: "nat \<Rightarrow> (u64 \<times> u64) list \<Rightarrow> pp_msg \<times> meter \<Rightarrow> (pp_msg \<times> meter) res" where
  "pp_rounds n [] c = rok c"
| "pp_rounds n (now # ts) c = rbind (pp_deliver n now c) (\<lambda>c. rbind (pp_deliver n now c) (pp_rounds n ts))"

section \<open>The average\<close>

text \<open>The times of the round trips, the first from the time of the first ping.\<close>

fun trips :: "u64 \<Rightarrow> (u64 \<times> u64) list \<Rightarrow> u64 list" where
  "trips t [] = []"
| "trips t ((now1, now2) # ts) = (now1 - t) # trips now2 ts"

lemma trips_length [simp]: "length (trips t ts) = length ts"
  by (induction t ts rule: trips.induct) simp_all

lemma count_positive: "0 < k \<Longrightarrow> k < 2 ^ 31 \<Longrightarrow> (of_nat k :: u32) \<noteq> 0 \<and> (scast (of_nat k :: u32) :: u64) = of_nat k"
proof -
  assume k: "0 < k" "k < 2 ^ 31"
  then have "unat (of_nat k :: u32) = k"
    by (simp add: unsigned_of_nat take_bit_nat_eq_self)
  moreover have "sint (of_nat k :: u32) = int k"
    using k by (simp add: signed_of_nat signed_take_bit_int_eq_self)
  ultimately show ?thesis
    using k(1) by (auto simp: scast_eq)
qed

text \<open>
  The state after \<open>k\<close> rounds: as many averages have been printed, each one the total of the round trips so far,
  modulo \<open>2 ^ 64\<close>, divided by their number, and one message is on its way.
\<close>

definition measured :: "u64 \<Rightarrow> (u64 \<times> u64) list \<Rightarrow> meter" where
  "measured t ts = \<lparr>pp = of_nat (length ts), pptotal = sum_list (trips t ts), tsp = (if ts = [] then t else snd (last ts)),
     printed = map (\<lambda>k. sum_list (take (Suc k) (trips t ts)) div of_nat (Suc k)) [0..<length ts]\<rparr>"

lemma trips_snoc: "trips t (ts @ [(now1, now2)]) = trips t ts @ [now1 - (if ts = [] then t else snd (last ts))]"
  by (induction t ts rule: trips.induct) auto

lemma round_measured:
  assumes "9 < n" and "length ts < 2 ^ 31 - 1"
  shows "rbind (pp_deliver n now (Invoke_pong i, measured t ts)) (pp_deliver n now) = rok (Invoke_pong 9, measured t (ts @ [now]))"
proof -
  obtain now1 now2 where now: "now = (now1, now2)"
    by (cases now)
  have c: "(of_nat (Suc (length ts)) :: u32) \<noteq> 0 \<and> (scast (of_nat (Suc (length ts)) :: u32) :: u64) = of_nat (Suc (length ts))"
    using assms(2) by (intro count_positive) simp_all
  have "unat (of_nat (length ts) :: u32) = length ts"
    using assms(2) by (simp add: unsigned_of_nat take_bit_nat_eq_self)
  moreover have "unat (0x7FFFFFFF :: u32) = 2 ^ 31 - 1"
    by simp
  ultimately have small: "(of_nat (length ts) :: u32) \<noteq> 0x7FFFFFFF"
    using assms(2) by (metis less_irrefl)
  have "map (\<lambda>k. sum_list (take (Suc k) (trips t (ts @ [now]))) div of_nat (Suc k) :: u64) [0..<length ts] =
      map (\<lambda>k. sum_list (take (Suc k) (trips t ts)) div of_nat (Suc k)) [0..<length ts]"
    by (rule map_cong) (simp_all add: now trips_snoc)
  then show ?thesis
    using assms(1) c small by (simp add: pp_deliver_def pong_def test_reply_def ping_def now measured_def trips_snoc Let_def add.commute)
qed

lemma rounds_measured:
  assumes "9 < n"
  shows "length ts0 + length ts < 2 ^ 31 \<Longrightarrow>
    pp_rounds n ts (Invoke_pong 9, measured t ts0) = rok (Invoke_pong 9, measured t (ts0 @ ts))"
proof (induction ts arbitrary: ts0)
  case Nil
  then show ?case by simp
next
  case (Cons now ts)
  have "rbind (pp_deliver n now (Invoke_pong 9, measured t ts0)) (\<lambda>c. rbind (pp_deliver n now c) f) = f (Invoke_pong 9, measured t (ts0 @ [now]))" for f :: "pp_msg \<times> meter \<Rightarrow> (pp_msg \<times> meter) res"
  proof -
    have "length ts0 < 2 ^ 31 - 1"
      using Cons.prems by simp
    from round_measured [OF assms this, of now 9 t] show ?thesis
      by (auto simp: rbind_rok_iff)
  qed
  then show ?case
    using Cons.IH [of "ts0 @ [now]"] Cons.prems by simp
qed

text \<open>
  On a machine with more than nine shards the measurement goes on for ever, with one message on its way, and after
  fewer than \<open>2 ^ 31\<close> round trips it has printed the running average of their times.
\<close>

lemma ping_pong_average:
  assumes "9 < n" and "length ts < 2 ^ 31"
  shows "rbind (ping n t new_meter) (pp_rounds n ts) = rok (Invoke_pong 9, measured t ts)"
proof -
  have "ping n t new_meter = rok (Invoke_pong 9, measured t [])"
    using assms(1) by (simp add: ping_def new_meter_def measured_def)
  then show ?thesis
    using rounds_measured [OF assms(1), of "[]" ts t] assms(2) by simp
qed

end
