(* ===== verification/Spec2Isabelle.thy ===== *)
theory Spec2Isabelle
  imports Hash_Table Db_Api Redis_Old_Parser Http_Handler Responses Reply_Builder Typing Registration Net_Server Ping_Pong
begin

text \<open>
  A verification library for nanoservices (\<^verbatim>\<open>src/\<close>), a server that runs small JavaScript services next
  to an in-memory store, on seastar, with one shard for each core.

  \<^bold>\<open>The program.\<close> A connection (\<^verbatim>\<open>connection_handler.cc\<close>) reads an HTTP request, splits its path into
  service and function, and hands it to the scheduler of its shard (\<^verbatim>\<open>scheduler.cc\<close>). The scheduler keeps
  the promise of the response, chooses a core for the root call and for the calls the services make of
  each other, and moves tasks and replies between the shards. The service runtime (\<^verbatim>\<open>req_server.cc\<close>) runs
  the functions and callbacks of the services in V8 and gives them bindings: the calls and replies of
  the scheduler, and the databases (\<^verbatim>\<open>include/db.hh\<close>, \<^verbatim>\<open>db.cc\<close>), hash tables whose entries carry a
  version for optimistic updates. The repository also holds a parser and a builder for the Redis
  protocol (\<^verbatim>\<open>include/redis_protocol_parser.hh\<close>, \<^verbatim>\<open>include/reply_builder.hh\<close>).

  \<^bold>\<open>The theories\<close>, with the files they model:

  \<^item> \<open>Prelude\<close> and \<open>Text\<close>: machine words, results that can fail (\<open>res\<close>: \<open>None\<close> does not return, \<open>Inl\<close> is a
    fault or exception), bytes of an \<^verbatim>\<open>int\<close>, decimal numbers, lines; lemmas on lists and words.
  \<^item> \<open>Hash_Table\<close> (\<^verbatim>\<open>db.cc\<close>, \<^verbatim>\<open>include/db.hh\<close>): the table over an explicit heap of nodes and blobs;
    \<open>ht_set\<close> and \<open>ht_get\<close> refine an update and a lookup of a map from keys to bytes, through the
    locale of a versioned store.
  \<^item> \<open>Db_Api\<close> (\<^verbatim>\<open>include/db.hh\<close>, \<^verbatim>\<open>req_server.cc\<close>): the map of databases and the bindings \<^verbatim>\<open>DBGet\<close>, \<^verbatim>\<open>DBSet\<close>,
    \<^verbatim>\<open>DBDel\<close>, \<^verbatim>\<open>GetHashTable\<close>, \<^verbatim>\<open>NewDB\<close>.
  \<^item> \<open>Redis_Fsm\<close>, \<open>Redis_Parser\<close>, \<open>Redis_Words\<close>, \<open>Redis_Requests\<close> (\<^verbatim>\<open>include/redis_protocol_parser.hh\<close>): the
    generated automaton block by block (\<open>fsm_part_01\<close> and on), its execution over a buffer, the words of
    the commands, and whole requests. \<open>parse\<close> is related to a machine that reads one byte at a time,
    and this one to the text of a request.
  \<^item> \<open>Redis_Tables\<close>, \<open>Redis_Rows\<close>, \<open>Redis_Old_Parser\<close> (\<^verbatim>\<open>include/redis_protocol_parser.c\<close>): the older, table-driven
    output of ragel that the repository also holds, with its tables line by line, its binary searches and
    its loop. From every state but those inside the word \<^verbatim>\<open>quit\<close>, which it lacks, it agrees with the parser of
    the header on every buffer, but for the command \<^verbatim>\<open>quit\<close> and for a start in the error state, which it keeps and
    the header leaves.
  \<^item> \<open>Scheduler\<close>, \<open>Scheduling\<close> (\<^verbatim>\<open>scheduler.cc\<close>, \<^verbatim>\<open>include/scheduler.hh\<close>): the state of the shards and of the
    cores, every operation on it, its invariant \<open>sched_inv\<close>; the choice of a core, progress, liveness of
    the queues, replies on every branch, averages of execution times.
  \<^item> \<open>Service_Runtime\<close> (\<^verbatim>\<open>req_server.cc\<close>, \<^verbatim>\<open>main.cc\<close>): contexts of services, \<^verbatim>\<open>Call\<close> and \<^verbatim>\<open>Reply\<close>, the run of
    functions and callbacks.
  \<^item> \<open>Bindings\<close> (\<^verbatim>\<open>req_server.cc\<close>, \<^verbatim>\<open>include/req_server.hh\<close>): \<^verbatim>\<open>print\<close>, \<^verbatim>\<open>Sha1\<close>, \<^verbatim>\<open>Base64Decode\<close> and the read of a
    script; \<open>Registration\<close> (\<^verbatim>\<open>req_server.cc\<close>, \<^verbatim>\<open>main.cc\<close>): the registration of a service on a shard and of all
    services on all shards in any interleaving, with their contexts and databases.
  \<^item> \<open>Platform\<close>: the shards at work, as an inductive step relation that delivers the tasks and messages
    in any order; consistency of every reachable state, at most one response for a request, and that
    shards at rest can answer. \<open>Typing\<close> adds the types of the shared states: what is behind a \<^verbatim>\<open>void*\<close>, and
    that every shard that is addressed exists.
  \<^item> \<open>Http_Handler\<close> (\<^verbatim>\<open>connection_handler.cc\<close>): URL decoding, query parameters, paths, bodies, \<open>handle\<close>.
  \<^item> \<open>Responses\<close> (\<^verbatim>\<open>scheduler.cc\<close>): the date, the headers and the text of a response.
  \<^item> \<open>Net_Server\<close> (\<^verbatim>\<open>net_server.cc\<close>, \<^verbatim>\<open>main.cc\<close>): the connections and the loop that serves each, over the handler,
    the shards and the responses. Every run of the server is a run of the shards; responses are written in the
    order of the requests, each on the connection that asked; from every configuration whose shards are at rest
    a request for a function they can run is served, by steps from this configuration.
  \<^item> \<open>Ping_Pong\<close> (\<^verbatim>\<open>scheduler.cc\<close>): the measurement of messages between two shards, and its running average.
  \<^item> \<open>Reply_Builder\<close> (\<^verbatim>\<open>include/reply_builder.hh\<close>, \<^verbatim>\<open>include/seastarkv.hh\<close>): the replies of the Redis protocol.

  \<^bold>\<open>State.\<close> A C++ object is a record with its fields under their names; \<^verbatim>\<open>unordered_map\<close> is a partial map;
  what is reached by pointers that alias (nodes and data of a table, the buffers of V8) is a heap of
  addresses; states owned by one map entry are values in the map. Words have their width: \<open>u32\<close> and
  \<open>u64\<close> wrap, a \<^verbatim>\<open>char\<close> is signed. Readings of the clock, random numbers and fresh ids are arguments.
  An operation on a locked structure is one step; the scheduler's lock is explicit, since its use is
  part of what is shown.

  \<^bold>\<open>Bounds and termination.\<close> The loops over a bucket, a buffer and a file are \<open>partial_function (option)\<close>, and
  the theorems about them say that they return, for the loop over a file exactly when. Buffers of the Redis parser are below 4 GiB because the
  code casts the remaining length to 32 bits. Texts of the HTTP side are below \<open>2 ^ 64\<close> bytes, the range
  of \<^verbatim>\<open>size_t\<close>. No definition uses fuel.

  \<^bold>\<open>Parameters.\<close> Code that is not in the repository is an argument, with what is relied on as hypotheses:
  \<^verbatim>\<open>malloc\<close> and the contents of new memory, \<^verbatim>\<open>rand\<close>, \<^verbatim>\<open>std::hash\<close>, the string builder of the Redis parser, the
  HTTP parser, header table and \<^verbatim>\<open>read_exactly\<close> of seastar, which can throw when it allocates, its response line
  and content, the JSON reader and writer of
  boost, its digest and its decoder of base 64, the file system, the strings and the compiler of V8, and what the
  scripts do in V8, which is the list of the calls and replies they make.

  \<^bold>\<open>Not modelled.\<close> The opening of the port and the start of seastar and V8, which only call libraries; the thread
  of \<^verbatim>\<open>req_service::js\<close>, which only waits; constants that no code uses. Data races between shards on the
  statistics of functions, and on the shared maps that the code reads without the lock, are not modelled:
  operations of different shards do not overlap. The steps of the server begin when the schedulers have been
  started, although \<^verbatim>\<open>main\<close> lets the shards listen before.
\<close>

end
